(* ===== verification/Prelude.thy ===== *)
theory Prelude
  imports Main "HOL-Library.Word"
begin

text \<open>
  Shared vocabulary of the development: the machine integers of the Rust code, its checked
  and saturating arithmetic, I/O errors as values, byte-sequence reads and writes
  (\<open>pread\<close>/\<open>pwrite\<close>), a state-and-error result type with its combinators, and the
  \<^theory_text>\<open>named_theorems\<close> collections the component theories fill.

  Rust's \<open>u64\<close>, \<open>u32\<close>, \<open>u16\<close>, \<open>u8\<close> are words of that width, so \<open>+\<close> wraps as it
  does in a release build; \<open>i64\<close> is the same 64-bit word read with \<open>sint\<close>. A \<open>str\<close>
  or \<open>String\<close> is a \<open>string\<close> whose characters stand for the Unicode scalar values
  below 256; the code only tests characters against ASCII classes and whitespace.
\<close>

named_theorems bytes_simps \<open>length and content of byte ranges read and written\<close>
named_theorems arith_simps \<open>checked and saturating arithmetic through unat\<close>

section \<open>Machine integers\<close>

type_synonym u8 = "8 word"
type_synonym u16 = "16 word"
type_synonym u32 = "32 word"
type_synonym u64 = "64 word"
type_synonym i64 = "64 word"
type_synonym byte = u8

abbreviation u64_max :: u64 where
  "u64_max \<equiv> - 1"

definition saturating_add :: "u64 \<Rightarrow> u64 \<Rightarrow> u64" where
  "saturating_add a b = (if unat a + unat b < 2 ^ 64 then a + b else u64_max)"

definition saturating_sub :: "u64 \<Rightarrow> u64 \<Rightarrow> u64" where
  "saturating_sub a b = (if b \<le> a then a - b else 0)"

definition checked_add :: "u64 \<Rightarrow> nat \<Rightarrow> u64 option" where
  "checked_add a n = (if unat a + n < 2 ^ 64 then Some (a + of_nat n) else None)"

definition checked_mul :: "u64 \<Rightarrow> u64 \<Rightarrow> u64 option" where
  "checked_mul a b = (if unat a * unat b < 2 ^ 64 then Some (a * b) else None)"

definition div_ceil :: "u64 \<Rightarrow> u64 \<Rightarrow> u64" where
  "div_ceil a b = (if a mod b = 0 then a div b else a div b + 1)"

lemma unat_u64_max [simp]: "unat u64_max = 2 ^ 64 - 1"
  by (simp add: unsigned_minus_1_eq_mask mask_eq_exp_minus_1)

lemma unat_u64_less: "unat (a :: u64) < 2 ^ 64"
  using unsigned_less [of a] by simp

lemma unat_saturating_add [arith_simps]:
  "unat (saturating_add a b) = min (unat a + unat b) (2 ^ 64 - 1)"
  by (auto simp: saturating_add_def unat_word_ariths)

lemma saturating_add_ge: "a \<le> saturating_add a b"
  using unat_u64_less [of a] by (simp add: word_le_nat_alt arith_simps)

lemma unat_saturating_sub [arith_simps]: "unat (saturating_sub a b) = unat a - unat b"
  by (auto simp: saturating_sub_def word_le_nat_alt unat_sub)

lemma checked_add_SomeD: "checked_add a n = Some c \<Longrightarrow> unat c = unat a + n"
  by (auto simp: checked_add_def unat_word_ariths unsigned_of_nat take_bit_eq_mod split: if_splits)

lemma checked_add_None_iff: "checked_add a n = None \<longleftrightarrow> 2 ^ 64 \<le> unat a + n"
  by (auto simp: checked_add_def)

lemma checked_mul_SomeD: "checked_mul a b = Some c \<Longrightarrow> unat c = unat a * unat b"
  by (auto simp: checked_mul_def unat_word_ariths split: if_splits)

lemma unat_of_nat_u64: "n < 2 ^ 64 \<Longrightarrow> unat (of_nat n :: u64) = n"
  by (simp add: unsigned_of_nat take_bit_nat_eq_self)

lemma word_less_unat: "(a :: u64) < b \<longleftrightarrow> unat a < unat b"
  by (rule word_less_nat_alt)

lemma word_le_unat: "(a :: u64) \<le> b \<longleftrightarrow> unat a \<le> unat b"
  by (rule word_le_nat_alt)

lemma unat_min [arith_simps]: "unat (min (a :: u64) b) = min (unat a) (unat b)"
  by (auto simp: min_def word_le_unat)

section \<open>I/O errors\<close>

datatype io_kind = InvalidInput | InvalidData | UnexpectedEof | BrokenPipe | OtherIo

datatype io_error = IoError (io_error_kind: io_kind) (io_error_message: string)

text \<open>
  What the operating system does with one write or read: it succeeds, or it fails with an
  error after some bytes of a write already landed.
\<close>

datatype io_outcome = IoOk | IoFail nat io_error

section \<open>Byte sequences\<close>

text \<open>
  The content of a file as a list, with POSIX \<open>pwrite\<close> and \<open>pread\<close>: a write past the
  end leaves a gap of zeros, an empty write changes nothing, a read is cut at the end.
\<close>

definition pwrite :: "byte list \<Rightarrow> nat \<Rightarrow> byte list \<Rightarrow> byte list" where
  "pwrite xs off bs =
     (if bs = [] then xs
      else map (\<lambda>i. if off \<le> i \<and> i < off + length bs then bs ! (i - off)
                    else if i < length xs then xs ! i else 0)
             [0..<max (length xs) (off + length bs)])"

definition pread :: "byte list \<Rightarrow> nat \<Rightarrow> nat \<Rightarrow> byte list" where
  "pread xs off n = take n (drop off xs)"

lemma length_pwrite [bytes_simps]:
  "length (pwrite xs off bs) = (if bs = [] then length xs else max (length xs) (off + length bs))"
  by (simp add: pwrite_def)

lemma nth_pwrite [bytes_simps]:
  "i < length (pwrite xs off bs) \<Longrightarrow>
   pwrite xs off bs ! i =
     (if off \<le> i \<and> i < off + length bs then bs ! (i - off)
      else if i < length xs then xs ! i else 0)"
  by (auto simp: pwrite_def split: if_splits)

lemma nth_pwrite_less [bytes_simps]:
  "i < length xs \<Longrightarrow>
   pwrite xs off bs ! i = (if off \<le> i \<and> i < off + length bs then bs ! (i - off) else xs ! i)"
  by (auto simp: pwrite_def)

lemma pwrite_Nil [simp]: "pwrite xs off [] = xs"
  by (simp add: pwrite_def)

lemma length_pread [bytes_simps]: "length (pread xs off n) = min n (length xs - off)"
  by (simp add: pread_def)

lemma nth_pread [bytes_simps]: "i < length (pread xs off n) \<Longrightarrow> pread xs off n ! i = xs ! (off + i)"
  by (auto simp: pread_def)

lemma pread_pwrite_same: "pread (pwrite xs off bs) off (length bs) = bs"
  by (rule nth_equalityI) (auto simp: bytes_simps)

lemma pread_eqI:
  assumes "length ys = min n (length xs - off)"
    and "\<And>i. i < length ys \<Longrightarrow> ys ! i = xs ! (off + i)"
  shows "pread xs off n = ys"
  using assms by (intro nth_equalityI) (auto simp: bytes_simps)

section \<open>Results and state passing\<close>

text \<open>
  A fallible call that changes state: it returns the error or the value, and the state it
  leaves. \<open>bind_op\<close> is the \<open>?\<close> operator, \<open>lift_res\<close> a pure fallible call.
\<close>

type_synonym ('s, 'e, 'a) op = "'s \<Rightarrow> ('e + 'a) \<times> 's"

definition ret_op :: "'a \<Rightarrow> ('s, 'e, 'a) op" where
  "ret_op a = (\<lambda>s. (Inr a, s))"

definition throw_op :: "'e \<Rightarrow> ('s, 'e, 'a) op" where
  "throw_op e = (\<lambda>s. (Inl e, s))"

definition bind_op :: "('s, 'e, 'a) op \<Rightarrow> ('a \<Rightarrow> ('s, 'e, 'b) op) \<Rightarrow> ('s, 'e, 'b) op" where
  "bind_op m f = (\<lambda>s. case m s of (Inl e, s') \<Rightarrow> (Inl e, s') | (Inr a, s') \<Rightarrow> f a s')"

definition gets_op :: "('s \<Rightarrow> 'a) \<Rightarrow> ('s, 'e, 'a) op" where
  "gets_op f = (\<lambda>s. (Inr (f s), s))"

definition modify_op :: "('s \<Rightarrow> 's) \<Rightarrow> ('s, 'e, unit) op" where
  "modify_op f = (\<lambda>s. (Inr (), f s))"

definition lift_opt :: "'e \<Rightarrow> ('s \<Rightarrow> 'a option) \<Rightarrow> ('s, 'e, 'a) op" where
  "lift_opt e f = (\<lambda>s. case f s of None \<Rightarrow> (Inl e, s) | Some a \<Rightarrow> (Inr a, s))"

lemma ret_op_apply [simp]: "ret_op a s = (Inr a, s)"
  by (simp add: ret_op_def)

lemma throw_op_apply [simp]: "throw_op e s = (Inl e, s)"
  by (simp add: throw_op_def)

lemma gets_op_apply [simp]: "gets_op f s = (Inr (f s), s)"
  by (simp add: gets_op_def)

lemma modify_op_apply [simp]: "modify_op f s = (Inr (), f s)"
  by (simp add: modify_op_def)

lemma lift_opt_apply:
  "lift_opt e f s = (case f s of None \<Rightarrow> (Inl e, s) | Some a \<Rightarrow> (Inr a, s))"
  by (simp add: lift_opt_def)

lemma bind_op_Inl [simp]: "m s = (Inl e, s') \<Longrightarrow> bind_op m f s = (Inl e, s')"
  by (simp add: bind_op_def)

lemma bind_op_Inr [simp]: "m s = (Inr a, s') \<Longrightarrow> bind_op m f s = f a s'"
  by (simp add: bind_op_def)

lemma bind_op_InrE:
  assumes "bind_op m f s = (Inr b, s'')"
  obtains a s' where "m s = (Inr a, s')" and "f a s' = (Inr b, s'')"
  using assms by (auto simp: bind_op_def split: prod.splits sum.splits)

lemma bind_op_cases:
  assumes "bind_op m f s = (r, s'')"
  obtains (err) e where "m s = (Inl e, s'')" and "r = Inl e"
  | (ok) a s' where "m s = (Inr a, s')" and "f a s' = (r, s'')"
  using assms by (auto simp: bind_op_def split: prod.splits sum.splits)

text \<open>
  An operation keeps an invariant when every run from a state that satisfies it ends in
  one that does, error or not. The rules compose it along the combinators.
\<close>

named_theorems keeps_rules \<open>invariant preservation through the state-passing combinators\<close>

definition keeps :: "('s \<Rightarrow> bool) \<Rightarrow> ('s, 'e, 'a) op \<Rightarrow> bool" where
  "keeps P m \<longleftrightarrow> (\<forall>s r s'. P s \<longrightarrow> m s = (r, s') \<longrightarrow> P s')"

lemma keepsI: "(\<And>s r s'. P s \<Longrightarrow> m s = (r, s') \<Longrightarrow> P s') \<Longrightarrow> keeps P m"
  by (auto simp: keeps_def)

lemma keepsD: "keeps P m \<Longrightarrow> m s = (r, s') \<Longrightarrow> P s \<Longrightarrow> P s'"
  by (auto simp: keeps_def)

lemma keeps_ret [keeps_rules, intro]: "keeps P (ret_op a)"
  by (auto simp: keeps_def)

lemma keeps_throw [keeps_rules, intro]: "keeps P (throw_op e)"
  by (auto simp: keeps_def)

lemma keeps_gets [keeps_rules, intro]: "keeps P (gets_op f)"
  by (auto simp: keeps_def)

lemma keeps_lift_opt [keeps_rules, intro]: "keeps P (lift_opt e f)"
  by (auto simp: keeps_def lift_opt_def split: option.splits)

lemma keeps_modify [keeps_rules]: "(\<And>s. P s \<Longrightarrow> P (f s)) \<Longrightarrow> keeps P (modify_op f)"
  by (auto simp: keeps_def)

lemma keeps_bind [keeps_rules]:
  "keeps P m \<Longrightarrow> (\<And>a. keeps P (f a)) \<Longrightarrow> keeps P (bind_op m f)"
  by (rule keepsI) (auto elim!: bind_op_cases dest: keepsD)

section \<open>Decimal rendering\<close>

text \<open>Rust's \<open>{}\<close> formatting of an unsigned integer.\<close>

definition digit_char :: "nat \<Rightarrow> char" where
  "digit_char d = char_of (48 + d)"

fun show_nat :: "nat \<Rightarrow> string" where
  "show_nat n = (if n < 10 then [digit_char n] else show_nat (n div 10) @ [digit_char (n mod 10)])"

declare show_nat.simps [simp del]

definition show_u64 :: "u64 \<Rightarrow> string" where
  "show_u64 w = show_nat (unat w)"

lemma show_nat_nonempty [simp]: "show_nat n \<noteq> []"
  by (subst show_nat.simps) simp

section \<open>Finite maps and lists\<close>

lemma filter_neq_notin [simp]: "x \<notin> set xs \<Longrightarrow> filter (\<lambda>y. y \<noteq> x) xs = xs"
  by (induction xs) auto

lemma option_ext: "(\<And>j. a = Some j \<longleftrightarrow> b = Some j) \<Longrightarrow> a = b"
  by (metis not_Some_eq)

lemma map_upd_eq_Some_iff: "(m(k \<mapsto> v)) j = Some w \<longleftrightarrow> (if j = k then w = v else m j = Some w)"
  by auto

end
