(* ===== verification/Ranges.thy ===== *)
theory Ranges
  imports Prelude
begin

text \<open>
  \<open>src/src/ranges.rs\<close>: the set of cached byte offsets, held as sorted, non-overlapping,
  non-adjacent half-open ranges. \<open>insert_range\<close> is \<open>RangeSet::insert\<close>,
  \<open>missing\<close> is \<open>RangeSet::missing\<close>. The lemmas show that the representation stays
  canonical, that \<open>insert_range\<close> is set union and that \<open>missing\<close> returns exactly the
  uncovered part of the clipped window, in canonical form.
\<close>

section \<open>Model\<close>

text \<open>Rust's \<open>Range<u64>\<close>: \<open>start..end\<close>, empty when \<open>start \<ge> end\<close>.\<close>

datatype range = Range (r_start: u64) (r_end: u64)

record range_set =
  rs_ranges :: "range list"

definition range_is_empty :: "range \<Rightarrow> bool" where
  "range_is_empty r \<longleftrightarrow> \<not> r_start r < r_end r"

definition rs_new :: range_set where
  "rs_new = \<lparr>rs_ranges = []\<rparr>"

definition as_slice :: "range_set \<Rightarrow> range list" where
  "as_slice s = rs_ranges s"

text \<open>
  \<open>Vec::retain\<close> with the closure of \<open>insert\<close>, which keeps a range that is clear of
  \<open>[start, end]\<close> and otherwise absorbs it, updating the captured \<open>start\<close> and \<open>end\<close>
  before the next element is looked at.
\<close>

fun retain_merge :: "range list \<Rightarrow> u64 \<Rightarrow> u64 \<Rightarrow> range list \<times> u64 \<times> u64" where
  "retain_merge [] st en = ([], st, en)"
| "retain_merge (r # rs) st en =
     (if r_end r < st \<or> r_start r > en
      then (let (kept, st', en') = retain_merge rs st en in (r # kept, st', en'))
      else retain_merge rs (min st (r_start r)) (max en (r_end r)))"

text \<open>
  \<open>binary_search_by(|r| r.start.cmp(&start)).unwrap_or_else(|p| p)\<close>: on a slice sorted
  by start, the index of the first range that does not start below \<open>start\<close>.
\<close>

definition insertion_point :: "range list \<Rightarrow> u64 \<Rightarrow> nat" where
  "insertion_point rs st = length (takeWhile (\<lambda>r. r_start r < st) rs)"

definition insert_at :: "nat \<Rightarrow> 'a \<Rightarrow> 'a list \<Rightarrow> 'a list" where
  "insert_at p x xs = take p xs @ x # drop p xs"

definition insert_range :: "range_set \<Rightarrow> range \<Rightarrow> range_set" where
  "insert_range s new =
     (if range_is_empty new then s
      else let (kept, st, en) = retain_merge (rs_ranges s) (r_start new) (r_end new)
           in s\<lparr>rs_ranges := insert_at (insertion_point kept st) (Range st en) kept\<rparr>)"

text \<open>
  The loop of \<open>missing\<close>: \<open>cur\<close> is the cursor, the accumulated \<open>missing\<close> vector is the
  result so far, and the second component is the cursor where the loop stops.
\<close>

fun missing_loop :: "range list \<Rightarrow> u64 \<Rightarrow> u64 \<Rightarrow> range list \<times> u64" where
  "missing_loop [] cur en = ([], cur)"
| "missing_loop (p # ps) cur en =
     (if r_end p \<le> cur then missing_loop ps cur en
      else if r_start p \<ge> en then ([], cur)
      else
        (let gap = (if r_start p > cur then [Range cur (min (r_start p) en)] else []);
             cur' = r_end p
         in if cur' \<ge> en then (gap, cur')
            else (let (gaps, cur'') = missing_loop ps cur' en in (gap @ gaps, cur''))))"

definition missing :: "range_set \<Rightarrow> u64 \<Rightarrow> u64 \<Rightarrow> u64 \<Rightarrow> range list" where
  "missing s off sz lim =
     (let en = min (saturating_add off sz) lim in
      if off \<ge> en then []
      else (let (gaps, cur) = missing_loop (rs_ranges s) off en
            in gaps @ (if cur < en then [Range cur en] else [])))"

section \<open>Canonical form and abstraction\<close>

text \<open>Sorted by start, every range non-empty, no two overlapping or touching.\<close>

definition canonical :: "range list \<Rightarrow> bool" where
  "canonical rs \<longleftrightarrow>
     (\<forall>r \<in> set rs. r_start r < r_end r) \<and> sorted_wrt (\<lambda>r s. r_end r < r_start s) rs"

definition rs_wf :: "range_set \<Rightarrow> bool" where
  "rs_wf s \<longleftrightarrow> canonical (rs_ranges s)"

definition in_range :: "range \<Rightarrow> u64 \<Rightarrow> bool" where
  "in_range r x \<longleftrightarrow> r_start r \<le> x \<and> x < r_end r"

definition covers :: "range list \<Rightarrow> u64 set" where
  "covers rs = {x. \<exists>r \<in> set rs. in_range r x}"

abbreviation offsets :: "range_set \<Rightarrow> u64 set" where
  "offsets s \<equiv> covers (rs_ranges s)"

lemma canonical_Nil [simp]: "canonical []"
  by (simp add: canonical_def)

lemma canonical_Cons:
  "canonical (r # rs) \<longleftrightarrow>
     r_start r < r_end r \<and> (\<forall>s \<in> set rs. r_end r < r_start s) \<and> canonical rs"
  by (auto simp: canonical_def)

lemma canonical_append:
  "canonical (rs @ ss) \<longleftrightarrow>
     canonical rs \<and> canonical ss \<and> (\<forall>r \<in> set rs. \<forall>s \<in> set ss. r_end r < r_start s)"
  by (auto simp: canonical_def sorted_wrt_append)

lemma canonicalD: "canonical rs \<Longrightarrow> r \<in> set rs \<Longrightarrow> r_start r < r_end r"
  by (simp add: canonical_def)

lemma covers_Nil [simp]: "covers [] = {}"
  by (simp add: covers_def)

lemma covers_Cons: "covers (r # rs) = {x. in_range r x} \<union> covers rs"
  by (auto simp: covers_def)

lemma covers_append [simp]: "covers (rs @ ss) = covers rs \<union> covers ss"
  by (auto simp: covers_def)

lemma covers_singleton [simp]: "covers [Range a b] = {a..<b}"
  by (auto simp: covers_def in_range_def)

lemma covers_iff: "x \<in> covers rs \<longleftrightarrow> (\<exists>r \<in> set rs. in_range r x)"
  by (simp add: covers_def)

section \<open>Insertion\<close>

lemma retain_merge_bounds:
  "retain_merge rs st en = (kept, st', en') \<Longrightarrow> st' \<le> st \<and> en \<le> en' \<and> set kept \<subseteq> set rs"
  by (induction rs arbitrary: st en kept st' en')
    (fastforce split: if_splits prod.splits)+

lemma retain_merge_covers:
  assumes "retain_merge rs st en = (kept, st', en')"
    and "\<forall>r \<in> set rs. r_start r < r_end r" and "st < en"
  shows "covers kept \<union> {st'..<en'} = covers rs \<union> {st..<en}"
  using assms
proof (induction rs arbitrary: st en kept st' en')
  case Nil
  then show ?case by simp
next
  case (Cons r rs)
  show ?case
  proof (cases "r_end r < st \<or> r_start r > en")
    case True
    with Cons.prems obtain kept' where "retain_merge rs st en = (kept', st', en')"
      and "kept = r # kept'"
      by (auto split: prod.splits)
    moreover from this(1) Cons.prems have "covers kept' \<union> {st'..<en'} = covers rs \<union> {st..<en}"
      by (intro Cons.IH) auto
    ultimately show ?thesis by (simp add: covers_Cons Un_assoc)
  next
    case False
    let ?st = "min st (r_start r)" and ?en = "max en (r_end r)"
    have "{x. in_range r x} \<union> {st..<en} = {?st..<?en}"
      using False Cons.prems by (auto simp: in_range_def min_def max_def split: if_splits)
    moreover have "covers kept \<union> {st'..<en'} = covers rs \<union> {?st..<?en}"
      using False Cons.prems by (intro Cons.IH) (auto simp: min_less_iff_disj less_max_iff_disj)
    ultimately show ?thesis by (auto simp: covers_Cons)
  qed
qed

text \<open>
  On a canonical list the scan absorbs a contiguous block, so the kept ranges are clear of
  the final \<open>[start, end]\<close>, also the ones that were passed before \<open>start\<close> moved down.
\<close>

lemma retain_merge_clear:
  assumes "retain_merge rs st en = (kept, st', en')"
    and "canonical rs" and "st < en"
    and "\<forall>l \<in> set ls. r_end l < st" and "\<forall>l \<in> set ls. \<forall>r \<in> set rs. r_end l < r_start r"
  shows "(\<forall>l \<in> set ls. r_end l < st') \<and> (\<forall>k \<in> set kept. r_end k < st' \<or> en' < r_start k)"
  using assms
proof (induction rs arbitrary: st en kept st' en' ls)
  case Nil
  then show ?case by simp
next
  case (Cons r rs)
  note can = \<open>canonical (r # rs)\<close>
  consider (before) "r_end r < st" | (after) "\<not> r_end r < st" "r_start r > en"
    | (merge) "\<not> r_end r < st" "\<not> r_start r > en" by blast
  then show ?case
  proof cases
    case before
    then obtain kept' where k: "retain_merge rs st en = (kept', st', en')" "kept = r # kept'"
      using Cons.prems(1) by (auto split: prod.splits)
    have "(\<forall>l \<in> set (r # ls). r_end l < st') \<and> (\<forall>k \<in> set kept'. r_end k < st' \<or> en' < r_start k)"
      using Cons.prems before can by (intro Cons.IH [OF k(1)]) (auto simp: canonical_Cons)
    with k show ?thesis by auto
  next
    case after
    then obtain kept' where k: "retain_merge rs st en = (kept', st', en')" "kept = r # kept'"
      using Cons.prems(1) by (auto split: prod.splits)
    have far: "\<forall>s \<in> set rs. en < r_start s"
      using after can by (auto simp: canonical_Cons)
    have "retain_merge rs st en = (rs, st, en)"
      using far by (induction rs) (auto split: prod.splits)
    with k after Cons.prems far show ?thesis by auto
  next
    case merge
    then have m: "retain_merge rs (min st (r_start r)) (max en (r_end r)) = (kept, st', en')"
      using Cons.prems(1) by simp
    show ?thesis
      using Cons.prems merge can
      by (intro Cons.IH [OF m]) (auto simp: canonical_Cons min_less_iff_disj less_max_iff_disj)
  qed
qed

lemma retain_merge_canonical:
  "retain_merge rs st en = (kept, st', en') \<Longrightarrow> canonical rs \<Longrightarrow> canonical kept"
proof (induction rs arbitrary: st en kept)
  case (Cons r rs)
  then show ?case
    by (fastforce simp: canonical_Cons split: if_splits prod.splits dest: retain_merge_bounds)
qed simp

lemma takeWhile_dropWhile_split:
  "insert_at (length (takeWhile P xs)) x xs = takeWhile P xs @ x # dropWhile P xs"
proof -
  have "xs = takeWhile P xs @ dropWhile P xs" by simp
  then have "take (length (takeWhile P xs)) xs = takeWhile P xs"
    and "drop (length (takeWhile P xs)) xs = dropWhile P xs"
    by (metis append_eq_conv_conj)+
  then show ?thesis by (simp add: insert_at_def)
qed

lemma canonical_dropWhile_starts:
  "canonical rs \<Longrightarrow> r \<in> set (dropWhile (\<lambda>r. r_start r < st) rs) \<Longrightarrow> st \<le> r_start r"
proof (induction rs)
  case (Cons a rs)
  show ?case
  proof (cases "r_start a < st")
    case True
    with Cons show ?thesis by (simp add: canonical_Cons)
  next
    case False
    with Cons.prems show ?thesis
      by (auto simp: canonical_Cons dest!: canonicalD)
  qed
qed simp

lemma insert_at_canonical:
  assumes "canonical kept" and "st < en"
    and clear: "\<forall>k \<in> set kept. r_end k < st \<or> en < r_start k"
  shows "canonical (insert_at (insertion_point kept st) (Range st en) kept)"
proof -
  let ?P = "\<lambda>r. r_start r < st"
  let ?l = "takeWhile ?P kept" and ?r = "dropWhile ?P kept"
  have "canonical (?l @ ?r)" using assms(1) by simp
  then have lr: "canonical ?l" "canonical ?r"
    "\<forall>l \<in> set ?l. \<forall>r \<in> set ?r. r_end l < r_start r"
    by (auto simp only: canonical_append)
  have "\<forall>l \<in> set ?l. r_end l < st"
    using clear assms(2) by (auto dest!: set_takeWhileD)
  moreover have "\<forall>r \<in> set ?r. en < r_start r"
  proof
    fix r assume r: "r \<in> set ?r"
    then have "st \<le> r_start r" "r_start r < r_end r"
      using canonical_dropWhile_starts [OF assms(1)] canonicalD [OF lr(2)] by auto
    moreover have "r \<in> set kept" using r set_dropWhileD by fast
    ultimately show "en < r_start r" using clear by (auto dest: less_trans le_less_trans)
  qed
  ultimately show ?thesis
    unfolding insertion_point_def takeWhile_dropWhile_split
    using lr assms(2) by (auto simp: canonical_append canonical_Cons)
qed

lemma covers_insert_at: "covers (insert_at p r rs) = {x. in_range r x} \<union> covers rs"
proof -
  have "covers rs = covers (take p rs) \<union> covers (drop p rs)"
    by (metis append_take_drop_id covers_append)
  then show ?thesis by (auto simp: insert_at_def covers_Cons)
qed

lemma rs_wf_new [simp]: "rs_wf rs_new"
  by (simp add: rs_wf_def rs_new_def)

lemma offsets_new [simp]: "offsets rs_new = {}"
  by (simp add: rs_new_def)

lemma rs_wf_insert: "rs_wf s \<Longrightarrow> rs_wf (insert_range s r)"
proof -
  assume wf: "rs_wf s"
  obtain kept st en where m: "retain_merge (rs_ranges s) (r_start r) (r_end r) = (kept, st, en)"
    by (metis prod_cases3)
  show ?thesis
  proof (cases "range_is_empty r")
    case False
    then have lt: "r_start r < r_end r" by (simp add: range_is_empty_def)
    have "st < en" using retain_merge_bounds [OF m] lt by auto
    moreover have "\<forall>k \<in> set kept. r_end k < st \<or> en < r_start k"
      using retain_merge_clear [OF m _ lt, of "[]"] wf by (simp add: rs_wf_def)
    ultimately show ?thesis
      using wf False m retain_merge_canonical [OF m]
      by (simp add: rs_wf_def insert_range_def insert_at_canonical)
  qed (use wf in \<open>simp add: insert_range_def\<close>)
qed

lemma offsets_insert:
  assumes "rs_wf s"
  shows "offsets (insert_range s r) = offsets s \<union> {x. in_range r x}"
proof -
  obtain kept st en where m: "retain_merge (rs_ranges s) (r_start r) (r_end r) = (kept, st, en)"
    by (metis prod_cases3)
  show ?thesis
  proof (cases "range_is_empty r")
    case True
    then show ?thesis by (auto simp: insert_range_def range_is_empty_def in_range_def)
  next
    case False
    then have lt: "r_start r < r_end r" by (simp add: range_is_empty_def)
    have "covers kept \<union> {st..<en} = offsets s \<union> {r_start r..<r_end r}"
      using assms lt by (intro retain_merge_covers [OF m]) (auto simp: rs_wf_def canonical_def)
    moreover have "{x. in_range r x} = {r_start r..<r_end r}"
      "{x. in_range (Range st en) x} = {st..<en}"
      by (auto simp: in_range_def)
    ultimately show ?thesis
      using False m by (simp add: insert_range_def covers_insert_at Un_commute)
  qed
qed

section \<open>Missing ranges\<close>

text \<open>
  What one pass of the loop leaves: the gaps and the tail from the final cursor are exactly
  the uncovered part of the window, and the gaps are canonical and lie before the cursor.
\<close>

definition gap_post :: "range list \<Rightarrow> u64 \<Rightarrow> u64 \<Rightarrow> range list \<Rightarrow> u64 \<Rightarrow> bool" where
  "gap_post ps cur en gaps cur' \<longleftrightarrow>
     covers gaps \<union> {cur'..<en} = {cur..<en} - covers ps \<and> canonical gaps \<and> cur \<le> cur' \<and>
     (\<forall>g \<in> set gaps. cur \<le> r_start g \<and> r_end g \<le> en \<and> r_end g < cur')"

definition gap_before :: "range \<Rightarrow> u64 \<Rightarrow> u64 \<Rightarrow> range list" where
  "gap_before p cur en = (if r_start p > cur then [Range cur (min (r_start p) en)] else [])"

lemma gap_before_facts:
  assumes "r_start p < en" and "cur < en"
  shows "covers (gap_before p cur en) = {cur..<r_start p}"
    and "canonical (gap_before p cur en)"
    and "g \<in> set (gap_before p cur en) \<Longrightarrow> cur \<le> r_start g \<and> r_end g \<le> en \<and> r_end g \<le> r_start p"
  using assms by (auto simp: gap_before_def canonical_Cons min_def)

lemma beyond_notin_covers:
  "canonical (p # ps) \<Longrightarrow> x \<le> r_end p \<Longrightarrow> x \<notin> covers ps"
  by (force simp: covers_def in_range_def canonical_Cons)

lemma gap_post_past:
  assumes "canonical (p # ps)" and "en \<le> r_start p"
  shows "gap_post (p # ps) cur en [] cur"
proof -
  have "en \<le> r_start q" if "q \<in> set (p # ps)" for q
    using that assms by (auto simp: canonical_Cons dest: less_trans)
  then have "{cur..<en} \<inter> covers (p # ps) = {}" by (force simp: covers_def in_range_def)
  then show ?thesis by (auto simp: gap_post_def)
qed

lemma gap_post_last:
  assumes can: "canonical (p # ps)" and "cur < r_end p" "r_start p < en" "en \<le> r_end p" "cur < en"
  shows "gap_post (p # ps) cur en (gap_before p cur en) (r_end p)"
proof -
  have low: "x \<notin> covers ps" if "x < en" for x
    using beyond_notin_covers [OF can] that assms(4) by auto
  note gb = gap_before_facts [OF assms(3,5)]
  have "covers (gap_before p cur en) \<union> {r_end p..<en} = {cur..<en} - covers (p # ps)"
    using low assms by (auto simp: gb(1) covers_Cons in_range_def)
  moreover have "r_start p < r_end p" using can by (simp add: canonical_Cons)
  ultimately show ?thesis using gb(2,3) assms(2) unfolding gap_post_def by fastforce
qed

lemma gap_post_step:
  assumes can: "canonical (p # ps)" and "cur < r_end p" "r_start p < en" "cur < en" "r_end p < en"
    and ih: "gap_post ps (r_end p) en gaps cur'"
  shows "gap_post (p # ps) cur en (gap_before p cur en @ gaps) cur'"
proof -
  note gb = gap_before_facts [OF assms(3,4)] and low = beyond_notin_covers [OF can]
  have p: "r_start p < r_end p" using can by (simp add: canonical_Cons)
  have "covers (gap_before p cur en @ gaps) \<union> {cur'..<en}
      = {cur..<r_start p} \<union> ({r_end p..<en} - covers ps)"
    using ih by (simp add: gb(1) gap_post_def Un_assoc)
  also have "\<dots> = {cur..<en} - covers (p # ps)"
    using low p assms by (auto simp: covers_Cons in_range_def not_le)
  finally have cov: "covers (gap_before p cur en @ gaps) \<union> {cur'..<en}
      = {cur..<en} - covers (p # ps)" .
  have sep: "r_end g < r_start h" if "g \<in> set (gap_before p cur en)" "h \<in> set gaps" for g h
    using gb(3) [OF that(1)] that(2) ih p unfolding gap_post_def by fastforce
  have "canonical (gap_before p cur en @ gaps)"
    using gb(2) ih sep by (simp add: canonical_append gap_post_def)
  moreover have "cur \<le> cur'" and "\<forall>g \<in> set (gap_before p cur en @ gaps).
      cur \<le> r_start g \<and> r_end g \<le> en \<and> r_end g < cur'"
    using gb(3) ih p assms(2) unfolding gap_post_def by fastforce+
  ultimately show ?thesis using cov by (simp add: gap_post_def)
qed

lemma missing_loop_correct:
  "canonical ps \<Longrightarrow> cur < en \<Longrightarrow> missing_loop ps cur en = (gaps, cur') \<Longrightarrow>
   gap_post ps cur en gaps cur'"
proof (induction ps cur en arbitrary: gaps cur' rule: missing_loop.induct)
  case (1 cur en)
  then show ?case by (simp add: gap_post_def)
next
  case (2 p ps cur en)
  consider (behind) "r_end p \<le> cur" | (past) "\<not> r_end p \<le> cur" "r_start p \<ge> en"
    | (last) "\<not> r_end p \<le> cur" "\<not> r_start p \<ge> en" "r_end p \<ge> en"
    | (step) "\<not> r_end p \<le> cur" "\<not> r_start p \<ge> en" "\<not> r_end p \<ge> en" by blast
  then show ?case
  proof cases
    case behind
    then have "{cur..<en} - covers (p # ps) = {cur..<en} - covers ps"
      by (auto simp: covers_Cons in_range_def)
    moreover have "gap_post ps cur en gaps cur'"
      using behind "2.prems" by (intro "2.IH"(1)) (auto simp: canonical_Cons)
    ultimately show ?thesis by (simp add: gap_post_def)
  next
    case past
    then show ?thesis using "2.prems" gap_post_past by simp
  next
    case last
    then show ?thesis
      using "2.prems" gap_post_last [of p ps cur en] by (auto simp: Let_def gap_before_def)
  next
    case step
    then obtain gaps' where m: "missing_loop ps (r_end p) en = (gaps', cur')"
      and g: "gaps = gap_before p cur en @ gaps'"
      using "2.prems"(3) by (auto simp: Let_def gap_before_def split: prod.splits)
    have "gap_post ps (r_end p) en gaps' cur'"
      using step "2.prems" m by (intro "2.IH"(2)) (auto simp: canonical_Cons)
    then show ?thesis using gap_post_step [OF "2.prems"(1)] step "2.prems"(2) g by simp
  qed
qed

definition window :: "u64 \<Rightarrow> u64 \<Rightarrow> u64 \<Rightarrow> u64 set" where
  "window off sz lim = {off..<min (saturating_add off sz) lim}"

lemma missing_correct:
  assumes "rs_wf s"
  shows "covers (missing s off sz lim) = window off sz lim - offsets s"
    and "canonical (missing s off sz lim)"
proof -
  let ?en = "min (saturating_add off sz) lim"
  obtain gaps cur where m: "missing_loop (rs_ranges s) off ?en = (gaps, cur)" by fastforce
  have "covers (missing s off sz lim) = window off sz lim - offsets s \<and>
      canonical (missing s off sz lim)"
  proof (cases "off \<ge> ?en")
    case True
    then show ?thesis by (auto simp: missing_def window_def)
  next
    case False
    then have lt: "off < ?en" by (simp only: not_le)
    have can: "canonical (rs_ranges s)" using assms by (simp add: rs_wf_def)
    note c = missing_loop_correct [OF can lt m, unfolded gap_post_def]
    have eq: "missing s off sz lim = gaps @ (if cur < ?en then [Range cur ?en] else [])"
      using False m by (simp add: missing_def)
    have "covers (missing s off sz lim) = covers gaps \<union> {cur..<?en}"
      by (auto simp: eq)
    with c have "covers (missing s off sz lim) = window off sz lim - offsets s"
      by (simp add: window_def)
    moreover have "canonical (missing s off sz lim)"
      unfolding eq using c by (auto simp: canonical_append canonical_Cons)
    ultimately show ?thesis by blast
  qed
  then show "covers (missing s off sz lim) = window off sz lim - offsets s"
    and "canonical (missing s off sz lim)" by blast+
qed

section \<open>The interface the caches rely on\<close>

text \<open>
  What a byte cache needs of its bookkeeping: insertion adds exactly the inserted offsets,
  and a query returns non-empty ranges that together are exactly the window's gaps. The
  facts a client uses follow from these laws alone.
\<close>

locale offset_tracker =
  fixes empty :: 's
    and insert :: "'s \<Rightarrow> range \<Rightarrow> 's"
    and gaps :: "'s \<Rightarrow> u64 \<Rightarrow> u64 \<Rightarrow> u64 \<Rightarrow> range list"
    and held :: "'s \<Rightarrow> u64 set"
    and invar :: "'s \<Rightarrow> bool"
  assumes invar_empty: "invar empty"
    and held_empty: "held empty = {}"
    and invar_insert: "invar s \<Longrightarrow> invar (insert s r)"
    and held_insert: "invar s \<Longrightarrow> held (insert s r) = held s \<union> {x. in_range r x}"
    and covers_gaps: "invar s \<Longrightarrow> covers (gaps s off sz lim) = window off sz lim - held s"
    and gaps_nonempty: "invar s \<Longrightarrow> g \<in> set (gaps s off sz lim) \<Longrightarrow> r_start g < r_end g"
begin

lemma no_gaps_iff: "invar s \<Longrightarrow> gaps s off sz lim = [] \<longleftrightarrow> window off sz lim \<subseteq> held s"
proof
  assume "invar s" and "window off sz lim \<subseteq> held s"
  then have "covers (gaps s off sz lim) = {}" by (simp add: covers_gaps)
  then show "gaps s off sz lim = []"
    using gaps_nonempty [OF \<open>invar s\<close>, of _ off sz lim]
    by (cases "gaps s off sz lim") (auto simp: covers_Cons in_range_def)
qed (use covers_gaps in force)

lemma gap_inside:
  assumes "invar s" and "g \<in> set (gaps s off sz lim)" and "in_range g x"
  shows "x \<in> window off sz lim" and "x \<notin> held s"
  using covers_gaps [OF assms(1), of off sz lim] assms(2,3) by (auto simp: covers_def)

lemma held_fold_insert:
  "invar s \<Longrightarrow> invar (fold (\<lambda>r s. insert s r) rs s) \<and>
     held (fold (\<lambda>r s. insert s r) rs s) = held s \<union> covers rs"
  by (induction rs arbitrary: s) (auto simp: invar_insert held_insert covers_Cons)

lemma filling_gaps_completes:
  assumes "invar s"
  shows "gaps (fold (\<lambda>r s. insert s r) (gaps s off sz lim) s) off sz lim = []"
  using held_fold_insert [OF assms] by (auto simp: no_gaps_iff covers_gaps assms)

end

interpretation tracked: offset_tracker rs_new insert_range missing offsets rs_wf
  by unfold_locales
    (auto simp: rs_wf_insert offsets_insert missing_correct(1) dest: canonicalD [OF missing_correct(2)])

section \<open>Canonicity\<close>

lemma covers_ge_start: "canonical (r # rs) \<Longrightarrow> x \<in> covers (r # rs) \<Longrightarrow> r_start r \<le> x"
  by (fastforce simp: covers_def in_range_def canonical_Cons)

lemma start_in_covers: "canonical (r # rs) \<Longrightarrow> r_start r \<in> covers (r # rs)"
  by (auto simp: covers_Cons in_range_def canonical_Cons)

lemma end_notin_covers: "canonical (r # rs) \<Longrightarrow> r_end r \<notin> covers (r # rs)"
  by (fastforce simp: covers_def in_range_def canonical_Cons)

lemma covers_tail: "canonical (r # rs) \<Longrightarrow> covers rs = covers (r # rs) - {x. in_range r x}"
  by (fastforce simp: covers_def in_range_def canonical_Cons)

lemma canonical_unique:
  "canonical rs \<Longrightarrow> canonical ss \<Longrightarrow> covers rs = covers ss \<Longrightarrow> rs = ss"
proof (induction rs arbitrary: ss)
  case Nil
  then show ?case
    by (cases ss) (auto simp: covers_Cons in_range_def canonical_Cons)
next
  case (Cons r rs)
  then obtain s ss' where ss: "ss = s # ss'"
    using start_in_covers by (cases ss) auto
  note can = Cons.prems(1) Cons.prems(2) [unfolded ss]
  note eq = Cons.prems(3) [unfolded ss]
  have st: "r_start r = r_start s"
    using covers_ge_start start_in_covers can eq by (metis order_antisym)
  have "\<not> r_end r < r_end s"
    using end_notin_covers [OF can(1)] eq st can(1)
    by (auto simp: covers_Cons in_range_def canonical_Cons)
  moreover have "\<not> r_end s < r_end r"
    using end_notin_covers [OF can(2)] eq [symmetric] st can(2)
    by (auto simp: covers_Cons in_range_def canonical_Cons)
  ultimately have rs: "r = s" using st by (simp add: range.expand)
  have "covers rs = covers ss'" using covers_tail can eq rs by metis
  with Cons.IH can have "rs = ss'" by (simp add: canonical_Cons)
  with rs ss show ?case by simp
qed

lemma range_set_unique: "rs_wf s \<Longrightarrow> rs_wf t \<Longrightarrow> offsets s = offsets t \<Longrightarrow> s = t"
  using canonical_unique by (auto simp: rs_wf_def intro: range_set.equality)

section \<open>Properties\<close>

definition insert_all :: "range list \<Rightarrow> range_set" where
  "insert_all rs = fold (\<lambda>r s. insert_range s r) rs rs_new"

lemma insert_all_facts: "rs_wf (insert_all rs) \<and> offsets (insert_all rs) = covers rs"
proof (induction rs rule: rev_induct)
  case Nil
  then show ?case by (simp add: insert_all_def rs_new_def rs_wf_def)
next
  case (snoc r rs)
  have step: "insert_all (rs @ [r]) = insert_range (insert_all rs) r" by (simp add: insert_all_def)
  have "covers (rs @ [r]) = covers rs \<union> {x. in_range r x}" by (auto simp: covers_def)
  with snoc show ?case unfolding step by (simp add: rs_wf_insert offsets_insert)
qed

text \<open>
  C33. The missing ranges of a window are exact: after any inserts, in any order, overlapping
  or empty ones included, what \<open>missing\<close> returns covers the offsets of the clipped window
  that no inserted range holds, no more and no less, as ordered ranges that are non-empty
  and do not touch.
\<close>

theorem missing_is_exactly_the_gap:
  "covers (missing (insert_all rs) off sz lim) = {off..<min (saturating_add off sz) lim} - covers rs \<and>
   canonical (missing (insert_all rs) off sz lim)"
  using missing_correct [of "insert_all rs" off sz lim] insert_all_facts [of rs]
  by (simp add: window_def)

text \<open>
  The representation is canonical: two histories of inserts that cover the same offsets
  leave the identical list of ranges, whatever their order and overlaps.
\<close>

theorem insertion_history_is_irrelevant:
  assumes "covers rs = covers ss"
  shows "insert_all rs = insert_all ss"
  using assms insert_all_facts by (intro range_set_unique) auto

theorem insertion_history_is_irrelevant_witness:
  "insert_all [Range 4 8, Range 0 2, Range 2 4] = insert_all [Range 0 8]"
proof (rule insertion_history_is_irrelevant)
  have "in_range (Range 4 8) x \<or> in_range (Range 0 2) x \<or> in_range (Range 2 4) x \<longleftrightarrow> in_range (Range 0 8) x" for x
    by (auto simp: in_range_def not_le intro: less_le_trans)
  then show "covers [Range 4 8, Range 0 2, Range 2 4] = covers [Range 0 8]"
    by (auto simp: covers_def)
qed

end
