(* ===== verification/Spool_File.thy ===== *)
theory Spool_File
  imports Prelude
begin

text \<open>
  The byte storage under the write buffers and the read caches: \<open>std::fs::File\<close> as the
  code uses it (an unlinked, possibly sparse temp file, always accessed by a \<open>seek\<close>
  followed by \<open>write_all\<close> or \<open>read_exact\<close>), and \<open>Cursor<Vec<u8>>\<close>, the in-memory
  storage of the fuzz targets. Both provide the contract of Rust's
  \<open>Read + Write + Seek\<close> bound, stated as the locale \<open>byte_storage\<close> over the
  content as a list of bytes.

  What the operating system does with a call is an argument (\<open>io_outcome\<close>): a write may
  fail after a prefix of its bytes landed, a read may fail.
\<close>

section \<open>A sparse file\<close>

record sfile =
  sf_byte :: "nat \<Rightarrow> byte"
  sf_len :: nat

definition sf_new :: sfile where
  "sf_new = \<lparr>sf_byte = (\<lambda>_. 0), sf_len = 0\<rparr>"

text \<open>\<open>File::set_len\<close>: the file is extended by zeros or cut.\<close>

definition sf_set_len :: "nat \<Rightarrow> sfile \<Rightarrow> sfile" where
  "sf_set_len n f =
     \<lparr>sf_byte = (\<lambda>i. if i < n \<and> i < sf_len f then sf_byte f i else 0), sf_len = n\<rparr>"

text \<open>
  A seek past the end followed by a write leaves a hole that reads as zeros. A failing
  write leaves the prefix that landed.
\<close>

definition sf_put :: "sfile \<Rightarrow> nat \<Rightarrow> byte list \<Rightarrow> sfile" where
  "sf_put f off bs =
     (if bs = [] then f
      else \<lparr>sf_byte = (\<lambda>i. if off \<le> i \<and> i < off + length bs then bs ! (i - off) else sf_byte f i),
            sf_len = max (sf_len f) (off + length bs)\<rparr>)"

fun sf_write :: "io_outcome \<Rightarrow> sfile \<Rightarrow> nat \<Rightarrow> byte list \<Rightarrow> (io_error + unit) \<times> sfile" where
  "sf_write IoOk f off bs = (Inr (), sf_put f off bs)"
| "sf_write (IoFail k e) f off bs = (Inl e, sf_put f off (take k bs))"

definition eof_error :: io_error where
  "eof_error = IoError UnexpectedEof ''failed to fill whole buffer''"

fun sf_read :: "io_outcome \<Rightarrow> sfile \<Rightarrow> nat \<Rightarrow> nat \<Rightarrow> io_error + byte list" where
  "sf_read IoOk f off n =
     (if off + n \<le> sf_len f \<or> n = 0 then Inr (map (sf_byte f) [off..<off + n]) else Inl eof_error)"
| "sf_read (IoFail k e) f off n = Inl e"

text \<open>Bytes past the end are zero, so an extension never uncovers old data.\<close>

definition sf_wf :: "sfile \<Rightarrow> bool" where
  "sf_wf f \<longleftrightarrow> (\<forall>i \<ge> sf_len f. sf_byte f i = 0)"

definition sf_content :: "sfile \<Rightarrow> byte list" where
  "sf_content f = map (sf_byte f) [0..<sf_len f]"

section \<open>An in-memory cursor\<close>

text \<open>\<open>Cursor<Vec<u8>>\<close>: writes extend the vector with zeros, and never fail.\<close>

definition cur_write :: "io_outcome \<Rightarrow> byte list \<Rightarrow> nat \<Rightarrow> byte list \<Rightarrow> (io_error + unit) \<times> byte list" where
  "cur_write out v off bs =
     (Inr (),
      if bs = [] then v
      else take off (v @ replicate (off - length v) 0) @ bs @ drop (off + length bs) v)"

definition cur_read :: "io_outcome \<Rightarrow> byte list \<Rightarrow> nat \<Rightarrow> nat \<Rightarrow> io_error + byte list" where
  "cur_read out v off n =
     (if off + n \<le> length v \<or> n = 0 then Inr (take n (drop off v)) else Inl eof_error)"

section \<open>The storage contract\<close>

text \<open>
  The laws a client of \<open>Read + Write + Seek\<close> uses: a write that succeeds is a
  \<open>pwrite\<close> of all its bytes, one that fails a \<open>pwrite\<close> of a prefix, and a read inside
  the content returns exactly that slice when the system does not fail it.
\<close>

locale byte_storage =
  fixes wr :: "io_outcome \<Rightarrow> 'f \<Rightarrow> nat \<Rightarrow> byte list \<Rightarrow> (io_error + unit) \<times> 'f"
    and rd :: "io_outcome \<Rightarrow> 'f \<Rightarrow> nat \<Rightarrow> nat \<Rightarrow> io_error + byte list"
    and content :: "'f \<Rightarrow> byte list"
    and valid :: "'f \<Rightarrow> bool"
  assumes wr_valid: "valid f \<Longrightarrow> wr out f off bs = (r, f') \<Longrightarrow> valid f'"
    and wr_ok: "valid f \<Longrightarrow> wr out f off bs = (Inr u, f') \<Longrightarrow> content f' = pwrite (content f) off bs"
    and wr_err: "valid f \<Longrightarrow> wr out f off bs = (Inl e, f') \<Longrightarrow>
      \<exists>k. content f' = pwrite (content f) off (take k bs)"
    and wr_IoOk: "\<exists>f'. wr IoOk f off bs = (Inr (), f')"
    and rd_ok: "valid f \<Longrightarrow> rd out f off n = Inr bs \<Longrightarrow> bs = pread (content f) off n"
    and rd_IoOk: "valid f \<Longrightarrow> off + n \<le> length (content f) \<Longrightarrow> \<exists>bs. rd IoOk f off n = Inr bs"
begin

lemma rd_after_wr:
  assumes "valid f" and "wr out f off bs = (Inr u, f')" and "rd out' f' off (length bs) = Inr ys"
  shows "ys = bs"
  using rd_ok [OF wr_valid [OF assms(1,2)] assms(3)] wr_ok [OF assms(1,2)]
  by (simp add: pread_pwrite_same)

lemma rd_elsewhere:
  assumes "valid f" and "wr out f off bs = (Inr u, f')" and "rd out' f' o' n = Inr ys"
    and "o' + n \<le> off \<or> off + length bs \<le> o'" and "o' + n \<le> length (content f)"
  shows "ys = pread (content f) o' n"
proof -
  have "ys = pread (pwrite (content f) off bs) o' n"
    using rd_ok [OF wr_valid [OF assms(1,2)] assms(3)] wr_ok [OF assms(1,2)] by simp
  also have "\<dots> = pread (content f) o' n"
    using assms(4,5) by (intro pread_eqI) (auto simp: bytes_simps)
  finally show ?thesis .
qed

lemma wr_grows: "valid f \<Longrightarrow> wr out f off bs = (Inr u, f') \<Longrightarrow> length (content f) \<le> length (content f')"
  by (simp add: wr_ok bytes_simps)

end

section \<open>Both storages provide it\<close>

lemma length_sf_content [bytes_simps, simp]: "length (sf_content f) = sf_len f"
  by (simp add: sf_content_def)

lemma nth_sf_content [bytes_simps]: "i < sf_len f \<Longrightarrow> sf_content f ! i = sf_byte f i"
  by (simp add: sf_content_def)

lemma sf_wf_new [simp]: "sf_wf sf_new"
  by (simp add: sf_wf_def sf_new_def)

lemma sf_content_new [simp]: "sf_content sf_new = []"
  by (simp add: sf_content_def sf_new_def)

lemma sf_wf_set_len [simp]: "sf_wf (sf_set_len n f)"
  by (simp add: sf_wf_def sf_set_len_def)

lemma sf_wf_put: "sf_wf f \<Longrightarrow> sf_wf (sf_put f off bs)"
  by (auto simp: sf_wf_def sf_put_def)

lemma sf_content_put: "sf_wf f \<Longrightarrow> sf_content (sf_put f off bs) = pwrite (sf_content f) off bs"
  by (rule nth_equalityI) (auto simp: sf_wf_def sf_put_def bytes_simps)

lemma sf_len_put: "sf_len (sf_put f off bs) = (if bs = [] then sf_len f else max (sf_len f) (off + length bs))"
  by (simp add: sf_put_def)

interpretation spool: byte_storage sf_write sf_read sf_content sf_wf
proof
  fix f f' :: sfile and out and off n :: nat and bs :: "byte list" and r and u :: unit and e
  assume wf: "sf_wf f"
  { assume "sf_write out f off bs = (r, f')"
    then show "sf_wf f'" using wf by (cases out) (auto simp: sf_wf_put) }
  { assume "sf_write out f off bs = (Inr u, f')"
    then show "sf_content f' = pwrite (sf_content f) off bs"
      using wf by (cases out) (auto simp: sf_content_put) }
  { assume "sf_write out f off bs = (Inl e, f')"
    then show "\<exists>k. sf_content f' = pwrite (sf_content f) off (take k bs)"
      using wf by (cases out) (auto simp: sf_content_put) }
  { assume "sf_read out f off n = Inr bs"
    then show "bs = pread (sf_content f) off n"
      by (cases out) (auto simp: pread_def sf_content_def drop_map take_map split: if_splits) }
  { assume "off + n \<le> length (sf_content f)"
    then show "\<exists>bs. sf_read IoOk f off n = Inr bs" by simp }
qed simp

lemma cur_write_pwrite:
  assumes "cur_write out v off bs = (Inr u, v')"
  shows "v' = pwrite v off bs"
proof (cases "bs = []")
  case False
  define pre where "pre = take off (v @ replicate (off - length v) 0)"
  have len: "length pre = off" by (simp add: pre_def)
  have pre: "pre ! i = (if i < length v then v ! i else 0)" if "i < off" for i
    using that by (auto simp: pre_def nth_append)
  have v': "v' = pre @ bs @ drop (off + length bs) v"
    using assms False by (simp add: cur_write_def pre_def)
  show ?thesis
  proof (rule nth_equalityI)
    show lens: "length v' = length (pwrite v off bs)"
      using False by (simp add: v' len bytes_simps)
    show "v' ! i = pwrite v off bs ! i" if "i < length v'" for i
    proof -
      have "i < length (pwrite v off bs)" using that lens by simp
      note nth_pwrite [OF this]
      moreover have "i < off + length bs \<or> i < length v"
        using that by (auto simp: v' len)
      ultimately show ?thesis
        unfolding v' nth_append len using pre by (cases "i < off") auto
    qed
  qed
qed (use assms in \<open>simp add: cur_write_def\<close>)

interpretation cursor: byte_storage cur_write cur_read "\<lambda>v. v" "\<lambda>_. True"
proof
  show "\<exists>f'. cur_write IoOk f off bs = (Inr (), f')" for f off bs
    by (simp add: cur_write_def)
  show "cur_write out f off bs = (Inl e, f') \<Longrightarrow> \<exists>k. f' = pwrite f off (take k bs)"
    for out f off bs e f' by (simp add: cur_write_def)
qed (auto simp: cur_write_pwrite cur_read_def pread_def split: if_splits)

section \<open>Streaming a file\<close>

text \<open>
  \<open>file_stream\<close> of \<open>fs.rs\<close>: the file in pieces of at most \<open>UPLOAD_CHUNK\<close> bytes from
  the cursor on, each read when the consumer asks; a read of zero bytes ends the stream, and
  so does the first error. \<open>reads i\<close> is what the \<open>i\<close>-th \<open>read\<close> call does: it fills at
  most the given number of bytes of the buffer (a short read is legal), or fails.
\<close>

definition UPLOAD_CHUNK :: nat where
  "UPLOAD_CHUNK = 65536"

datatype read_outcome = ReadUpTo nat | ReadErr io_error

function file_stream :: "(nat \<Rightarrow> read_outcome) \<Rightarrow> nat \<Rightarrow> byte list \<Rightarrow> (io_error + byte list) list" where
  "file_stream reads i rest =
     (case reads i of
        ReadErr e \<Rightarrow> [Inl e]
      | ReadUpTo k \<Rightarrow>
          (let n = min k (min UPLOAD_CHUNK (length rest)) in
           if n = 0 then []
           else Inr (take n rest) # file_stream reads (Suc i) (drop n rest)))"
  by pat_completeness auto
termination
  by (relation "measure (\<lambda>(reads, i, rest). length rest)") auto

declare file_stream.simps [simp del]

text \<open>\<open>bytes_stream\<close>: one chunk, also for an empty vector.\<close>

definition bytes_stream :: "byte list \<Rightarrow> (io_error + byte list) list" where
  "bytes_stream bs = [Inr bs]"

fun stream_bytes :: "(io_error + byte list) list \<Rightarrow> io_error + byte list" where
  "stream_bytes [] = Inr []"
| "stream_bytes (Inl e # _) = Inl e"
| "stream_bytes (Inr bs # rest) =
     (case stream_bytes rest of Inl e \<Rightarrow> Inl e | Inr cs \<Rightarrow> Inr (bs @ cs))"

lemma file_stream_complete:
  assumes "\<And>j. \<exists>k. reads j = ReadUpTo (Suc k)"
  shows "stream_bytes (file_stream reads i rest) = Inr rest"
proof (induction "length rest" arbitrary: i rest rule: less_induct)
  case less
  obtain k where k: "reads i = ReadUpTo (Suc k)" using assms by blast
  let ?n = "min (Suc k) (min UPLOAD_CHUNK (length rest))"
  have "rest \<noteq> [] \<Longrightarrow> stream_bytes (file_stream reads (Suc i) (drop ?n rest)) = Inr (drop ?n rest)"
    by (rule less) (simp add: UPLOAD_CHUNK_def)
  moreover have "?n = 0 \<longleftrightarrow> rest = []"
    by (cases rest) (auto simp: UPLOAD_CHUNK_def)
  ultimately show ?case
    by (subst file_stream.simps) (auto simp: k Let_def)
qed

lemma file_stream_chunks:
  "Inr c \<in> set (file_stream reads i rest) \<Longrightarrow> c \<noteq> [] \<and> length c \<le> UPLOAD_CHUNK"
proof (induction "length rest" arbitrary: i rest rule: less_induct)
  case less
  show ?case
  proof (cases "reads i")
    case (ReadUpTo k)
    let ?n = "min k (min UPLOAD_CHUNK (length rest))"
    have "?n \<noteq> 0" and "c = take ?n rest \<or> Inr c \<in> set (file_stream reads (Suc i) (drop ?n rest))"
      using less.prems ReadUpTo by (subst (asm) file_stream.simps, auto simp: Let_def split: if_splits)+
    moreover from this(1) have "length (drop ?n rest) < length rest" by simp
    ultimately show ?thesis
      using less.hyps [of "drop ?n rest" "Suc i"] by (auto simp: min_def split: if_splits)
  qed (use less.prems in \<open>subst (asm) file_stream.simps, simp\<close>)
qed

lemma file_stream_error_last:
  assumes "file_stream reads i rest = pre @ Inl e # post"
  shows "post = [] \<and> (\<forall>x \<in> set pre. \<exists>c. x = Inr c)"
  using assms
proof (induction "length rest" arbitrary: i rest pre rule: less_induct)
  case less
  show ?case
  proof (cases "reads i")
    case (ReadErr e')
    with less.prems show ?thesis by (subst (asm) file_stream.simps) (auto simp: Cons_eq_append_conv)
  next
    case (ReadUpTo k)
    let ?n = "min k (min UPLOAD_CHUNK (length rest))"
    obtain c pre' where "pre = Inr c # pre'" "?n \<noteq> 0"
      "file_stream reads (Suc i) (drop ?n rest) = pre' @ Inl e # post"
      using less.prems ReadUpTo
      by (subst (asm) file_stream.simps) (auto simp: Let_def Cons_eq_append_conv split: if_splits)
    with less.hyps [of "drop ?n rest" "Suc i" pre'] show ?thesis by auto
  qed
qed

section \<open>Properties\<close>

text \<open>
  C34. An upload sends the whole file: however short the reads are, as long as none fails and
  each returns at least a byte while bytes are left, the stream's chunks concatenate to
  exactly the file's content; no chunk is empty or longer than \<open>UPLOAD_CHUNK\<close>; and if an
  error appears it is the last item.
\<close>

theorem upload_streams_whole_file:
  assumes "\<And>j. \<exists>k. reads j = ReadUpTo (Suc k)"
  shows "stream_bytes (file_stream reads i content) = Inr content \<and>
    (Inr c \<in> set (file_stream reads i content) \<longrightarrow> c \<noteq> [] \<and> length c \<le> UPLOAD_CHUNK)"
  using file_stream_complete [of reads, OF assms] file_stream_chunks [of c reads i content] by simp

theorem upload_streams_whole_file_witness:
  "stream_bytes (file_stream (\<lambda>_. ReadUpTo 2) 0 [1, 2, 3]) = Inr [1, 2, 3]"
proof -
  have "\<exists>k. (\<lambda>_. ReadUpTo 2) j = ReadUpTo (Suc k)" for j :: nat
    by (rule exI [of _ 1]) simp
  from upload_streams_whole_file [of "\<lambda>_. ReadUpTo 2", OF this] show ?thesis by blast
qed

text \<open>
  A read that fails is never mistaken for the end of the file: the error reaches the
  consumer as the last item of the stream, and no data follows it.
\<close>

theorem upload_error_ends_stream:
  "case stream_bytes (file_stream reads i content) of
     Inr bs \<Rightarrow> \<exists>rest. content = bs @ rest
   | Inl e \<Rightarrow> \<exists>pre. file_stream reads i content = map Inr pre @ [Inl e] \<and> (\<exists>rest. content = concat pre @ rest)"
proof (induction "length content" arbitrary: i content rule: less_induct)
  case less
  show ?case
  proof (cases "reads i")
    case (ReadErr e)
    then show ?thesis by (simp add: file_stream.simps [of reads i content] exI [of _ "[]"])
  next
    case (ReadUpTo k)
    define n where "n = min k (min UPLOAD_CHUNK (length content))"
    show ?thesis
    proof (cases "n = 0")
      case True
      then show ?thesis using ReadUpTo by (simp add: file_stream.simps [of reads i content] n_def)
    next
      case False
      let ?rest = "drop n content"
      have fs: "file_stream reads i content = Inr (take n content) # file_stream reads (Suc i) ?rest"
        using ReadUpTo False by (simp add: file_stream.simps [of reads i content] n_def [symmetric] Let_def)
      have "length ?rest < length content" using False by (simp add: n_def)
      note IH = less [OF this, of "Suc i"]
      show ?thesis
      proof (cases "stream_bytes (file_stream reads (Suc i) ?rest)")
        case (Inl e)
        with IH obtain pre rest where "file_stream reads (Suc i) ?rest = map Inr pre @ [Inl e]"
            "?rest = concat pre @ rest" by auto
        then have "file_stream reads i content = map Inr (take n content # pre) @ [Inl e] \<and>
            content = concat (take n content # pre) @ rest"
          using append_take_drop_id [of n content] by (simp add: fs)
        moreover have "stream_bytes (file_stream reads i content) = Inl e" using Inl by (simp add: fs)
        ultimately show ?thesis by (simp only: sum.case) blast
      next
        case (Inr bs)
        with IH obtain rest where "?rest = bs @ rest" by auto
        then have "content = (take n content @ bs) @ rest"
          using append_take_drop_id [of n content] by simp
        then show ?thesis using Inr by (auto simp: fs)
      qed
    qed
  qed
qed

end
