(* ===== verification/Sparse_Cache.thy ===== *)
theory Sparse_Cache
  imports Ranges Spool_File
begin

text \<open>
  \<open>src/src/sparse_cache.rs\<close>: the tempfile-backed cache of the bytes read so far
  (\<open>SparseCache\<close>), the cache shared between readers and the whole-object filler
  (\<open>SharedSparseCache\<close>) and the filler itself (\<open>fill_from_stream\<close>).

  A method that locks the shared state is one atomic step on \<open>shared_cache\<close>; the condition
  variable is the list of states a waiter finds each time it holds the lock. What the disk
  does with a write or read is the \<open>io_outcome\<close> argument.
\<close>

section \<open>The sparse cache\<close>

record sparse_cache =
  sc_file :: sfile
  sc_ranges :: range_set
  sc_total :: u64

definition sc_new :: "io_outcome \<Rightarrow> io_outcome \<Rightarrow> u64 \<Rightarrow> io_error + sparse_cache" where
  "sc_new tempfile setlen tot =
     (case tempfile of
        IoFail _ e \<Rightarrow> Inl e
      | IoOk \<Rightarrow>
          (case setlen of
             IoFail _ e \<Rightarrow> Inl e
           | IoOk \<Rightarrow>
               Inr \<lparr>sc_file = sf_set_len (unat tot) sf_new, sc_ranges = rs_new, sc_total = tot\<rparr>))"

definition sc_missing_ranges :: "sparse_cache \<Rightarrow> u64 \<Rightarrow> u64 \<Rightarrow> range list" where
  "sc_missing_ranges c off sz = missing (sc_ranges c) off sz (sc_total c)"

definition sc_write_at ::
  "io_outcome \<Rightarrow> sparse_cache \<Rightarrow> u64 \<Rightarrow> byte list \<Rightarrow> (io_error + unit) \<times> sparse_cache" where
  "sc_write_at out c off bs =
     (if bs = [] then (Inr (), c)
      else case checked_add off (length bs) of
        None \<Rightarrow> (Inl (IoError InvalidData ''cache range overflow''), c)
      | Some en \<Rightarrow>
          (if en > sc_total c
           then (Inl (IoError InvalidData
                   (''cache write ['' @ show_u64 off @ '', '' @ show_u64 en @
                    '') exceeds the object size '' @ show_u64 (sc_total c))), c)
           else (case sf_write out (sc_file c) (unat off) bs of
                   (Inl e, f) \<Rightarrow> (Inl e, c\<lparr>sc_file := f\<rparr>)
                 | (Inr _, f) \<Rightarrow>
                     (Inr (), c\<lparr>sc_file := f, sc_ranges := insert_range (sc_ranges c) (Range off en)\<rparr>))))"

definition sc_read_at :: "io_outcome \<Rightarrow> sparse_cache \<Rightarrow> u64 \<Rightarrow> u64 \<Rightarrow> io_error + byte list" where
  "sc_read_at out c off sz =
     (if off \<ge> sc_total c then Inr []
      else sf_read out (sc_file c) (unat off) (unat (min sz (sc_total c - off))))"

section \<open>The shared cache\<close>

record fill_failure =
  ff_message :: string
  ff_link_lost :: bool

datatype fill_state = FIdle | FRunning | FComplete | FFailed fill_failure

record shared_cache =
  sh_cache :: sparse_cache
  sh_fill :: fill_state
  sh_stop :: bool

definition fill_failure_new :: "string \<Rightarrow> bool \<Rightarrow> fill_failure" where
  "fill_failure_new m l = \<lparr>ff_message = m, ff_link_lost = l\<rparr>"

definition sh_new :: "io_outcome \<Rightarrow> io_outcome \<Rightarrow> u64 \<Rightarrow> io_error + shared_cache" where
  "sh_new tempfile setlen tot =
     (case sc_new tempfile setlen tot of
        Inl e \<Rightarrow> Inl e
      | Inr c \<Rightarrow> Inr \<lparr>sh_cache = c, sh_fill = FIdle, sh_stop = False\<rparr>)"

definition total_size :: "shared_cache \<Rightarrow> u64" where
  "total_size s = sc_total (sh_cache s)"

definition start_fill :: "shared_cache \<Rightarrow> bool \<times> shared_cache" where
  "start_fill s = (if sh_fill s \<noteq> FIdle then (False, s) else (True, s\<lparr>sh_fill := FRunning\<rparr>))"

definition is_filling :: "shared_cache \<Rightarrow> bool" where
  "is_filling s \<longleftrightarrow> sh_fill s = FRunning"

definition request_stop :: "shared_cache \<Rightarrow> shared_cache" where
  "request_stop s = s\<lparr>sh_stop := True\<rparr>"

definition stop_requested :: "shared_cache \<Rightarrow> bool" where
  "stop_requested s = sh_stop s"

definition reset_after_link_loss :: "shared_cache \<Rightarrow> bool \<times> shared_cache" where
  "reset_after_link_loss s =
     (case sh_fill s of
        FFailed failure \<Rightarrow> (if ff_link_lost failure then (True, s\<lparr>sh_fill := FIdle\<rparr>) else (False, s))
      | _ \<Rightarrow> (False, s))"

definition sh_write_at ::
  "io_outcome \<Rightarrow> shared_cache \<Rightarrow> u64 \<Rightarrow> byte list \<Rightarrow> (io_error + unit) \<times> shared_cache" where
  "sh_write_at out s off bs =
     (case sc_write_at out (sh_cache s) off bs of (r, c) \<Rightarrow> (r, s\<lparr>sh_cache := c\<rparr>))"

definition write_sequential ::
  "io_outcome \<Rightarrow> shared_cache \<Rightarrow> u64 \<Rightarrow> byte list \<Rightarrow> (io_error + unit) \<times> shared_cache" where
  "write_sequential out s off bs =
     (if sh_fill s \<noteq> FRunning then (Inl (IoError OtherIo ''sequential fill is not running''), s)
      else sh_write_at out s off bs)"

definition sh_finish :: "shared_cache \<Rightarrow> u64 \<Rightarrow> shared_cache" where
  "sh_finish s received =
     (let expected = total_size s in
      s\<lparr>sh_fill :=
          (if received = expected then FComplete
           else FFailed (fill_failure_new
             (''full-object stream ended after '' @ show_u64 received @ '' bytes; expected '' @
              show_u64 expected) False))\<rparr>)"

definition sh_fail :: "shared_cache \<Rightarrow> fill_failure \<Rightarrow> shared_cache" where
  "sh_fail s failure = s\<lparr>sh_fill := FFailed failure\<rparr>"

definition sh_missing_ranges :: "shared_cache \<Rightarrow> u64 \<Rightarrow> u64 \<Rightarrow> range list" where
  "sh_missing_ranges s off sz = sc_missing_ranges (sh_cache s) off sz"

definition sh_read_at :: "io_outcome \<Rightarrow> shared_cache \<Rightarrow> u64 \<Rightarrow> u64 \<Rightarrow> io_error + byte list" where
  "sh_read_at out s off sz = sc_read_at out (sh_cache s) off sz"

text \<open>
  One turn of \<open>wait_and_read\<close>'s loop, with the lock held: the result, or \<open>None\<close> when the
  reader goes (back) to sleep on the condition variable.
\<close>

definition wait_poll ::
  "io_outcome \<Rightarrow> shared_cache \<Rightarrow> u64 \<Rightarrow> u64 \<Rightarrow> (fill_failure + byte list) option" where
  "wait_poll out s off sz =
     (if sc_missing_ranges (sh_cache s) off sz = []
      then (case sc_read_at out (sh_cache s) off sz of
              Inl e \<Rightarrow> Some (Inl (fill_failure_new (io_error_message e) False))
            | Inr bs \<Rightarrow> Some (Inr bs))
      else (case sh_fill s of
              FIdle \<Rightarrow> Some (Inl (fill_failure_new ''sequential fill was not started'' False))
            | FRunning \<Rightarrow> None
            | FComplete \<Rightarrow>
                Some (Inl (fill_failure_new
                  ''full-object stream completed without the requested range'' False))
            | FFailed failure \<Rightarrow> Some (Inl failure)))"

fun wait_and_read ::
  "io_outcome \<Rightarrow> shared_cache list \<Rightarrow> u64 \<Rightarrow> u64 \<Rightarrow> (fill_failure + byte list) option" where
  "wait_and_read out [] off sz = None"
| "wait_and_read out (s # ss) off sz =
     (case wait_poll out s off sz of Some r \<Rightarrow> Some r | None \<Rightarrow> wait_and_read out ss off sz)"

text \<open>The state the reader lets go of when it has its answer.\<close>

fun wait_end :: "io_outcome \<Rightarrow> shared_cache \<Rightarrow> shared_cache list \<Rightarrow> u64 \<Rightarrow> u64 \<Rightarrow> shared_cache" where
  "wait_end out s [] off sz = s"
| "wait_end out s (t # ts) off sz =
     (if wait_poll out s off sz = None then wait_end out t ts off sz else s)"

section \<open>The filler\<close>

datatype fill_outcome = Finished | Stopped

text \<open>
  One turn of the filler's loop against its environment: whether teardown raised
  \<open>request_stop\<close> before the check, what the disk does with this chunk's write, and the
  item the stream yields (a chunk or an error). The end of the script is the stream's
  \<open>None\<close>, with the last stop flag.
\<close>

type_synonym 'e fill_turn = "bool \<times> io_outcome \<times> ('e + byte list)"

text \<open>What a fill leaves: the outcome, the cache, whether it cancelled, and the unpulled turns.\<close>

record 'e fill_result =
  fr_outcome :: fill_outcome
  fr_cache :: shared_cache
  fr_cancelled :: bool
  fr_left :: "'e fill_turn list"

definition stopped_failure :: fill_failure where
  "stopped_failure =
     fill_failure_new ''the whole-object download was stopped because the mount is going away'' False"

definition raise_stop :: "bool \<Rightarrow> shared_cache \<Rightarrow> shared_cache" where
  "raise_stop b s = (if b then request_stop s else s)"

text \<open>Storing one chunk: the clipped write and the failure it may record.\<close>

definition store_chunk ::
  "io_outcome \<Rightarrow> u64 \<Rightarrow> u64 \<Rightarrow> byte list \<Rightarrow> fill_failure option \<Rightarrow> shared_cache \<Rightarrow>
   fill_failure option \<times> shared_cache" where
  "store_chunk out expected off bs wfail s =
     (if wfail \<noteq> None then (wfail, s)
      else
        (let remaining = unat (saturating_sub expected off);
             writable = min (length bs) remaining
         in case write_sequential out s off (take writable bs) of
              (Inl e, s') \<Rightarrow> (Some (fill_failure_new (io_error_message e) False), s')
            | (Inr _, s') \<Rightarrow>
                (if writable \<noteq> length bs
                 then (Some (fill_failure_new
                         (''full-object stream exceeded the advertised size of '' @ show_u64 expected @
                          '' bytes'') False), s')
                 else (None, s'))))"

definition advance :: "u64 \<Rightarrow> nat \<Rightarrow> fill_failure option \<Rightarrow> u64 \<times> fill_failure option" where
  "advance off n wfail =
     (case checked_add off n of
        Some off' \<Rightarrow> (off', wfail)
      | None \<Rightarrow>
          (u64_max,
           case wfail of
             Some f \<Rightarrow> Some f
           | None \<Rightarrow> Some (fill_failure_new ''full-object stream byte count overflowed u64'' False)))"

definition end_fill :: "u64 \<Rightarrow> fill_failure option \<Rightarrow> shared_cache \<Rightarrow> shared_cache" where
  "end_fill off wfail s = (case wfail of Some failure \<Rightarrow> sh_fail s failure | None \<Rightarrow> sh_finish s off)"

fun fill_loop ::
  "('e \<Rightarrow> string) \<Rightarrow> ('e \<Rightarrow> bool) \<Rightarrow> u64 \<Rightarrow> bool \<Rightarrow> 'e fill_turn list \<Rightarrow> u64 \<Rightarrow> fill_failure option \<Rightarrow>
   shared_cache \<Rightarrow> 'e fill_result" where
  "fill_loop msg lost expected stopz [] off wfail s =
     (let s = raise_stop stopz s in
      if stop_requested s
      then \<lparr>fr_outcome = Stopped, fr_cache = sh_fail s stopped_failure, fr_cancelled = True, fr_left = []\<rparr>
      else \<lparr>fr_outcome = Finished, fr_cache = end_fill off wfail s, fr_cancelled = False, fr_left = []\<rparr>)"
| "fill_loop msg lost expected stopz ((stop, out, item) # turns) off wfail s =
     (let s = raise_stop stop s in
      if stop_requested s
      then \<lparr>fr_outcome = Stopped, fr_cache = sh_fail s stopped_failure, fr_cancelled = True,
            fr_left = (stop, out, item) # turns\<rparr>
      else
        (case item of
           Inl e \<Rightarrow>
             \<lparr>fr_outcome = Finished, fr_cache = sh_fail s (fill_failure_new (msg e) (lost e)),
              fr_cancelled = False, fr_left = turns\<rparr>
         | Inr bs \<Rightarrow>
             (let (wfail', s') = store_chunk out expected off bs wfail s;
                  (off', wfail'') = advance off (length bs) wfail'
              in fill_loop msg lost expected stopz turns off' wfail'' s')))"

definition fill_from_stream ::
  "('e \<Rightarrow> string) \<Rightarrow> ('e \<Rightarrow> bool) \<Rightarrow> bool \<Rightarrow> 'e fill_turn list \<Rightarrow> shared_cache \<Rightarrow> 'e fill_result" where
  "fill_from_stream msg lost stopz turns s =
     fill_loop msg lost (total_size s) stopz turns 0 None s"

lemma wait_end_member: "wait_end out s ss off sz \<in> set (s # ss)"
  by (induction ss arbitrary: s) auto

text \<open>Only a running fill is waited for.\<close>

lemma wait_poll_None: "wait_poll out s off sz = None \<Longrightarrow> is_filling s"
  by (auto simp: wait_poll_def is_filling_def split: if_splits fill_state.splits sum.splits)

lemma wait_end_filling: "is_filling (wait_end out s ss off sz) \<Longrightarrow> is_filling s"
  by (cases ss) (auto split: if_splits dest: wait_poll_None)

section \<open>Well-formed and coherent caches\<close>

text \<open>
  A well-formed cache has a file of the object's size and a canonical range set inside it.
  It holds the object \<open>obj\<close> (its bytes by position) when every byte marked as populated is
  the object's byte. \<open>obj_slice\<close> is what a read of the object returns.
\<close>

definition sc_wf :: "sparse_cache \<Rightarrow> bool" where
  "sc_wf c \<longleftrightarrow> sf_wf (sc_file c) \<and> sf_len (sc_file c) = unat (sc_total c) \<and>
     rs_wf (sc_ranges c) \<and> offsets (sc_ranges c) \<subseteq> {..<sc_total c}"

definition sc_holds :: "(nat \<Rightarrow> byte) \<Rightarrow> sparse_cache \<Rightarrow> bool" where
  "sc_holds obj c \<longleftrightarrow> (\<forall>x \<in> offsets (sc_ranges c). sf_byte (sc_file c) (unat x) = obj (unat x))"

definition chunk_of :: "(nat \<Rightarrow> byte) \<Rightarrow> nat \<Rightarrow> byte list \<Rightarrow> bool" where
  "chunk_of obj off bs \<longleftrightarrow> (\<forall>i < length bs. bs ! i = obj (off + i))"

definition obj_slice :: "(nat \<Rightarrow> byte) \<Rightarrow> u64 \<Rightarrow> u64 \<Rightarrow> u64 \<Rightarrow> byte list" where
  "obj_slice obj tot off sz = map obj [unat off..<min (unat off + unat sz) (unat tot)]"

lemma chunk_of_Nil [simp]: "chunk_of obj off []"
  by (simp add: chunk_of_def)

lemma chunk_of_take: "chunk_of obj off bs \<Longrightarrow> chunk_of obj off (take n bs)"
  by (simp add: chunk_of_def)

lemma in_range_unat: "in_range r x \<longleftrightarrow> unat (r_start r) \<le> unat x \<and> unat x < unat (r_end r)"
  by (simp add: in_range_def word_le_unat word_less_unat)

lemma window_unat:
  "x \<in> window off sz lim \<longleftrightarrow>
     unat off \<le> unat x \<and> unat x < unat off + unat sz \<and> unat x < unat lim"
proof -
  have "unat lim \<le> 2 ^ 64 - 1" using unat_u64_less [of lim] by simp
  then show ?thesis
    by (auto simp: window_def word_le_unat word_less_unat unat_min unat_saturating_add)
qed

lemma sf_put_chunk:
  assumes "chunk_of obj off bs"
  shows "off \<le> i \<Longrightarrow> i < off + length bs \<Longrightarrow> sf_byte (sf_put f off bs) i = obj i"
    and "sf_byte f i = obj i \<Longrightarrow> sf_byte (sf_put f off bs) i = obj i"
  using assms by (auto simp: sf_put_def chunk_of_def)

lemma sc_new_wf: "sc_new t l tot = Inr c \<Longrightarrow> sc_wf c \<and> sc_holds obj c \<and> sc_total c = tot"
  by (auto simp: sc_new_def sc_wf_def sc_holds_def sf_set_len_def sf_wf_def split: io_outcome.splits)

text \<open>The outcomes of a write, one rule for all of them.\<close>

lemma sc_write_at_cases:
  assumes "sc_write_at out c off bs = (r, c')"
  obtains (empty) "bs = []" "r = Inr ()" "c' = c"
  | (rejected) e where "bs \<noteq> []" "r = Inl e" "c' = c" "unat (sc_total c) < unat off + length bs"
  | (failed) k e where "bs \<noteq> []" "out = IoFail k e" "r = Inl e"
      "unat off + length bs \<le> unat (sc_total c)"
      "c' = c\<lparr>sc_file := sf_put (sc_file c) (unat off) (take k bs)\<rparr>"
  | (stored) en where "bs \<noteq> []" "out = IoOk" "r = Inr ()" "unat en = unat off + length bs"
      "unat en \<le> unat (sc_total c)"
      "c' = c\<lparr>sc_file := sf_put (sc_file c) (unat off) bs,
              sc_ranges := insert_range (sc_ranges c) (Range off en)\<rparr>"
proof (cases "bs = []")
  case True
  with assms empty show thesis by (simp add: sc_write_at_def)
next
  case False
  show thesis
  proof (cases "checked_add off (length bs)")
    case None
    then have "unat (sc_total c) < unat off + length bs"
      using unat_u64_less [of "sc_total c"] by (simp add: checked_add_None_iff)
    with None assms False rejected show thesis by (auto simp: sc_write_at_def)
  next
    case (Some en)
    note en = checked_add_SomeD [OF Some]
    show thesis
    proof (cases "en > sc_total c")
      case True
      with en have "unat (sc_total c) < unat off + length bs" by (simp add: word_less_unat)
      with Some True assms False rejected show thesis by (auto simp: sc_write_at_def)
    next
      case fits: False
      then have le: "unat en \<le> unat (sc_total c)" by (simp add: word_le_unat not_less)
      show thesis
      proof (cases out)
        case IoOk
        with fits Some assms False le en show thesis
          by (intro stored [of en]) (auto simp: sc_write_at_def)
      next
        case (IoFail k e)
        with fits Some assms False le en show thesis
          by (intro failed [of k e]) (auto simp: sc_write_at_def)
      qed
    qed
  qed
qed

lemma sc_write_total: "sc_write_at out c off bs = (r, c') \<Longrightarrow> sc_total c' = sc_total c"
  by (erule sc_write_at_cases) auto

lemma sc_write_offsets:
  assumes "sc_wf c" and "sc_write_at out c off bs = (r, c')"
  shows "offsets (sc_ranges c') =
     (case r of Inl _ \<Rightarrow> offsets (sc_ranges c)
      | Inr _ \<Rightarrow> offsets (sc_ranges c) \<union> {x. unat off \<le> unat x \<and> unat x < unat off + length bs})"
  using assms(2)
proof (cases rule: sc_write_at_cases)
  case (stored en)
  with assms(1) show ?thesis
    by (auto simp: sc_wf_def offsets_insert in_range_unat)
qed auto

lemma sc_write_wf:
  assumes "sc_wf c" and "sc_write_at out c off bs = (r, c')"
  shows "sc_wf c'"
  using assms(2)
proof (cases rule: sc_write_at_cases)
  case (failed k e)
  with assms(1) show ?thesis
    by (auto simp: sc_wf_def sf_wf_put sf_len_put)
next
  case (stored en)
  with assms(1) show ?thesis
    by (auto simp: sc_wf_def sf_wf_put sf_len_put rs_wf_insert offsets_insert in_range_unat
        word_less_unat)
qed (use assms(1) in auto)

lemma sc_write_holds:
  assumes "sc_wf c" and "sc_holds obj c" and "chunk_of obj (unat off) bs"
    and "sc_write_at out c off bs = (r, c')"
  shows "sc_holds obj c'"
  using assms(4)
proof (cases rule: sc_write_at_cases)
  case (failed k e)
  have "chunk_of obj (unat off) (take k bs)" using assms(3) by (rule chunk_of_take)
  with failed assms(2) show ?thesis
    by (auto simp: sc_holds_def sf_put_chunk(2))
next
  case (stored en)
  with assms show ?thesis
    by (auto simp: sc_holds_def sf_put_chunk sc_wf_def offsets_insert in_range_unat)
qed (use assms(2) in auto)

lemma sc_window_covered:
  assumes "sc_wf c" and "sc_missing_ranges c off sz = []"
    and "unat off \<le> i" "i < unat off + unat sz" "i < unat (sc_total c)"
  shows "of_nat i \<in> offsets (sc_ranges c)" and "unat (of_nat i :: u64) = i"
proof -
  show i: "unat (of_nat i :: u64) = i"
    using assms(5) unat_u64_less [of "sc_total c"] by (intro unat_of_nat_u64) simp
  have "window off sz (sc_total c) \<subseteq> offsets (sc_ranges c)"
    using assms(1,2) by (simp add: sc_missing_ranges_def sc_wf_def tracked.no_gaps_iff)
  moreover have "of_nat i \<in> window off sz (sc_total c)"
    using assms(3-5) i by (simp add: window_unat)
  ultimately show "of_nat i \<in> offsets (sc_ranges c)" by blast
qed

lemma sc_read_length:
  "off < sc_total c \<Longrightarrow>
   unat off + unat (min sz (sc_total c - off)) = min (unat off + unat sz) (unat (sc_total c))"
  by (auto simp: min_def word_less_unat word_le_unat unat_sub)

lemma sc_read_object:
  assumes "sc_wf c" and "sc_holds obj c" and "sc_missing_ranges c off sz = []"
    and "sc_read_at out c off sz = Inr ys"
  shows "ys = obj_slice obj (sc_total c) off sz"
proof (cases "off \<ge> sc_total c")
  case True
  then show ?thesis
    using assms(4) by (simp add: sc_read_at_def obj_slice_def word_le_unat)
next
  case False
  then have lt: "off < sc_total c" by simp
  let ?n = "min (unat off + unat sz) (unat (sc_total c))"
  have "ys = map (sf_byte (sc_file c)) [unat off..<?n]"
    using assms(4) False by (cases out) (auto simp: sc_read_at_def sc_read_length [OF lt] split: if_splits)
  also have "\<dots> = map obj [unat off..<?n]"
    using sc_window_covered [OF assms(1,3)] assms(2)
    by (intro map_cong refl) (force simp: sc_holds_def)
  finally show ?thesis by (simp add: obj_slice_def)
qed

lemma sc_read_IoOk:
  assumes "sc_wf c"
  shows "\<exists>ys. sc_read_at IoOk c off sz = Inr ys"
proof (cases "off \<ge> sc_total c")
  case False
  then show ?thesis
    using assms sc_read_length [of off c sz] by (simp add: sc_read_at_def sc_wf_def)
qed (simp add: sc_read_at_def)

section \<open>The shared cache as a transition system\<close>

definition sh_ok :: "(nat \<Rightarrow> byte) \<Rightarrow> u64 \<Rightarrow> shared_cache \<Rightarrow> bool" where
  "sh_ok obj tot s \<longleftrightarrow> sc_wf (sh_cache s) \<and> sc_holds obj (sh_cache s) \<and> total_size s = tot"

abbreviation populated :: "shared_cache \<Rightarrow> u64 set" where
  "populated s \<equiv> offsets (sc_ranges (sh_cache s))"

lemmas shared_defs = start_fill_def request_stop_def reset_after_link_loss_def sh_finish_def
  sh_fail_def raise_stop_def total_size_def Let_def

text \<open>
  Every call that changes a shared cache, by any thread and in any order. The filler and
  the ranged read path write bytes the device sent for that position.
\<close>

inductive cache_step :: "(nat \<Rightarrow> byte) \<Rightarrow> shared_cache \<Rightarrow> shared_cache \<Rightarrow> bool" for obj where
  claim: "start_fill s = (b, s') \<Longrightarrow> cache_step obj s s'"
| chunk: "chunk_of obj (unat off) bs \<Longrightarrow> write_sequential out s off bs = (r, s') \<Longrightarrow> cache_step obj s s'"
| ranged: "chunk_of obj (unat off) bs \<Longrightarrow> sh_write_at out s off bs = (r, s') \<Longrightarrow> cache_step obj s s'"
| finish: "cache_step obj s (sh_finish s n)"
| failed: "cache_step obj s (sh_fail s failure)"
| stop: "cache_step obj s (request_stop s)"
| reset: "reset_after_link_loss s = (b, s') \<Longrightarrow> cache_step obj s s'"

inductive cache_reach :: "(nat \<Rightarrow> byte) \<Rightarrow> u64 \<Rightarrow> shared_cache \<Rightarrow> bool" for obj tot where
  created: "sh_new t l tot = Inr s \<Longrightarrow> cache_reach obj tot s"
| later: "cache_reach obj tot s \<Longrightarrow> cache_step obj s s' \<Longrightarrow> cache_reach obj tot s'"

lemma sh_write_at_ok:
  assumes "sh_ok obj tot s" and "chunk_of obj (unat off) bs" and "sh_write_at out s off bs = (r, s')"
  shows "sh_ok obj tot s'" and "populated s \<subseteq> populated s'" and "sh_fill s' = sh_fill s"
    and "sh_stop s' = sh_stop s"
  using assms by (auto simp: sh_ok_def sh_write_at_def total_size_def sc_write_offsets
      intro: sc_write_wf sc_write_holds dest: sc_write_total split: prod.splits sum.splits)

lemma write_sequential_ok:
  assumes "sh_ok obj tot s" and "chunk_of obj (unat off) bs" and "write_sequential out s off bs = (r, s')"
  shows "sh_ok obj tot s'" and "populated s \<subseteq> populated s'" and "sh_fill s' = sh_fill s"
    and "sh_stop s' = sh_stop s"
  using assms sh_write_at_ok [OF assms(1,2)]
  by (auto simp: write_sequential_def split: if_splits)

lemma cache_unchanged:
  "start_fill s = (b, s') \<Longrightarrow> sh_cache s' = sh_cache s"
  "reset_after_link_loss s = (b, s') \<Longrightarrow> sh_cache s' = sh_cache s"
  "sh_cache (sh_finish s n) = sh_cache s"
  "sh_cache (sh_fail s failure) = sh_cache s"
  "sh_cache (request_stop s) = sh_cache s"
  by (auto simp: shared_defs split: if_splits fill_state.splits)

lemma sh_ok_same_cache: "sh_cache s' = sh_cache s \<Longrightarrow> sh_ok obj tot s' = sh_ok obj tot s"
  by (simp add: sh_ok_def total_size_def)

lemma cache_step_cases:
  assumes "cache_step obj s s'"
  obtains (same) "sh_cache s' = sh_cache s"
  | (stored) out off bs r where "chunk_of obj (unat off) bs" "sh_write_at out s off bs = (r, s')"
  using assms
proof (cases rule: cache_step.cases)
  case (chunk off bs out r)
  then show ?thesis by (auto simp: write_sequential_def intro: that split: if_splits)
qed (simp_all add: that cache_unchanged)

lemma cache_step_ok:
  assumes "cache_step obj s s'" and "sh_ok obj tot s"
  shows "sh_ok obj tot s'" and "populated s \<subseteq> populated s'"
proof -
  have "sh_ok obj tot s' \<and> populated s \<subseteq> populated s'"
    using assms(1)
  proof (cases rule: cache_step_cases)
    case same
    then show ?thesis using sh_ok_same_cache [OF same] assms(2) by simp
  next
    case (stored out off bs r)
    then show ?thesis using sh_write_at_ok [OF assms(2)] by blast
  qed
  then show "sh_ok obj tot s'" and "populated s \<subseteq> populated s'" by blast+
qed

lemma cache_reach_ok: "cache_reach obj tot s \<Longrightarrow> sh_ok obj tot s"
proof (induction rule: cache_reach.induct)
  case (created t l s)
  then show ?case
    by (auto simp: sh_ok_def sh_new_def total_size_def dest: sc_new_wf split: sum.splits)
qed (rule cache_step_ok(1))

lemma wait_poll_sound:
  "sh_ok obj tot s \<Longrightarrow> wait_poll out s off sz = Some (Inr ys) \<Longrightarrow> ys = obj_slice obj tot off sz"
  by (auto simp: wait_poll_def sh_ok_def total_size_def sc_read_object
      split: if_splits sum.splits fill_state.splits)

lemma wait_poll_ready:
  assumes "sh_ok obj tot s" and "sh_missing_ranges s off sz = []"
  shows "wait_poll IoOk s off sz = Some (Inr (obj_slice obj tot off sz))"
proof -
  have m: "sc_missing_ranges (sh_cache s) off sz = []"
    using assms(2) by (simp add: sh_missing_ranges_def)
  obtain ys where ys: "sc_read_at IoOk (sh_cache s) off sz = Inr ys"
    using sc_read_IoOk assms(1) by (force simp: sh_ok_def)
  then have "wait_poll IoOk s off sz = Some (Inr ys)" by (simp add: wait_poll_def m)
  with wait_poll_sound [OF assms(1) this] show ?thesis by simp
qed

lemma wait_poll_blocks_iff:
  "wait_poll out s off sz = None \<longleftrightarrow> is_filling s \<and> sh_missing_ranges s off sz \<noteq> []"
  by (auto simp: wait_poll_def is_filling_def sh_missing_ranges_def split: sum.splits fill_state.splits)

lemma missing_mono:
  assumes "sh_ok obj tot s" "sh_ok obj tot s'" "populated s \<subseteq> populated s'" "sh_missing_ranges s off sz = []"
  shows "sh_missing_ranges s' off sz = []"
  using assms by (auto simp: sh_ok_def sh_missing_ranges_def sc_missing_ranges_def sc_wf_def
      total_size_def tracked.no_gaps_iff)

section \<open>The filler\<close>

text \<open>The bytes the stream still delivers are the object's, from position \<open>n\<close> on.\<close>

fun stream_of :: "(nat \<Rightarrow> byte) \<Rightarrow> nat \<Rightarrow> 'e fill_turn list \<Rightarrow> bool" where
  "stream_of obj n [] = True"
| "stream_of obj n ((_, _, Inl _) # turns) = True"
| "stream_of obj n ((_, _, Inr bs) # turns) = (chunk_of obj n bs \<and> stream_of obj (n + length bs) turns)"

text \<open>
  The loop's invariant: the cache is coherent, the fill owns the slot, and as long as no
  failure is recorded the offset counts the bytes received, all of them stored.
\<close>

definition fill_inv :: "(nat \<Rightarrow> byte) \<Rightarrow> u64 \<Rightarrow> nat \<Rightarrow> u64 \<Rightarrow> fill_failure option \<Rightarrow> shared_cache \<Rightarrow> bool" where
  "fill_inv obj tot n off wfail s \<longleftrightarrow>
     sh_ok obj tot s \<and> sh_fill s = FRunning \<and>
     (wfail = None \<longrightarrow> unat off = n \<and> off \<le> tot \<and> {..<off} \<subseteq> populated s)"

lemma fill_inv_raise_stop: "fill_inv obj tot n off wfail s \<Longrightarrow> fill_inv obj tot n off wfail (raise_stop b s)"
  by (simp add: fill_inv_def sh_ok_def shared_defs)

lemma populated_sequential:
  assumes "sh_ok obj tot s" and "write_sequential out s off bs = (Inr u, s')"
  shows "{x. unat off \<le> unat x \<and> unat x < unat off + length bs} \<subseteq> populated s'"
  using assms by (auto simp: write_sequential_def sh_write_at_def sh_ok_def sc_write_offsets
      split: if_splits prod.splits)

lemma store_chunk_inv:
  assumes inv: "fill_inv obj tot n off wfail s" and ch: "wfail = None \<Longrightarrow> chunk_of obj n bs"
    and st: "store_chunk out tot off bs wfail s = (wfail', s')"
  shows "sh_ok obj tot s' \<and> sh_fill s' = FRunning \<and> populated s \<subseteq> populated s' \<and>
    (wfail' = None \<longrightarrow> wfail = None \<and> unat off + length bs \<le> unat tot \<and>
      {x. unat off \<le> unat x \<and> unat x < unat off + length bs} \<subseteq> populated s')"
proof (cases "wfail = None")
  case False
  with inv st show ?thesis by (auto simp: fill_inv_def store_chunk_def)
next
  case True
  define w where "w = min (length bs) (unat (saturating_sub tot off))"
  obtain r where ws: "write_sequential out s off (take w bs) = (r, s')"
    using st True by (auto simp: store_chunk_def w_def Let_def split: prod.splits sum.splits if_splits)
  have ok: "sh_ok obj tot s" and run: "sh_fill s = FRunning" and off: "unat off = n"
    using inv True by (auto simp: fill_inv_def)
  have "chunk_of obj (unat off) (take w bs)"
    using ch True off by (simp add: chunk_of_take)
  note w = write_sequential_ok [OF ok this ws]
  have "wfail' = None \<Longrightarrow> w = length bs \<and> (\<exists>u. r = Inr u)"
    using st True ws by (auto simp: store_chunk_def w_def Let_def split: sum.splits if_splits)
  moreover have "w = length bs \<Longrightarrow> unat off + length bs \<le> unat tot"
    using inv True by (auto simp: w_def fill_inv_def unat_saturating_sub word_le_unat)
  moreover have "w = length bs \<Longrightarrow> r = Inr u \<Longrightarrow>
      {x. unat off \<le> unat x \<and> unat x < unat off + length bs} \<subseteq> populated s'" for u
    using populated_sequential [OF ok, of out off bs u s'] ws by simp
  ultimately show ?thesis
    using w run True by (cases "wfail' = None") auto
qed

lemma advance_inv:
  assumes "advance off k wfail = (off', wfail')" and "wfail' = None"
  shows "wfail = None" and "unat off' = unat off + k"
  using assms checked_add_SomeD [of off k]
  by (auto simp: advance_def split: option.splits)

lemma chunk_turn_inv:
  assumes inv: "fill_inv obj tot n off wfail s" and ch: "wfail = None \<Longrightarrow> chunk_of obj n bs"
    and st: "store_chunk out tot off bs wfail s = (wfail', s')"
    and ad: "advance off (length bs) wfail' = (off', wfail'')"
  shows "fill_inv obj tot (n + length bs) off' wfail'' s'"
proof -
  note sc = store_chunk_inv [OF inv ch st]
  have "unat off' = n + length bs \<and> off' \<le> tot \<and> {..<off'} \<subseteq> populated s'" if "wfail'' = None"
  proof -
    note a = advance_inv [OF ad that]
    have fits: "wfail = None" "unat off + length bs \<le> unat tot" using sc a(1) by auto
    have old: "unat off = n" "{..<off} \<subseteq> populated s" using inv fits(1) by (auto simp: fill_inv_def)
    have "x \<in> populated s'" if "x < off'" for x
      using that sc a old by (cases "x < off") (auto simp: word_less_unat)
    then show ?thesis using a fits old by (auto simp: word_le_unat)
  qed
  with sc show ?thesis by (auto simp: fill_inv_def)
qed

definition fill_done :: "(nat \<Rightarrow> byte) \<Rightarrow> u64 \<Rightarrow> shared_cache \<Rightarrow> bool" where
  "fill_done obj tot s \<longleftrightarrow> sh_ok obj tot s \<and> \<not> is_filling s \<and>
     (sh_fill s = FComplete \<longrightarrow> {..<tot} \<subseteq> populated s)"

lemma end_fill_done: "fill_inv obj tot n off wfail s \<Longrightarrow> fill_done obj tot (end_fill off wfail s)"
  by (auto simp: fill_inv_def fill_done_def end_fill_def sh_ok_def is_filling_def shared_defs
      split: option.splits)

lemma sh_fail_done: "fill_inv obj tot n off wfail s \<Longrightarrow> fill_done obj tot (sh_fail s f)"
  by (auto simp: fill_inv_def fill_done_def sh_ok_def is_filling_def shared_defs)

lemma fill_loop_done:
  "fill_inv obj tot n off wfail s \<Longrightarrow> (wfail = None \<longrightarrow> stream_of obj n turns) \<Longrightarrow>
   fill_done obj tot (fr_cache (fill_loop msg lost tot stopz turns off wfail s))"
proof (induction turns arbitrary: n off wfail s)
  case Nil
  then show ?case
    using fill_inv_raise_stop [OF Nil.prems(1), of stopz]
    by (auto simp: Let_def intro: end_fill_done sh_fail_done)
next
  case (Cons turn turns)
  obtain stop out item where turn: "turn = (stop, out, item)" by (metis prod_cases3)
  let ?s = "raise_stop stop s"
  note inv = fill_inv_raise_stop [OF Cons.prems(1), of stop]
  show ?case
  proof (cases "stop_requested ?s \<or> (\<exists>e. item = Inl e)")
    case True
    then show ?thesis using inv by (auto simp: turn Let_def intro: sh_fail_done)
  next
    case False
    then obtain bs where item: "item = Inr bs" by (cases item) auto
    obtain wfail' s' where st: "store_chunk out tot off bs wfail ?s = (wfail', s')" by fastforce
    obtain off' wfail'' where ad: "advance off (length bs) wfail' = (off', wfail'')" by fastforce
    have ch: "wfail = None \<Longrightarrow> chunk_of obj n bs \<and> stream_of obj (n + length bs) turns"
      using Cons.prems(2) by (simp add: turn item)
    have "fill_inv obj tot (n + length bs) off' wfail'' s'"
      using ch by (intro chunk_turn_inv [OF inv _ st ad]) simp
    moreover have "wfail'' = None \<longrightarrow> stream_of obj (n + length bs) turns"
      using ch advance_inv(1) [OF ad] store_chunk_inv [OF inv _ st] by blast
    ultimately show ?thesis
      using Cons.IH False by (simp add: turn item Let_def st ad)
  qed
qed

text \<open>
  How a fill leaves the stream: a turn is \<open>plain\<close> when teardown has not asked for a stop
  and the transport delivers a chunk; what the disk does with it does not matter.
\<close>

definition plain_turn :: "'e fill_turn \<Rightarrow> bool" where
  "plain_turn t = (case t of (stop, out, item) \<Rightarrow> \<not> stop \<and> \<not> isl item)"

lemma plain_turn_cases:
  assumes "plain_turn turn"
  obtains out bs where "turn = (False, out, Inr bs)"
  using assms by (cases turn rule: prod_cases3; cases "snd (snd turn)") (auto simp: plain_turn_def)

lemma store_chunk_stop: "store_chunk out tot off bs wfail s = (wfail', s') \<Longrightarrow> sh_stop s' = sh_stop s"
  by (auto simp: store_chunk_def write_sequential_def sh_write_at_def Let_def
      split: if_splits prod.splits sum.splits)

lemma fill_loop_drains:
  "\<not> sh_stop s \<Longrightarrow> list_all plain_turn turns \<Longrightarrow>
   fr_left (fill_loop msg lost tot stopz turns off wfail s) = []"
proof (induction turns arbitrary: off wfail s)
  case (Cons turn turns)
  obtain out bs where turn: "turn = (False, out, Inr bs)"
    using Cons.prems(2) by (auto elim: plain_turn_cases)
  obtain wfail' s' where st: "store_chunk out tot off bs wfail s = (wfail', s')" by fastforce
  obtain off' wfail'' where ad: "advance off (length bs) wfail' = (off', wfail'')" by fastforce
  show ?case
    using Cons store_chunk_stop [OF st]
    by (simp add: turn st ad Let_def stop_requested_def raise_stop_def)
qed (simp add: Let_def)

lemma fill_loop_cancelled:
  "fr_cancelled (fill_loop msg lost tot stopz turns off wfail s) =
   (fr_outcome (fill_loop msg lost tot stopz turns off wfail s) = Stopped)"
  by (induction msg lost tot stopz turns off wfail s rule: fill_loop.induct)
    (auto simp: Let_def split: sum.splits prod.splits)

text \<open>The bytes a whole script delivers, and a disk that takes every write.\<close>

fun delivered :: "'e fill_turn list \<Rightarrow> nat" where
  "delivered [] = 0"
| "delivered ((_, _, Inl _) # turns) = delivered turns"
| "delivered ((_, _, Inr bs) # turns) = length bs + delivered turns"

definition disk_ok :: "'e fill_turn \<Rightarrow> bool" where
  "disk_ok t \<longleftrightarrow> fst (snd t) = IoOk"

lemma checked_add_Some: "unat a + n < 2 ^ 64 \<Longrightarrow> checked_add a n = Some (a + of_nat n)"
  by (simp add: checked_add_def)

lemma sc_write_IoOk:
  assumes "unat off + length bs \<le> unat (sc_total c)"
  shows "\<exists>c'. sc_write_at IoOk c off bs = (Inr (), c') \<and> sc_total c' = sc_total c"
proof -
  have lt: "unat off + length bs < 2 ^ 64"
    using assms unat_u64_less [of "sc_total c"] by simp
  then have "\<not> sc_total c < off + of_nat (length bs)"
    using assms checked_add_SomeD [OF checked_add_Some [OF lt]] by (simp add: word_less_unat)
  then show ?thesis
    by (auto simp: sc_write_at_def checked_add_Some [OF lt])
qed

lemma store_chunk_IoOk:
  assumes "sh_fill s = FRunning" "total_size s = tot" "unat off + length bs \<le> unat tot"
  shows "\<exists>s'. store_chunk IoOk tot off bs None s = (None, s') \<and> sh_fill s' = FRunning \<and>
    total_size s' = tot \<and> sh_stop s' = sh_stop s"
proof -
  obtain c' where c': "sc_write_at IoOk (sh_cache s) off bs = (Inr (), c')" "sc_total c' = tot"
    using sc_write_IoOk [of off bs "sh_cache s"] assms by (auto simp: total_size_def)
  have "min (length bs) (unat (saturating_sub tot off)) = length bs"
    using assms(3) by (simp add: unat_saturating_sub)
  then show ?thesis
    using assms c' by (simp add: store_chunk_def write_sequential_def sh_write_at_def total_size_def)
qed

lemma fill_loop_completes:
  "sh_fill s = FRunning \<Longrightarrow> \<not> sh_stop s \<Longrightarrow> total_size s = tot \<Longrightarrow>
   list_all plain_turn turns \<Longrightarrow> list_all disk_ok turns \<Longrightarrow>
   unat off + delivered turns = unat tot \<Longrightarrow>
   sh_fill (fr_cache (fill_loop msg lost tot False turns off None s)) = FComplete"
proof (induction turns arbitrary: off s)
  case Nil
  then have "off = tot" by (simp add: word_unat_eq_iff)
  with Nil show ?case
    by (simp add: Let_def stop_requested_def raise_stop_def end_fill_def sh_finish_def)
next
  case (Cons turn turns)
  obtain bs where turn: "turn = (False, IoOk, Inr bs)"
    using Cons.prems(4,5) by (auto simp: disk_ok_def elim!: plain_turn_cases)
  have le: "unat off + length bs \<le> unat tot" using Cons.prems(6) by (simp add: turn)
  obtain s' where st: "store_chunk IoOk tot off bs None s = (None, s')" "sh_fill s' = FRunning"
      "total_size s' = tot" "sh_stop s' = sh_stop s"
    using store_chunk_IoOk [OF Cons.prems(1,3) le] by blast
  have lt: "unat off + length bs < 2 ^ 64" using le unat_u64_less [of tot] by simp
  let ?off = "off + of_nat (length bs)"
  have off: "unat ?off = unat off + length bs"
    using checked_add_SomeD [OF checked_add_Some [OF lt]] .
  have "sh_fill (fr_cache (fill_loop msg lost tot False turns ?off None s')) = FComplete"
    using Cons.IH Cons.prems st off by (simp add: turn)
  then show ?case
    using Cons.prems(2) st(1)
    by (simp add: turn Let_def stop_requested_def raise_stop_def advance_def checked_add_Some [OF lt])
qed

section \<open>Properties\<close>

text \<open>
  C15. Whatever the filler, the ranged reads, teardown and recovery do to a shared cache and
  in whatever order, a reader that waits for a range and gets bytes gets exactly the
  object's bytes of that range: never the zeros of the preallocated file.
\<close>

theorem reader_never_sees_hole:
  assumes "list_all (cache_reach obj tot) ss" and "wait_and_read out ss off sz = Some (Inr ys)"
  shows "ys = obj_slice obj tot off sz"
  using assms
  by (induction out ss off sz rule: wait_and_read.induct)
    (auto split: option.splits intro: wait_poll_sound [OF cache_reach_ok])

definition demo_obj :: "nat \<Rightarrow> byte" where
  "demo_obj i = of_nat (i + 1)"

definition demo_cache :: shared_cache where
  "demo_cache = (case sh_new IoOk IoOk 3 of Inr s \<Rightarrow> s)"

definition demo_fill :: "string fill_turn list" where
  "demo_fill = [(False, IoOk, Inr [1, 2]), (False, IoOk, Inr [3])]"

definition demo_filled :: shared_cache where
  "demo_filled = snd (sh_write_at IoOk demo_cache 0 [1, 2])"

definition demo_started :: shared_cache where
  "demo_started = snd (start_fill demo_cache)"

lemmas demo_defs = demo_filled_def demo_started_def demo_cache_def sh_new_def sc_new_def start_fill_def

lemma demo_start: "start_fill demo_cache = (True, demo_started)" "\<not> stop_requested demo_cache"
    "\<not> stop_requested demo_started"
  by (simp_all add: demo_defs stop_requested_def)

lemma demo_filled_eq: "sh_missing_ranges demo_filled 0 2 = []"
    "wait_and_read IoOk [demo_filled] 0 2 = Some (Inr [1, 2])"
  by (simp_all add: demo_defs sh_write_at_def sc_write_at_def checked_add_def sh_missing_ranges_def
      sc_missing_ranges_def wait_poll_def sc_read_at_def insert_range_def missing_def rs_new_def range_is_empty_def
      insert_at_def insertion_point_def saturating_add_def min_def max_def sf_new_def sf_put_def
      sf_set_len_def upt_conv_Cons Let_def)

lemma demo_reach: "cache_reach demo_obj 3 demo_cache" "cache_reach demo_obj 3 demo_filled"
proof -
  show new: "cache_reach demo_obj 3 demo_cache"
    by (rule cache_reach.created [of IoOk IoOk]) (simp add: demo_cache_def sh_new_def sc_new_def)
  have "sh_write_at IoOk demo_cache 0 [1, 2] = (fst (sh_write_at IoOk demo_cache 0 [1, 2]), demo_filled)"
    by (simp add: demo_filled_def)
  moreover have "chunk_of demo_obj (unat (0 :: u64)) [1, 2]"
    by (simp add: chunk_of_def demo_obj_def less_Suc_eq numeral_2_eq_2)
  ultimately have "cache_step demo_obj demo_cache demo_filled" by (intro cache_step.ranged)
  with new show "cache_reach demo_obj 3 demo_filled" by (rule cache_reach.later)
qed

theorem reader_never_sees_hole_witness:
  "wait_and_read IoOk [demo_filled] 0 2 = Some (Inr [1, 2]) \<and> [1, 2] = obj_slice demo_obj 3 0 2"
  using reader_never_sees_hole [OF _ demo_filled_eq(2), of demo_obj 3] demo_reach(2) demo_filled_eq(2)
  by simp

text \<open>
  Once a range has been stored, it stays readable: after any further calls, a failed or
  stopped fill included, the same read returns the object's bytes on its first poll.
\<close>

theorem late_failure_hides_nothing:
  assumes "cache_reach obj tot s" and "(cache_step obj)\<^sup>*\<^sup>* s s'" and "sh_missing_ranges s off sz = []"
  shows "wait_poll IoOk s' off sz = Some (Inr (obj_slice obj tot off sz))"
proof -
  have "cache_reach obj tot s' \<and> populated s \<subseteq> populated s'"
    using assms(2)
  proof (induction rule: rtranclp_induct)
    case (step s1 s2)
    then have "cache_reach obj tot s2" by (blast intro: cache_reach.later)
    moreover have "populated s1 \<subseteq> populated s2"
      using step cache_step_ok(2) cache_reach_ok by blast
    ultimately show ?case using step by blast
  qed (simp add: assms(1))
  then have "sh_ok obj tot s'" "sh_missing_ranges s' off sz = []"
    using missing_mono [OF cache_reach_ok [OF assms(1)] _ _ assms(3)] cache_reach_ok by blast+
  then show ?thesis by (rule wait_poll_ready)
qed

theorem late_failure_hides_nothing_witness:
  "sh_missing_ranges demo_filled 0 2 = [] \<and>
   wait_poll IoOk (sh_fail demo_filled stopped_failure) 0 2 = Some (Inr (obj_slice demo_obj 3 0 2))"
proof -
  have "(cache_step demo_obj)\<^sup>*\<^sup>* demo_filled (sh_fail demo_filled stopped_failure)"
    by (rule r_into_rtranclp) (rule cache_step.failed)
  from late_failure_hides_nothing [OF demo_reach(2) this demo_filled_eq(1)] demo_filled_eq(1)
  show ?thesis by simp
qed

text \<open>
  C24. Running the filler over any stream of the object's bytes, with any disk behaviour, stop
  request or transport error, leaves a cache that still holds only object bytes and whose
  fill is over (no reader sleeps on it again); it is marked complete only with every byte
  stored; and the transfer was cancelled exactly when the outcome is Stopped.
\<close>

theorem fill_sound:
  assumes "cache_reach obj tot s" and "start_fill s = (True, s0)" and "stream_of obj 0 turns"
  shows "fill_done obj tot (fr_cache (fill_from_stream msg lost stopz turns s0)) \<and>
    wait_poll out (fr_cache (fill_from_stream msg lost stopz turns s0)) off sz \<noteq> None \<and>
    fr_cancelled (fill_from_stream msg lost stopz turns s0) =
      (fr_outcome (fill_from_stream msg lost stopz turns s0) = Stopped)"
proof -
  have ok: "sh_ok obj tot s0" and run: "sh_fill s0 = FRunning"
    using cache_reach_ok [OF assms(1)] assms(2)
    by (auto simp: start_fill_def sh_ok_def total_size_def split: if_splits)
  then have tot: "total_size s0 = tot" by (simp add: sh_ok_def)
  have "fill_inv obj tot 0 0 None s0" using ok run by (simp add: fill_inv_def lessThan_def)
  then have "fill_done obj tot (fr_cache (fill_from_stream msg lost stopz turns s0))"
    using assms(3) by (simp add: fill_from_stream_def tot fill_loop_done [where n = 0])
  then show ?thesis
    by (simp add: fill_done_def wait_poll_blocks_iff fill_from_stream_def fill_loop_cancelled)
qed

lemma demo_stream: "stream_of demo_obj 0 demo_fill"
  by (auto simp: demo_fill_def chunk_of_def demo_obj_def less_Suc_eq numeral_2_eq_2)

theorem fill_sound_witness:
  "fill_done demo_obj 3 (fr_cache (fill_from_stream id (\<lambda>_. False) False demo_fill demo_started))"
  using fill_sound [OF demo_reach(1) demo_start(1) demo_stream] by blast

text \<open>
  C25. A fill nobody stops, on a disk that takes every write and a transport that delivers
  exactly the advertised number of bytes, completes: every byte of the object can then be
  read back, whatever the window.
\<close>

theorem fill_completes:
  assumes "cache_reach obj tot s" and "start_fill s = (True, s0)" and "\<not> stop_requested s"
    and "stream_of obj 0 turns" and "list_all plain_turn turns" and "list_all disk_ok turns"
    and "delivered turns = unat tot"
  shows "sh_fill (fr_cache (fill_from_stream msg lost False turns s0)) = FComplete \<and>
    wait_poll IoOk (fr_cache (fill_from_stream msg lost False turns s0)) off sz =
      Some (Inr (obj_slice obj tot off sz))"
proof -
  let ?s = "fr_cache (fill_from_stream msg lost False turns s0)"
  have s0: "sh_fill s0 = FRunning" "total_size s0 = tot" "\<not> sh_stop s0"
    using assms(2,3) cache_reach_ok [OF assms(1)]
    by (auto simp: start_fill_def stop_requested_def sh_ok_def total_size_def split: if_splits)
  then have done_: "sh_fill ?s = FComplete"
    using fill_loop_completes [where off = 0] assms(5-7) by (simp add: fill_from_stream_def)
  then have ok: "sh_ok obj tot ?s" and full: "{..<tot} \<subseteq> populated ?s"
    using fill_sound [OF assms(1,2,4)] by (auto simp: fill_done_def)
  have "window off sz tot \<subseteq> {..<tot}"
    by (auto simp: window_unat word_less_unat)
  with ok full have "sh_missing_ranges ?s off sz = []"
    by (auto simp: sh_ok_def sh_missing_ranges_def sc_missing_ranges_def sc_wf_def total_size_def
        tracked.no_gaps_iff)
  with ok have "wait_poll IoOk ?s off sz = Some (Inr (obj_slice obj tot off sz))"
    by (rule wait_poll_ready)
  with done_ show ?thesis by blast
qed

theorem fill_completes_witness:
  "sh_fill (fr_cache (fill_from_stream id (\<lambda>_. False) False demo_fill demo_started)) = FComplete"
proof -
  have "list_all plain_turn demo_fill" "list_all disk_ok demo_fill" "delivered demo_fill = unat (3 :: u64)"
    by (simp_all add: demo_fill_def plain_turn_def disk_ok_def)
  then show ?thesis
    using fill_completes [OF demo_reach(1) demo_start(1,2) demo_stream] by blast
qed

text \<open>
  A fill that is not stopped and meets no transport error pulls every chunk of the
  transfer, even when the disk fails half way: the stream is never dropped in mid-transfer.
\<close>

theorem fill_drains_stream:
  assumes "\<not> stop_requested s" and "list_all plain_turn turns"
  shows "fr_left (fill_from_stream msg lost stopz turns s) = []"
  using assms by (simp add: fill_from_stream_def stop_requested_def fill_loop_drains)

theorem fill_drains_stream_witness:
  "fr_left (fill_from_stream id (\<lambda>_. False) False
     [(False, IoFail 1 (IoError OtherIo ''disk full''), Inr [1, 2]), (False, IoOk, Inr [3])]
     demo_started) = []"
  by (rule fill_drains_stream [OF demo_start(3)]) (simp add: plain_turn_def)

end
