(* ===== verification/Buffer.thy ===== *)
theory Buffer
  imports Spool_File
begin

text \<open>
  \<open>src/src/error.rs\<close> (the mount's error type) and \<open>src/src/buffer.rs\<close>: the per-file write
  buffer (\<open>FileBuffer\<close>, generic over its storage) and the map from file handles to buffers
  (\<open>WriteBuffer\<close>). The storage's operations are arguments, as the Rust code is generic in
  \<open>F: Read + Write + Seek\<close>; the client lemmas are proved once from the storage contract
  \<open>byte_storage\<close> and instantiated for the spool file and for the in-memory cursor. The
  \<open>io_outcome\<close> argument is what the system does with the seek and write, or the seek and
  read, of the call.
\<close>

section \<open>Errors of the mount\<close>

text \<open>\<open>'m\<close> is \<open>mtp_rs::Error\<close>, a type of a crate this repository does not contain.\<close>

datatype 'm mount_error = MountMtp 'm | MountIo io_error | MountNoDevice | MountOther string

section \<open>One file's buffer\<close>

record 'f file_buffer =
  fb_inode :: u64
  fb_original_size :: u64
  fb_file :: 'f
  fb_len :: u64
  fb_dirty :: bool

definition with_storage :: "u64 \<Rightarrow> u64 \<Rightarrow> 'f \<Rightarrow> 'f file_buffer" where
  "with_storage ino orig storage =
     \<lparr>fb_inode = ino, fb_original_size = orig, fb_file = storage, fb_len = 0, fb_dirty = False\<rparr>"

definition fb_new :: "io_outcome \<Rightarrow> u64 \<Rightarrow> u64 \<Rightarrow> io_error + sfile file_buffer" where
  "fb_new tempfile ino orig =
     (case tempfile of IoFail _ e \<Rightarrow> Inl e | IoOk \<Rightarrow> Inr (with_storage ino orig sf_new))"

definition write_range_error :: io_error where
  "write_range_error = IoError InvalidInput ''write offset out of range''"

text \<open>\<open>u64::try_from\<close> of an \<open>i64\<close>: the same bits, unless the sign bit is set.\<close>

definition u64_try_from :: "i64 \<Rightarrow> u64 option" where
  "u64_try_from x = (if sint x < 0 then None else Some x)"

definition fb_write_at ::
  "(io_outcome \<Rightarrow> 'f \<Rightarrow> nat \<Rightarrow> byte list \<Rightarrow> (io_error + unit) \<times> 'f) \<Rightarrow>
   io_outcome \<Rightarrow> i64 \<Rightarrow> byte list \<Rightarrow> ('f file_buffer, io_error, u32) op" where
  "fb_write_at wr out off bs b =
     (case u64_try_from off of
        None \<Rightarrow> (Inl write_range_error, b)
      | Some off \<Rightarrow>
          (case checked_add off (length bs) of
             None \<Rightarrow> (Inl write_range_error, b)
           | Some en \<Rightarrow>
               (if bs = [] then (Inr 0, b)
                else (case wr out (fb_file b) (unat off) bs of
                        (Inl e, f) \<Rightarrow> (Inl e, b\<lparr>fb_file := f\<rparr>)
                      | (Inr _, f) \<Rightarrow>
                          (Inr (of_nat (length bs)),
                           b\<lparr>fb_file := f, fb_len := (if en > fb_len b then en else fb_len b),
                             fb_dirty := True\<rparr>)))))"

definition fb_read_at ::
  "(io_outcome \<Rightarrow> 'f \<Rightarrow> nat \<Rightarrow> nat \<Rightarrow> io_error + byte list) \<Rightarrow>
   io_outcome \<Rightarrow> 'f file_buffer \<Rightarrow> i64 \<Rightarrow> u32 \<Rightarrow> io_error + byte list" where
  "fb_read_at rd out b off sz =
     (case u64_try_from off of
        None \<Rightarrow> Inr []
      | Some off \<Rightarrow>
          (if off \<ge> fb_len b then Inr []
           else rd out (fb_file b) (unat off) (unat (min (fb_len b - off) (ucast sz)))))"

definition fb_is_empty :: "'f file_buffer \<Rightarrow> bool" where
  "fb_is_empty b \<longleftrightarrow> fb_len b = 0"

definition into_file :: "'f file_buffer \<Rightarrow> 'f" where
  "into_file b = fb_file b"

section \<open>The map of buffers\<close>

record write_buffer =
  wb_buffers :: "u64 \<rightharpoonup> sfile file_buffer"

definition wb_new :: write_buffer where
  "wb_new = \<lparr>wb_buffers = Map.empty\<rparr>"

definition wb_open :: "io_outcome \<Rightarrow> u64 \<Rightarrow> u64 \<Rightarrow> u64 \<Rightarrow> (write_buffer, io_error, sfile file_buffer) op" where
  "wb_open tempfile fh ino orig w =
     (case wb_buffers w fh of
        Some b \<Rightarrow> (Inr b, w)
      | None \<Rightarrow>
          (case fb_new tempfile ino orig of
             Inl e \<Rightarrow> (Inl e, w)
           | Inr b \<Rightarrow> (Inr b, w\<lparr>wb_buffers := (wb_buffers w)(fh \<mapsto> b)\<rparr>)))"

definition no_buffer :: "u64 \<Rightarrow> 'm mount_error" where
  "no_buffer fh = MountOther (''no buffer for file handle '' @ show_u64 fh)"

definition wb_write ::
  "io_outcome \<Rightarrow> u64 \<Rightarrow> i64 \<Rightarrow> byte list \<Rightarrow> (write_buffer, 'm mount_error, u32) op" where
  "wb_write out fh off bs w =
     (case wb_buffers w fh of
        None \<Rightarrow> (Inl (no_buffer fh), w)
      | Some b \<Rightarrow>
          (case fb_write_at sf_write out off bs b of
             (Inl e, b') \<Rightarrow> (Inl (MountIo e), w\<lparr>wb_buffers := (wb_buffers w)(fh \<mapsto> b')\<rparr>)
           | (Inr n, b') \<Rightarrow> (Inr n, w\<lparr>wb_buffers := (wb_buffers w)(fh \<mapsto> b')\<rparr>)))"

definition wb_read ::
  "io_outcome \<Rightarrow> write_buffer \<Rightarrow> u64 \<Rightarrow> i64 \<Rightarrow> u32 \<Rightarrow> 'm mount_error + byte list" where
  "wb_read out w fh off sz =
     (case wb_buffers w fh of
        None \<Rightarrow> Inl (no_buffer fh)
      | Some b \<Rightarrow> (case fb_read_at sf_read out b off sz of Inl e \<Rightarrow> Inl (MountIo e) | Inr bs \<Rightarrow> Inr bs))"

definition wb_flush :: "u64 \<Rightarrow> write_buffer \<Rightarrow> sfile file_buffer option \<times> write_buffer" where
  "wb_flush fh w = (wb_buffers w fh, w\<lparr>wb_buffers := (wb_buffers w)(fh := None)\<rparr>)"

definition wb_close :: "u64 \<Rightarrow> write_buffer \<Rightarrow> sfile file_buffer option \<times> write_buffer" where
  "wb_close fh w = wb_flush fh w"

definition wb_is_open :: "write_buffer \<Rightarrow> u64 \<Rightarrow> bool" where
  "wb_is_open w fh \<longleftrightarrow> wb_buffers w fh \<noteq> None"

definition wb_size :: "write_buffer \<Rightarrow> u64 \<Rightarrow> u64 option" where
  "wb_size w fh = map_option fb_len (wb_buffers w fh)"

section \<open>Refinement to pwrite and pread\<close>

text \<open>
  A buffer is \<^emph>\<open>exact\<close> when its file holds exactly \<open>fb_len\<close> bytes, which is what the upload
  relies on (it streams the whole file). A write the system fails may leave more bytes in
  the file than \<open>fb_len\<close> counts; \<open>bounded\<close> is what survives that.
\<close>

definition exact_len :: "('f \<Rightarrow> byte list) \<Rightarrow> 'f file_buffer \<Rightarrow> bool" where
  "exact_len content b \<longleftrightarrow> length (content (fb_file b)) = unat (fb_len b)"

definition bounded_len :: "('f \<Rightarrow> byte list) \<Rightarrow> 'f file_buffer \<Rightarrow> bool" where
  "bounded_len content b \<longleftrightarrow> unat (fb_len b) \<le> length (content (fb_file b))"

definition fb_bytes :: "('f \<Rightarrow> byte list) \<Rightarrow> 'f file_buffer \<Rightarrow> byte list" where
  "fb_bytes content b = take (unat (fb_len b)) (content (fb_file b))"

lemma u64_try_from_iff: "u64_try_from off = Some n \<longleftrightarrow> 0 \<le> sint off \<and> n = off"
  by (auto simp: u64_try_from_def)

lemma fb_write_at_cases:
  assumes "fb_write_at wr out off bs b = (r, b')"
  obtains (rejected) "r = Inl write_range_error" "b' = b" "sint off < 0 \<or> 2 ^ 64 \<le> unat off + length bs"
  | (nothing) "r = Inr 0" "b' = b" "bs = []" "0 \<le> sint off"
  | (failed) e f where "r = Inl e" "wr out (fb_file b) (unat off) bs = (Inl e, f)" "bs \<noteq> []"
      "b' = b\<lparr>fb_file := f\<rparr>"
  | (stored) u f en where "r = Inr (of_nat (length bs))" "bs \<noteq> []" "unat en = unat off + length bs"
      "wr out (fb_file b) (unat off) bs = (Inr u, f)" "0 \<le> sint off"
      "b' = b\<lparr>fb_file := f, fb_len := (if en > fb_len b then en else fb_len b), fb_dirty := True\<rparr>"
  using assms
proof (cases "u64_try_from off")
  case None
  then show ?thesis using assms rejected by (auto simp: fb_write_at_def u64_try_from_def split: if_splits)
next
  case (Some o')
  then have o': "o' = off" "0 \<le> sint off" by (simp_all add: u64_try_from_iff)
  show ?thesis
  proof (cases "checked_add off (length bs)")
    case None
    then show ?thesis
      using assms Some o' rejected checked_add_None_iff [of off "length bs"] by (simp add: fb_write_at_def)
  next
    case (Some en)
    note en = checked_add_SomeD [OF this]
    show ?thesis
    proof (cases "bs = []")
      case True
      then have "r = Inr 0" "b' = b"
        using assms \<open>u64_try_from off = Some o'\<close> Some o' by (simp_all add: fb_write_at_def)
      then show ?thesis using True o'(2) by (rule nothing)
    next
      case False
      then show ?thesis
        using assms \<open>u64_try_from off = Some o'\<close> Some o' failed stored en
        by (auto simp: fb_write_at_def split: if_splits prod.splits sum.splits)
    qed
  qed
qed

lemma unat_ucast_u64 [arith_simps]: "unat (ucast (x :: u32) :: u64) = unat x"
  using unsigned_less [of x, where 'a = nat]
  by (simp add: unsigned_ucast_eq take_bit_nat_eq_self)

context byte_storage
begin

lemma fb_write_valid: "valid (fb_file b) \<Longrightarrow> fb_write_at wr out off bs b = (r, b') \<Longrightarrow> valid (fb_file b')"
  by (erule fb_write_at_cases) (auto intro: wr_valid)

lemma fb_write_exact:
  assumes "valid (fb_file b)" "exact_len content b" "fb_write_at wr out off bs b = (Inr n, b')"
  shows "fb_bytes content b' = pwrite (fb_bytes content b) (unat off) bs" and "exact_len content b'"
  using assms(3)
proof (atomize (full), cases rule: fb_write_at_cases)
  case (stored u f en)
  have "content f = pwrite (content (fb_file b)) (unat off) bs" using assms(1) stored(4) by (rule wr_ok)
  then show "fb_bytes content b' = pwrite (fb_bytes content b) (unat off) bs \<and> exact_len content b'"
    using stored assms(2) by (simp add: fb_bytes_def exact_len_def bytes_simps word_less_unat)
qed (use assms in auto)

lemma pwrite_grows: "length xs \<le> length (pwrite xs off bs)"
  by (simp add: bytes_simps)

lemma fb_write_bounded:
  assumes "valid (fb_file b)" "bounded_len content b" "fb_write_at wr out off bs b = (r, b')"
  shows "bounded_len content b'"
  using assms(3)
proof (cases rule: fb_write_at_cases)
  case (failed e f)
  obtain k where "content f = pwrite (content (fb_file b)) (unat off) (take k bs)"
    using wr_err [OF assms(1) failed(2)] by blast
  then show ?thesis
    using failed assms(2) pwrite_grows [of "content (fb_file b)" "unat off" "take k bs"]
    by (simp add: bounded_len_def)
next
  case (stored u f en)
  then show ?thesis
    using assms(2) wr_ok [OF assms(1) stored(4)]
    by (auto simp: bounded_len_def bytes_simps)
qed (use assms in auto)

lemma fb_write_frame:
  assumes "valid (fb_file b)" "bounded_len content b" "fb_write_at wr out off bs b = (r, b')"
    and "i < length (fb_bytes content b)" "i < unat off \<or> unat off + length bs \<le> i"
  shows "fb_bytes content b' ! i = fb_bytes content b ! i"
proof -
  have i: "i < length (content (fb_file b))" "i < unat (fb_len b)"
    using assms(2,4) by (auto simp: bounded_len_def fb_bytes_def)
  from assms(3) show ?thesis
  proof (cases rule: fb_write_at_cases)
    case (failed e f)
    obtain k where "content f = pwrite (content (fb_file b)) (unat off) (take k bs)"
      using wr_err [OF assms(1) failed(2)] by blast
    then show ?thesis
      using failed i assms(5) by (auto simp: fb_bytes_def bytes_simps)
  next
    case (stored u f en)
    then show ?thesis
      using i assms(5) wr_ok [OF assms(1) stored(4)]
      by (auto simp: fb_bytes_def bytes_simps word_less_unat)
  qed auto
qed

lemma fb_read_correct:
  assumes "valid (fb_file b)" "bounded_len content b" "fb_read_at rd out b off sz = Inr ys"
  shows "ys = (if sint off < 0 then [] else pread (fb_bytes content b) (unat off) (unat sz))"
proof (cases "sint off < 0 \<or> off \<ge> fb_len b")
  case True
  then show ?thesis
    using assms(3)
    by (auto simp: fb_read_at_def u64_try_from_def fb_bytes_def pread_def word_le_unat split: if_splits)
next
  case False
  let ?n = "unat (min (fb_len b - off) (ucast sz))"
  have n: "?n = min (unat (fb_len b) - unat off) (unat sz)"
    using False by (simp add: arith_simps unat_sub unat_ucast_u64 word_le_unat)
  have "ys = pread (content (fb_file b)) (unat off) ?n"
    using assms(3) False by (intro rd_ok [OF assms(1)]) (simp add: fb_read_at_def u64_try_from_def)
  also have "\<dots> = pread (fb_bytes content b) (unat off) (unat sz)"
    unfolding n using assms(2) by (simp add: fb_bytes_def pread_def drop_take min.commute)
  finally show ?thesis using False by simp
qed

lemma fb_read_IoOk:
  assumes "valid (fb_file b)" "bounded_len content b"
  shows "\<exists>ys. fb_read_at rd IoOk b off sz = Inr ys"
proof (cases "sint off < 0 \<or> off \<ge> fb_len b")
  case False
  let ?n = "unat (min (fb_len b - off) (ucast sz))"
  have "unat off + ?n \<le> length (content (fb_file b))"
    using False assms(2) by (auto simp: arith_simps unat_sub bounded_len_def word_le_unat)
  from rd_IoOk [OF assms(1) this] False show ?thesis
    by (simp add: fb_read_at_def u64_try_from_def)
qed (auto simp: fb_read_at_def u64_try_from_def)

end

section \<open>The map of buffers as a map of byte sequences\<close>

definition wb_bytes :: "write_buffer \<Rightarrow> u64 \<rightharpoonup> byte list" where
  "wb_bytes w fh = map_option (fb_bytes sf_content) (wb_buffers w fh)"

definition all_buffers :: "(sfile file_buffer \<Rightarrow> bool) \<Rightarrow> write_buffer \<Rightarrow> bool" where
  "all_buffers P w \<longleftrightarrow> (\<forall>b \<in> ran (wb_buffers w). sf_wf (fb_file b) \<and> P b)"

abbreviation wb_exact :: "write_buffer \<Rightarrow> bool" where
  "wb_exact \<equiv> all_buffers (exact_len sf_content)"

abbreviation wb_inv :: "write_buffer \<Rightarrow> bool" where
  "wb_inv \<equiv> all_buffers (bounded_len sf_content)"

lemma all_buffersD: "all_buffers P w \<Longrightarrow> wb_buffers w fh = Some b \<Longrightarrow> sf_wf (fb_file b) \<and> P b"
  by (auto simp: all_buffers_def ranI)

lemma all_buffers_upd:
  "all_buffers P w \<Longrightarrow> sf_wf (fb_file b) \<Longrightarrow> P b \<Longrightarrow>
   all_buffers P (w\<lparr>wb_buffers := (wb_buffers w)(fh \<mapsto> b)\<rparr>)"
  by (auto simp: all_buffers_def ran_def)

lemma wb_exact_inv: "wb_exact w \<Longrightarrow> wb_inv w"
  by (auto simp: all_buffers_def exact_len_def bounded_len_def)

lemma wb_bytes_upd [simp]:
  "wb_bytes (w\<lparr>wb_buffers := (wb_buffers w)(fh \<mapsto> b)\<rparr>) = (wb_bytes w)(fh \<mapsto> fb_bytes sf_content b)"
  by (auto simp: wb_bytes_def)

lemma wb_write_cases:
  assumes "wb_write out fh off bs w = (r, w')"
  obtains (absent) "wb_buffers w fh = None" "r = Inl (no_buffer fh)" "w' = w"
  | (present) b q b' where "wb_buffers w fh = Some b" "fb_write_at sf_write out off bs b = (q, b')"
      "w' = w\<lparr>wb_buffers := (wb_buffers w)(fh \<mapsto> b')\<rparr>"
      "r = (case q of Inl e \<Rightarrow> Inl (MountIo e) | Inr n \<Rightarrow> Inr n)"
  using assms by (auto simp: wb_write_def split: option.splits prod.splits sum.splits)

text \<open>Every call that changes the map, in any order and with any I/O outcome.\<close>

inductive wb_step :: "write_buffer \<Rightarrow> write_buffer \<Rightarrow> bool" where
  opened: "wb_open t fh ino orig w = (r, w') \<Longrightarrow> wb_step w w'"
| written: "wb_write out fh off bs w = (r :: string mount_error + u32, w') \<Longrightarrow> wb_step w w'"
| flushed: "wb_step w (snd (wb_flush fh w))"
| closed: "wb_step w (snd (wb_close fh w))"

lemma wb_remove: "all_buffers P w \<Longrightarrow> all_buffers P (snd (wb_flush fh w))"
  by (auto simp: wb_flush_def all_buffers_def ran_def)

lemma wb_open_all:
  assumes "wb_open t fh ino orig w = (r, w')" "all_buffers P w" "\<And>i s. P (with_storage i s sf_new)"
  shows "all_buffers P w'"
  using assms
  by (auto simp: wb_open_def fb_new_def with_storage_def intro: all_buffers_upd
      split: option.splits sum.splits io_outcome.splits)

lemma wb_step_inv: "wb_step w w' \<Longrightarrow> wb_inv w \<Longrightarrow> wb_inv w'"
proof (induction rule: wb_step.induct)
  case (opened t fh ino orig w r w')
  then show ?case by (rule wb_open_all) (simp add: bounded_len_def with_storage_def)
next
  case (written out fh off bs w r w')
  from written(1) show ?case
  proof (cases rule: wb_write_cases)
    case (present b q b')
    then show ?thesis
      using all_buffersD [OF written(2) present(1)] spool.fb_write_bounded spool.fb_write_valid
      by (auto intro!: all_buffers_upd written(2))
  qed (use written in simp)
qed (simp_all add: wb_remove wb_close_def)

lemma wb_write_InrE:
  assumes "wb_write out fh off bs w = (Inr n, w')"
  obtains b b' where "wb_buffers w fh = Some b" "fb_write_at sf_write out off bs b = (Inr n, b')"
    "w' = w\<lparr>wb_buffers := (wb_buffers w)(fh \<mapsto> b')\<rparr>"
  using assms by (auto elim!: wb_write_cases split: sum.splits)

lemma wb_write_exact:
  assumes "wb_exact w" and "wb_write out fh off bs w = (Inr n, w')"
  shows "wb_exact w'"
  using assms(2)
proof (cases rule: wb_write_InrE)
  case (1 b b')
  note b = all_buffersD [OF assms(1) 1(1)]
  have "sf_wf (fb_file b') \<and> exact_len sf_content b'"
    using b spool.fb_write_valid [OF _ 1(2)] spool.fb_write_exact(2) [OF _ _ 1(2)] by blast
  then show ?thesis using all_buffers_upd [OF assms(1)] 1(3) by simp
qed

section \<open>Properties\<close>

text \<open>
  C19. A write that succeeds is \<open>pwrite\<close> on the bytes of its file handle: a gap reads as
  zeros, an empty write changes nothing, every other handle keeps its bytes, the reported
  count is the length (as a \<open>u32\<close>), and the spool file stays exactly as long as the
  buffer says.
\<close>

theorem write_is_pwrite:
  assumes "wb_exact w" and "wb_write out fh off bs w = (Inr n, w')"
  shows "\<exists>xs. wb_bytes w fh = Some xs \<and> wb_bytes w' = (wb_bytes w)(fh \<mapsto> pwrite xs (unat off) bs) \<and>
    n = of_nat (length bs) \<and> 0 \<le> sint off \<and> wb_exact w'"
  using assms(2)
proof (cases rule: wb_write_InrE)
  case (1 b b')
  note b = all_buffersD [OF assms(1) 1(1)]
  have "n = of_nat (length bs) \<and> 0 \<le> sint off"
    using 1(2) by (cases rule: fb_write_at_cases) auto
  moreover have "fb_bytes sf_content b' = pwrite (fb_bytes sf_content b) (unat off) bs"
    using b spool.fb_write_exact(1) [OF _ _ 1(2)] by blast
  moreover have "wb_bytes w fh = Some (fb_bytes sf_content b)" by (simp add: wb_bytes_def 1(1))
  ultimately show ?thesis
    using wb_write_exact [OF assms] by (simp add: 1(3))
qed

definition demo_buffers :: write_buffer where
  "demo_buffers = snd (wb_open IoOk 7 2 0 wb_new)"

definition demo_written :: write_buffer where
  "demo_written = snd (wb_write IoOk 7 3 [1, 2] demo_buffers :: (string mount_error + u32) \<times> write_buffer)"

lemmas demo_buffer_defs = demo_buffers_def demo_written_def wb_open_def wb_new_def fb_new_def
  with_storage_def wb_write_def fb_write_at_def u64_try_from_def checked_add_def

lemma demo_buffers_facts:
  "wb_exact demo_buffers" "wb_bytes demo_buffers 7 = Some []" "wb_step\<^sup>*\<^sup>* wb_new demo_buffers"
proof -
  show "wb_exact demo_buffers" and "wb_bytes demo_buffers 7 = Some []"
    by (simp_all add: demo_buffer_defs all_buffers_def exact_len_def wb_bytes_def fb_bytes_def)
  show "wb_step\<^sup>*\<^sup>* wb_new demo_buffers"
    unfolding demo_buffers_def
    by (rule r_into_rtranclp, rule wb_step.opened [where r = "fst (wb_open IoOk 7 2 0 wb_new)"]) simp
qed

lemma demo_written_eq:
  "wb_write IoOk 7 3 [1, 2] demo_buffers = (Inr 2 :: string mount_error + u32, demo_written)"
  by (simp add: demo_buffer_defs)

lemma demo_pwrite: "pwrite [] 3 [1, 2] = [0, 0, 0, 1, 2]"
  by (simp add: pwrite_def upt_conv_Cons)

theorem write_is_pwrite_witness: "wb_exact demo_buffers \<and> wb_bytes demo_written 7 = Some [0, 0, 0, 1, 2]"
  using write_is_pwrite [OF demo_buffers_facts(1) demo_written_eq] demo_buffers_facts(1,2)
  by (auto simp: demo_pwrite)

text \<open>
  After any sequence of opens, writes (failed ones included) and closes, a read returns
  the \<open>pread\<close> of the handle's bytes, nothing for a negative offset, and does not fail
  unless the system does.
\<close>

theorem buffered_read_is_pread:
  assumes "wb_step\<^sup>*\<^sup>* wb_new w" and "wb_bytes w fh = Some xs"
  shows "(\<exists>ys. wb_read IoOk w fh off sz = Inr ys) \<and>
    wb_read out w fh off sz \<in> range Inl \<union>
      {Inr (if sint off < 0 then [] else pread xs (unat off) (unat sz))}"
proof -
  have "wb_inv w"
    using assms(1)
  proof (induction rule: rtranclp_induct)
    case base
    then show ?case by (simp add: all_buffers_def wb_new_def)
  qed (rule wb_step_inv)
  obtain b where b: "wb_buffers w fh = Some b" "xs = fb_bytes sf_content b"
    using assms(2) by (auto simp: wb_bytes_def)
  note inv = all_buffersD [OF \<open>wb_inv w\<close> b(1)]
  obtain ys where "fb_read_at sf_read IoOk b off sz = Inr ys"
    using spool.fb_read_IoOk inv by blast
  moreover have "fb_read_at sf_read out b off sz = Inr zs \<Longrightarrow>
      zs = (if sint off < 0 then [] else pread xs (unat off) (unat sz))" for zs
    using spool.fb_read_correct inv b(2) by blast
  ultimately show ?thesis
    by (auto simp: wb_read_def b(1) split: sum.splits)
qed

theorem buffered_read_is_pread_witness:
  "wb_read IoOk demo_buffers 7 0 4 = (Inr [] :: string mount_error + byte list)"
proof -
  let ?r = "wb_read IoOk demo_buffers 7 0 4 :: string mount_error + byte list"
  have "(\<exists>ys. ?r = Inr ys) \<and> ?r \<in> range Inl \<union> {Inr []}"
    using buffered_read_is_pread [OF demo_buffers_facts(3,2), of 0 4 IoOk] by (simp add: pread_def)
  then show ?thesis by (elim conjE exE UnE) auto
qed

text \<open>
  A write never changes a byte outside its window, whatever fails: not in its own file,
  and not in any other.
\<close>

theorem failed_write_is_contained:
  assumes "wb_inv w" and "wb_write out fh off bs w = (r, w')"
    and "wb_bytes w g = Some xs" and "i < length xs"
    and "g = fh \<longrightarrow> i < unat off \<or> unat off + length bs \<le> i"
  shows "\<exists>ys. wb_bytes w' g = Some ys \<and> ys ! i = xs ! i"
  using assms(2)
proof (cases rule: wb_write_cases)
  case (present b q b')
  then show ?thesis
    using assms(3-5) all_buffersD [OF assms(1) present(1)] spool.fb_write_frame [OF _ _ present(2)]
    by (cases "g = fh") (auto simp: wb_bytes_def)
qed (use assms(3) in simp)

definition demo_failed :: "(string mount_error + u32) \<times> write_buffer" where
  "demo_failed = wb_write (IoFail 1 (IoError OtherIo ''disk full'')) 7 4 [9] demo_written"

theorem failed_write_is_contained_witness:
  "fst demo_failed = Inl (MountIo (IoError OtherIo ''disk full'')) \<and>
   (\<exists>ys. wb_bytes (snd demo_failed) 7 = Some ys \<and> ys ! 3 = 1)"
proof -
  have ex: "wb_exact demo_written"
    by (rule wb_write_exact [OF demo_buffers_facts(1) demo_written_eq])
  have bytes: "wb_bytes demo_written 7 = Some [0, 0, 0, 1, 2]"
    by (simp add: demo_buffer_defs wb_bytes_def fb_bytes_def sf_content_def sf_put_def sf_new_def upt_conv_Cons)
  have "wb_write (IoFail 1 (IoError OtherIo ''disk full'')) 7 4 [9] demo_written =
      (fst demo_failed, snd demo_failed)" by (simp add: demo_failed_def)
  from failed_write_is_contained [OF wb_exact_inv [OF ex] this bytes, of 3]
  have "\<exists>ys. wb_bytes (snd demo_failed) 7 = Some ys \<and> ys ! 3 = 1" by simp
  moreover have "fst demo_failed = Inl (MountIo (IoError OtherIo ''disk full''))"
    by (simp add: demo_failed_def demo_buffer_defs)
  ultimately show ?thesis by blast
qed

end
