(* ===== verification/Fill.thy ===== *)
theory Fill
  imports Sparse_Cache
begin

text \<open>
  \<open>src/src/fill.rs\<close>: the mount's live whole-object downloads. An \<open>Arc<SharedSparseCache>\<close>
  is an address of the heap of shared caches, and \<open>Arc::ptr_eq\<close> is equality of addresses.
  \<open>stop_and_wait\<close> is its first critical section (\<open>begin_stop\<close>) followed by the waits
  (\<open>wait_idle\<close>), each of which finds the state another thread left.
\<close>

type_synonym cache_id = nat
type_synonym cache_heap = "cache_id \<Rightarrow> shared_cache"

record tracker_state =
  live :: "cache_id list"
  stopping :: bool

definition tracker_default :: tracker_state where
  "tracker_default = \<lparr>live = [], stopping = False\<rparr>"

definition register :: "cache_id \<Rightarrow> tracker_state \<Rightarrow> bool \<times> tracker_state" where
  "register c t = (if stopping t then (False, t) else (True, t\<lparr>live := live t @ [c]\<rparr>))"

definition finished :: "cache_id \<Rightarrow> tracker_state \<Rightarrow> tracker_state" where
  "finished c t = t\<lparr>live := filter (\<lambda>l. l \<noteq> c) (live t)\<rparr>"

definition live_count :: "tracker_state \<Rightarrow> nat" where
  "live_count t = length (live t)"

definition request_all :: "cache_id list \<Rightarrow> cache_heap \<Rightarrow> cache_heap" where
  "request_all cs h = fold (\<lambda>c h. h(c := request_stop (h c))) cs h"

definition begin_stop :: "tracker_state \<Rightarrow> cache_heap \<Rightarrow> tracker_state \<times> cache_heap" where
  "begin_stop t h = (t\<lparr>stopping := True\<rparr>, request_all (live t) h)"

text \<open>
  The waiting loop, in milliseconds. Each wake-up of the script is the clock before the
  wait, whether the wait timed out, and the state found on waking. \<open>None\<close>: still waiting.
\<close>

type_synonym wake_up = "nat \<times> bool \<times> tracker_state"

fun wait_idle :: "nat \<Rightarrow> tracker_state \<Rightarrow> wake_up list \<Rightarrow> bool option" where
  "wait_idle deadline t [] = (if live t = [] then Some True else None)"
| "wait_idle deadline t ((now, timed_out, next) # wakes) =
     (if live t = [] then Some True
      else if now > deadline then Some False
      else if timed_out \<and> live next \<noteq> [] then Some False
      else wait_idle deadline next wakes)"

section \<open>Every thread's calls as steps\<close>

record fills =
  fi_tracker :: tracker_state
  fi_heap :: cache_heap

inductive fills_step :: "fills \<Rightarrow> fills \<Rightarrow> bool" where
  registered: "register c (fi_tracker s) = (b, t) \<Longrightarrow> fills_step s (s\<lparr>fi_tracker := t\<rparr>)"
| ended: "fills_step s (s\<lparr>fi_tracker := finished c (fi_tracker s)\<rparr>)"
| teardown: "begin_stop (fi_tracker s) (fi_heap s) = (t, h) \<Longrightarrow>
    fills_step s (s\<lparr>fi_tracker := t, fi_heap := h\<rparr>)"
| cached: "cache_step obj (fi_heap s c) c' \<Longrightarrow>
    fills_step s (s\<lparr>fi_heap := (fi_heap s)(c := c')\<rparr>)"

inductive_cases fills_stepE: "fills_step s s'"

definition fills_init :: "cache_heap \<Rightarrow> fills" where
  "fills_init h = \<lparr>fi_tracker = tracker_default, fi_heap = h\<rparr>"

text \<open>Once teardown has begun, every live fill has been told to stop, and stays told.\<close>

definition told :: "fills \<Rightarrow> bool" where
  "told s \<longleftrightarrow> (stopping (fi_tracker s) \<longrightarrow> (\<forall>c \<in> set (live (fi_tracker s)). sh_stop (fi_heap s c)))"

lemma request_all_stop: "sh_stop (request_all cs h c) \<longleftrightarrow> c \<in> set cs \<or> sh_stop (h c)"
  unfolding request_all_def
  by (induction cs arbitrary: h) (auto simp: request_stop_def)

lemma cache_step_stop: "cache_step obj s s' \<Longrightarrow> sh_stop s \<Longrightarrow> sh_stop s'"
  by (erule cache_step.cases)
    (auto simp: shared_defs write_sequential_def sh_write_at_def
      split: if_splits prod.splits fill_state.splits)

lemma fills_step_told: "fills_step s s' \<Longrightarrow> told s \<Longrightarrow> told s'"
  by (erule fills_stepE)
    (auto simp: told_def register_def finished_def begin_stop_def request_all_stop
      intro: cache_step_stop split: if_splits)

lemma fills_step_stopping:
  "fills_step s s' \<Longrightarrow> stopping (fi_tracker s) \<Longrightarrow>
   stopping (fi_tracker s') \<and> set (live (fi_tracker s')) \<subseteq> set (live (fi_tracker s))"
  by (erule fills_stepE) (auto simp: register_def finished_def begin_stop_def split: if_splits)

lemma fills_reach_told:
  assumes "fills_step\<^sup>*\<^sup>* (fills_init h) s"
  shows "told s"
  using assms
proof (induction rule: rtranclp_induct)
  case base
  then show ?case by (simp add: told_def fills_init_def tracker_default_def)
qed (rule fills_step_told)

lemma fills_reach_stopping:
  assumes "fills_step\<^sup>*\<^sup>* s s'" and "stopping (fi_tracker s)"
  shows "stopping (fi_tracker s') \<and> set (live (fi_tracker s')) \<subseteq> set (live (fi_tracker s))"
  using assms(1)
proof (induction rule: rtranclp_induct)
  case (step s1 s2)
  then show ?case using fills_step_stopping by blast
qed (simp add: assms(2))

lemma stopped_fill_cancels:
  "sh_stop s \<Longrightarrow> fr_outcome (fill_loop msg lost tot stopz turns off wfail s) = Stopped \<and>
    fr_cancelled (fill_loop msg lost tot stopz turns off wfail s) \<and>
    fr_left (fill_loop msg lost tot stopz turns off wfail s) = turns"
  by (cases turns)
    (auto simp: Let_def raise_stop_def stop_requested_def request_stop_def)

lemma finished_live: "set (live (finished c t)) = set (live t) - {c}"
  by (auto simp: finished_def)

lemma wait_idle_True:
  "wait_idle deadline t wakes = Some True \<Longrightarrow>
   \<exists>t' \<in> set (t # map (snd \<circ> snd) wakes). live t' = []"
  by (induction deadline t wakes rule: wait_idle.induct) (auto split: if_splits)

section \<open>Properties\<close>

text \<open>
  C35. Once teardown has begun, no download is ever registered again, and every download still
  live is cancelled, not dropped, at its next chunk boundary, without pulling another chunk.
\<close>

theorem teardown_cancels_live_fills:
  assumes "fills_step\<^sup>*\<^sup>* (fills_init h) s" and "stopping (fi_tracker s)"
    and "fills_step\<^sup>*\<^sup>* s s'"
  shows "\<not> fst (register c (fi_tracker s')) \<and>
    (\<forall>c \<in> set (live (fi_tracker s')). fr_outcome (fill_loop msg lost tot stopz turns off wfail (fi_heap s' c)) = Stopped \<and>
       fr_cancelled (fill_loop msg lost tot stopz turns off wfail (fi_heap s' c)) \<and>
       fr_left (fill_loop msg lost tot stopz turns off wfail (fi_heap s' c)) = turns)"
proof -
  have "stopping (fi_tracker s')" using fills_reach_stopping [OF assms(3,2)] by blast
  moreover have "told s'" using assms(1,3) by (intro fills_reach_told) (rule rtranclp_trans)
  ultimately show ?thesis by (auto simp: register_def told_def stopped_fill_cancels)
qed

definition demo_fills :: fills where
  "demo_fills = (fills_init (\<lambda>_. demo_started))\<lparr>fi_tracker := \<lparr>live = [5], stopping = False\<rparr>\<rparr>"

definition demo_torn_down :: fills where
  "demo_torn_down = (case begin_stop (fi_tracker demo_fills) (fi_heap demo_fills) of
     (t, h) \<Rightarrow> demo_fills\<lparr>fi_tracker := t, fi_heap := h\<rparr>)"

lemma demo_torn_down_reach: "fills_step\<^sup>*\<^sup>* (fills_init (\<lambda>_. demo_started)) demo_torn_down"
proof -
  have "fills_step (fills_init (\<lambda>_. demo_started)) demo_fills"
    unfolding demo_fills_def
    by (rule fills_step.registered [of 5 _ True])
      (simp add: fills_init_def tracker_default_def register_def)
  moreover have "fills_step demo_fills demo_torn_down"
    by (auto simp: demo_torn_down_def intro: fills_step.teardown split: prod.splits)
  ultimately show ?thesis by (rule rtranclp_trans [OF r_into_rtranclp r_into_rtranclp])
qed

theorem teardown_cancels_live_fills_witness:
  "5 \<in> set (live (fi_tracker demo_torn_down)) \<and>
   fr_cancelled (fill_loop id (\<lambda>_. False) 3 False demo_fill 0 None (fi_heap demo_torn_down 5))"
proof -
  have live: "stopping (fi_tracker demo_torn_down)" "5 \<in> set (live (fi_tracker demo_torn_down))"
    by (simp_all add: demo_torn_down_def demo_fills_def begin_stop_def)
  from teardown_cancels_live_fills [OF demo_torn_down_reach live(1) rtranclp.rtrancl_refl] live(2)
  show ?thesis by blast
qed

text \<open>
  \<open>stop_and_wait\<close> answers \<open>True\<close> only when it has seen a moment with no download in
  flight after teardown began, and from that moment on there never is one again: the
  runtime the fills ran on may be dropped.
\<close>

theorem stop_and_wait_true_is_final:
  assumes "wait_idle deadline (fi_tracker s0) (map (\<lambda>(now, out, s). (now, out, fi_tracker s)) wakes) = Some True"
    and "stopping (fi_tracker s0)"
    and "list_all (\<lambda>(now, out, s). fills_step\<^sup>*\<^sup>* s0 s \<and> fills_step\<^sup>*\<^sup>* s s') wakes"
    and "fills_step\<^sup>*\<^sup>* s0 s'"
  shows "live_count (fi_tracker s') = 0 \<and> \<not> fst (register c (fi_tracker s'))"
proof -
  obtain t where t: "t \<in> set (fi_tracker s0 # map (snd \<circ> snd) (map (\<lambda>(now, out, s). (now, out, fi_tracker s)) wakes))"
      "live t = []"
    using wait_idle_True [OF assms(1)] by blast
  then obtain s where s: "fi_tracker s = t" "fills_step\<^sup>*\<^sup>* s0 s" "fills_step\<^sup>*\<^sup>* s s'"
    using assms(3,4) by (auto simp: list_all_iff)
  then have "stopping (fi_tracker s)" using fills_reach_stopping assms(2) by blast
  with s t(2) have "stopping (fi_tracker s')" "live (fi_tracker s') = []"
    using fills_reach_stopping [OF s(3)] by auto
  then show ?thesis by (simp add: live_count_def register_def)
qed

definition demo_ended :: fills where
  "demo_ended = demo_torn_down\<lparr>fi_tracker := finished 5 (fi_tracker demo_torn_down)\<rparr>"

theorem stop_and_wait_true_is_final_witness:
  "wait_idle 100 (fi_tracker demo_torn_down) [(10, False, fi_tracker demo_ended)] = Some True \<and>
   live_count (fi_tracker demo_ended) = 0"
proof -
  have w: "wait_idle 100 (fi_tracker demo_torn_down) [(10, False, fi_tracker demo_ended)] = Some True"
    and st: "stopping (fi_tracker demo_torn_down)"
    by (simp_all add: demo_ended_def demo_torn_down_def demo_fills_def begin_stop_def finished_def)
  have step: "fills_step\<^sup>*\<^sup>* demo_torn_down demo_ended"
    unfolding demo_ended_def by (rule r_into_rtranclp) (rule fills_step.ended)
  have "live_count (fi_tracker demo_ended) = 0 \<and> \<not> fst (register 0 (fi_tracker demo_ended))"
    by (rule stop_and_wait_true_is_final [of 100 demo_torn_down "[(10, False, demo_ended)]"])
      (use w st step in auto)
  with w show ?thesis by blast
qed

end
