(* ===== verification/Inode.thy ===== *)
theory Inode
  imports Prelude
begin

text \<open>
  \<open>src/src/inode.rs\<close>: the table that maps FUSE inode numbers to MTP objects, with its two
  indexes (names and children) and the link generation that marks a cached handle as stale.

  The three hash maps are partial maps. \<open>find_parent_by_handle\<close> iterates one, so it takes
  the iteration order as an argument. Inode numbers are 64-bit words and wrap; the invariant
  is kept as long as fewer than \<open>2 ^ 64\<close> numbers were handed out (\<open>room\<close>).
\<close>

section \<open>Entries and tables\<close>

type_synonym object_handle = u64
type_synonym storage_id = u64
type_synonym inode = u64

text \<open>\<open>SystemTime\<close>, in nanoseconds since the epoch.\<close>

type_synonym time = int

datatype inode_kind = Root | Storage storage_id | Directory object_handle | File object_handle

record inode_entry =
  ie_inode :: inode
  ie_parent :: inode
  ie_name :: string
  ie_kind :: inode_kind
  ie_size :: u64
  ie_mtime :: time
  ie_atime :: time
  ie_generation :: u64

definition is_dir :: "inode_entry \<Rightarrow> bool" where
  "is_dir e = (case ie_kind e of File _ \<Rightarrow> False | _ \<Rightarrow> True)"

record inode_table =
  entries :: "inode \<rightharpoonup> inode_entry"
  name_index :: "inode \<times> string \<rightharpoonup> inode"
  children_index :: "inode \<rightharpoonup> inode list"
  next_inode :: inode
  generation :: u64

record child_info =
  ci_handle :: object_handle
  ci_name :: string
  ci_is_dir :: bool
  ci_size :: u64
  ci_mtime :: time

definition ROOT_INODE :: inode where
  "ROOT_INODE = 1"

definition it_new :: inode_table where
  "it_new =
     \<lparr>entries = [ROOT_INODE \<mapsto>
        \<lparr>ie_inode = ROOT_INODE, ie_parent = ROOT_INODE, ie_name = '''', ie_kind = Root, ie_size = 0,
         ie_mtime = 0, ie_atime = 0, ie_generation = 0\<rparr>],
      name_index = Map.empty, children_index = Map.empty, next_inode = 2, generation = 0\<rparr>"

section \<open>Operations\<close>

definition bump_generation :: "inode_table \<Rightarrow> inode_table" where
  "bump_generation t = t\<lparr>generation := generation t + 1\<rparr>"

definition is_fresh :: "inode_table \<Rightarrow> inode \<Rightarrow> bool" where
  "is_fresh t i =
     (case entries t i of
        Some e \<Rightarrow>
          (case ie_kind e of
             Root \<Rightarrow> True
           | Storage _ \<Rightarrow> True
           | Directory _ \<Rightarrow> ie_generation e = generation t
           | File _ \<Rightarrow> ie_generation e = generation t)
      | None \<Rightarrow> False)"

text \<open>\<open>get_mut\<close> followed by an assignment to the entry's fields.\<close>

definition update_entry :: "inode \<Rightarrow> (inode_entry \<Rightarrow> inode_entry) \<Rightarrow> inode_table \<Rightarrow> inode_table" where
  "update_entry i f t =
     (case entries t i of None \<Rightarrow> t | Some e \<Rightarrow> t\<lparr>entries := (entries t)(i \<mapsto> f e)\<rparr>)"

definition set_handle :: "inode \<Rightarrow> object_handle \<Rightarrow> inode_table \<Rightarrow> inode_table" where
  "set_handle i h t =
     update_entry i (\<lambda>e. case ie_kind e of
         Directory _ \<Rightarrow> e\<lparr>ie_kind := Directory h, ie_generation := generation t\<rparr>
       | File _ \<Rightarrow> e\<lparr>ie_kind := File h, ie_generation := generation t\<rparr>
       | _ \<Rightarrow> e) t"

definition set_storage_id :: "inode \<Rightarrow> storage_id \<Rightarrow> inode_table \<Rightarrow> inode_table" where
  "set_storage_id i s t =
     update_entry i (\<lambda>e. case ie_kind e of Storage _ \<Rightarrow> e\<lparr>ie_kind := Storage s\<rparr> | _ \<Rightarrow> e) t"

definition alloc_inode :: "inode_table \<Rightarrow> inode \<times> inode_table" where
  "alloc_inode t = (next_inode t, t\<lparr>next_inode := next_inode t + 1\<rparr>)"

definition lookup :: "inode_table \<Rightarrow> inode \<Rightarrow> string \<Rightarrow> inode option" where
  "lookup t p n = name_index t (p, n)"

definition children :: "inode_table \<Rightarrow> inode \<Rightarrow> inode list" where
  "children t p = (case children_index t p of Some is \<Rightarrow> is | None \<Rightarrow> [])"

definition remove_entry :: "inode \<Rightarrow> inode_table \<Rightarrow> inode_entry option \<times> inode_table" where
  "remove_entry i t =
     (case entries t i of
        None \<Rightarrow> (None, t)
      | Some e \<Rightarrow>
          (let kids = (case children_index t (ie_parent e) of
                 None \<Rightarrow> children_index t
               | Some siblings \<Rightarrow> (children_index t)(ie_parent e \<mapsto> filter (\<lambda>j. j \<noteq> i) siblings))
           in (Some e, t\<lparr>entries := (entries t)(i := None),
                         name_index := (name_index t)((ie_parent e, ie_name e) := None),
                         children_index := kids(i := None)\<rparr>)))"

definition evict_name :: "inode \<Rightarrow> string \<Rightarrow> inode \<Rightarrow> inode_table \<Rightarrow> inode_table" where
  "evict_name p n keep t =
     (case lookup t p n of
        Some old \<Rightarrow> (if old \<noteq> keep then snd (remove_entry old t) else t)
      | None \<Rightarrow> t)"

text \<open>\<open>children_index.entry(parent).or_default().push(ino)\<close>\<close>

definition push_child :: "inode \<Rightarrow> inode \<Rightarrow> inode_table \<Rightarrow> inode_table" where
  "push_child p i t = t\<lparr>children_index := (children_index t)(p \<mapsto> children t p @ [i])\<rparr>"

definition insert_entry :: "inode_entry \<Rightarrow> inode_table \<Rightarrow> inode \<times> inode_table" where
  "insert_entry e t =
     (let t1 = evict_name (ie_parent e) (ie_name e) (ie_inode e) t;
          t2 = t1\<lparr>entries := (entries t1)(ie_inode e \<mapsto> e),
                  name_index := (name_index t1)((ie_parent e, ie_name e) \<mapsto> ie_inode e)\<rparr>
      in (ie_inode e, push_child (ie_parent e) (ie_inode e) t2))"

definition add_storage_at :: "storage_id \<Rightarrow> string \<Rightarrow> time \<Rightarrow> inode_table \<Rightarrow> inode \<times> inode_table" where
  "add_storage_at sid n now t =
     (let (i, t1) = alloc_inode t
      in insert_entry \<lparr>ie_inode = i, ie_parent = ROOT_INODE, ie_name = n, ie_kind = Storage sid,
           ie_size = 0, ie_mtime = now, ie_atime = now, ie_generation = generation t1\<rparr> t1)"

definition add_object ::
  "inode \<Rightarrow> object_handle \<Rightarrow> string \<Rightarrow> bool \<Rightarrow> u64 \<Rightarrow> time \<Rightarrow> inode_table \<Rightarrow> inode \<times> inode_table" where
  "add_object p h n dir sz mtime t =
     (let (i, t1) = alloc_inode t
      in insert_entry \<lparr>ie_inode = i, ie_parent = p, ie_name = n,
           ie_kind = (if dir then Directory h else File h), ie_size = sz, ie_mtime = mtime,
           ie_atime = mtime, ie_generation = generation t1\<rparr> t1)"

definition add_child :: "inode \<Rightarrow> child_info \<Rightarrow> inode_table \<Rightarrow> inode_table" where
  "add_child p c t =
     snd (add_object p (ci_handle c) (ci_name c) (ci_is_dir c) (ci_size c) (ci_mtime c) t)"

definition refresh_child :: "child_info \<Rightarrow> u64 \<Rightarrow> inode_entry \<Rightarrow> inode_entry" where
  "refresh_child c gen e =
     e\<lparr>ie_kind := (if ci_is_dir c then Directory (ci_handle c) else File (ci_handle c)),
       ie_size := ci_size c, ie_mtime := ci_mtime c, ie_generation := gen\<rparr>"

definition sync_child :: "inode \<Rightarrow> child_info \<Rightarrow> inode_table \<Rightarrow> inode_table" where
  "sync_child p c t =
     (case lookup t p (ci_name c) of
        Some i \<Rightarrow>
          (if (case entries t i of Some e \<Rightarrow> is_dir e = ci_is_dir c | None \<Rightarrow> False)
           then update_entry i (refresh_child c (generation t)) t
           else add_child p c (snd (remove_entry i t)))
      | None \<Rightarrow> add_child p c t)"

definition gone_children :: "inode \<Rightarrow> child_info list \<Rightarrow> inode_table \<Rightarrow> inode list" where
  "gone_children p cs t =
     filter (\<lambda>i. case entries t i of
                   Some e \<Rightarrow> \<not> list_ex (\<lambda>c. ci_name c = ie_name e) cs
                 | None \<Rightarrow> False) (children t p)"

definition remove_all :: "inode list \<Rightarrow> inode_table \<Rightarrow> inode_table" where
  "remove_all is t = fold (\<lambda>i t. snd (remove_entry i t)) is t"

definition sync_children :: "inode \<Rightarrow> child_info list \<Rightarrow> inode_table \<Rightarrow> inode_table" where
  "sync_children p cs t =
     (let t1 = fold (sync_child p) cs t in remove_all (gone_children p cs t1) t1)"

definition rename_entry :: "inode \<Rightarrow> inode \<Rightarrow> string \<Rightarrow> inode_table \<Rightarrow> inode_table" where
  "rename_entry i p n t =
     (if entries t i = None then t
      else
        (let t1 = evict_name p n i t in
         case entries t1 i of
           None \<Rightarrow> t1
         | Some e \<Rightarrow>
             (let t2 = t1\<lparr>entries := (entries t1)(i \<mapsto> e\<lparr>ie_parent := p, ie_name := n\<rparr>),
                name_index := ((name_index t1)((ie_parent e, ie_name e) := None))((p, n) \<mapsto> i),
                children_index := (case children_index t1 (ie_parent e) of
                    None \<Rightarrow> children_index t1
                  | Some siblings \<Rightarrow>
                      (children_index t1)(ie_parent e \<mapsto> filter (\<lambda>j. j \<noteq> i) siblings))\<rparr>
              in push_child p i t2)))"

definition has_handle :: "object_handle \<Rightarrow> inode_entry \<Rightarrow> bool" where
  "has_handle h e = (case ie_kind e of File h' \<Rightarrow> h' = h | Directory h' \<Rightarrow> h' = h | _ \<Rightarrow> False)"

fun find_parent_by_handle :: "inode list \<Rightarrow> inode_table \<Rightarrow> object_handle \<Rightarrow> inode option" where
  "find_parent_by_handle [] t h = None"
| "find_parent_by_handle (i # order) t h =
     (case entries t i of
        Some e \<Rightarrow> (if has_handle h e then Some (ie_parent e) else find_parent_by_handle order t h)
      | None \<Rightarrow> find_parent_by_handle order t h)"

section \<open>The table's invariant\<close>

definition sits :: "inode_table \<Rightarrow> inode \<Rightarrow> string \<Rightarrow> inode \<Rightarrow> bool" where
  "sits t p n i \<longleftrightarrow> i \<noteq> ROOT_INODE \<and> (\<exists>e. entries t i = Some e \<and> ie_parent e = p \<and> ie_name e = n)"

definition child_of :: "inode_table \<Rightarrow> inode \<Rightarrow> inode \<Rightarrow> bool" where
  "child_of t p i \<longleftrightarrow> (\<exists>n. sits t p n i)"

text \<open>
  The name index is exact, the listing of every entry is exactly its children, without
  repetition, and every number in use was handed out. An entry whose directory was removed
  keeps its name but is listed nowhere (\<open>remove\<close> does not descend).
\<close>

definition tab_wf :: "inode_table \<Rightarrow> bool" where
  "tab_wf t \<longleftrightarrow>
     (\<forall>i e. entries t i = Some e \<longrightarrow> ie_inode e = i \<and> i < next_inode t \<and>
        ie_parent e < next_inode t \<and> (ie_kind e = Root \<longrightarrow> i = ROOT_INODE)) \<and>
     (\<exists>r. entries t ROOT_INODE = Some r \<and> ie_kind r = Root) \<and>
     (\<forall>p n i. lookup t p n = Some i \<longleftrightarrow> sits t p n i) \<and>
     (\<forall>p. distinct (children t p) \<and> set (children t p) \<subseteq> Collect (child_of t p) \<and>
          (entries t p \<noteq> None \<longrightarrow> Collect (child_of t p) \<subseteq> set (children t p)))"

lemma tab_wfI:
  assumes "\<And>i e. entries t i = Some e \<Longrightarrow>
      ie_inode e = i \<and> i < next_inode t \<and> ie_parent e < next_inode t \<and> (ie_kind e = Root \<longrightarrow> i = ROOT_INODE)"
    and "\<exists>r. entries t ROOT_INODE = Some r \<and> ie_kind r = Root"
    and "\<And>p n i. lookup t p n = Some i \<longleftrightarrow> sits t p n i"
    and "\<And>p. distinct (children t p)"
    and "\<And>p i. i \<in> set (children t p) \<Longrightarrow> child_of t p i"
    and "\<And>p i. entries t p \<noteq> None \<Longrightarrow> child_of t p i \<Longrightarrow> i \<in> set (children t p)"
  shows "tab_wf t"
  using assms unfolding tab_wf_def by blast

lemma tab_wf_entry: "tab_wf t \<Longrightarrow> entries t i = Some e \<Longrightarrow>
  ie_inode e = i \<and> i < next_inode t \<and> ie_parent e < next_inode t \<and> (ie_kind e = Root \<longrightarrow> i = ROOT_INODE)"
  by (simp add: tab_wf_def)

lemma tab_wf_root: "tab_wf t \<Longrightarrow> \<exists>r. entries t ROOT_INODE = Some r \<and> ie_kind r = Root"
  by (simp add: tab_wf_def)

lemma tab_wf_lookup: "tab_wf t \<Longrightarrow> lookup t p n = Some i \<longleftrightarrow> sits t p n i"
  by (simp add: tab_wf_def)

lemma tab_wf_distinct: "tab_wf t \<Longrightarrow> distinct (children t p)"
  by (simp add: tab_wf_def)

lemma tab_wf_child: "tab_wf t \<Longrightarrow> i \<in> set (children t p) \<Longrightarrow> child_of t p i"
  by (auto simp: tab_wf_def)

lemma tab_wf_listed: "tab_wf t \<Longrightarrow> entries t p \<noteq> None \<Longrightarrow> child_of t p i \<Longrightarrow> i \<in> set (children t p)"
  by (auto simp: tab_wf_def)

lemmas tab_wf_facts = tab_wf_entry tab_wf_root tab_wf_lookup tab_wf_distinct tab_wf_child tab_wf_listed

lemma lookup_None: "tab_wf t \<Longrightarrow> lookup t p n = None \<longleftrightarrow> \<not> (\<exists>i. sits t p n i)"
  by (metis not_Some_eq tab_wf_lookup)

lemma sits_unique: "tab_wf t \<Longrightarrow> sits t p n i \<Longrightarrow> sits t p n j \<Longrightarrow> i = j"
  by (metis option.inject tab_wf_lookup)

lemma sits_place: "sits t p n i \<Longrightarrow> sits t q m i \<Longrightarrow> q = p \<and> m = n"
  by (auto simp: sits_def)

lemma tab_wf_new: "tab_wf it_new"
  by (rule tab_wfI) (auto simp: it_new_def lookup_def children_def sits_def child_of_def ROOT_INODE_def
      split: if_splits)

subsection \<open>Removal\<close>

lemma remove_obs:
  assumes "entries t i = Some e"
  shows "fst (remove_entry i t) = Some e"
    and "entries (snd (remove_entry i t)) = (entries t)(i := None)"
    and "lookup (snd (remove_entry i t)) q m =
      (if q = ie_parent e \<and> m = ie_name e then None else lookup t q m)"
    and "children (snd (remove_entry i t)) q =
      (if q = i then [] else if q = ie_parent e then filter (\<lambda>j. j \<noteq> i) (children t q) else children t q)"
    and "next_inode (snd (remove_entry i t)) = next_inode t"
    and "generation (snd (remove_entry i t)) = generation t"
  using assms by (auto simp: remove_entry_def lookup_def children_def Let_def split: option.splits)

lemma remove_None [simp]: "entries t i = None \<Longrightarrow> remove_entry i t = (None, t)"
  by (simp add: remove_entry_def)

lemma remove_sits:
  "entries t i = Some e \<Longrightarrow> sits (snd (remove_entry i t)) p n j \<longleftrightarrow> j \<noteq> i \<and> sits t p n j"
  by (auto simp: sits_def remove_obs)

lemma remove_child_of:
  "entries t i = Some e \<Longrightarrow> child_of (snd (remove_entry i t)) p j \<longleftrightarrow> j \<noteq> i \<and> child_of t p j"
  by (auto simp: child_of_def remove_sits)

lemma remove_wf:
  assumes wf: "tab_wf t" and "i \<noteq> ROOT_INODE"
  shows "tab_wf (snd (remove_entry i t))"
proof (cases "entries t i")
  case (Some e)
  note [simp] = remove_obs [OF Some] remove_sits [OF Some] remove_child_of [OF Some]
  have at: "sits t (ie_parent e) (ie_name e) i" using Some assms(2) by (auto simp: sits_def)
  have at_only: "child_of t q i \<Longrightarrow> q = ie_parent e" for q
    using Some by (auto simp: child_of_def sits_def)
  show ?thesis
  proof (rule tab_wfI, goal_cases)
    case (1 j f)
    then show ?case using tab_wf_entry [OF wf] by (auto split: if_splits)
  next
    case 2
    then show ?case using tab_wf_root [OF wf] assms(2) by auto
  next
    case (3 q n j)
    have "sits t q n i \<Longrightarrow> q = ie_parent e \<and> n = ie_name e" using at by (rule sits_place)
    then show ?case
      using tab_wf_lookup [OF wf, of q n j] sits_unique [OF wf at, of j]
      by (cases "q = ie_parent e \<and> n = ie_name e") auto
  next
    case (4 q)
    then show ?case using tab_wf_distinct [OF wf] by simp
  next
    case (5 q j)
    then show ?case using tab_wf_child [OF wf] at_only by (auto split: if_splits)
  next
    case (6 q j)
    then show ?case using tab_wf_listed [OF wf] by (auto split: if_splits)
  qed
qed (use wf in simp)

subsection \<open>Making a name free\<close>

definition evict_spec :: "inode \<Rightarrow> string \<Rightarrow> inode \<Rightarrow> inode_table \<Rightarrow> inode_table \<Rightarrow> bool" where
  "evict_spec p n keep t t' \<longleftrightarrow> tab_wf t' \<and>
     (\<forall>q m j. sits t' q m j \<longleftrightarrow> sits t q m j \<and> (sits t p n j \<longrightarrow> j = keep)) \<and>
     (\<forall>j. entries t' j = (if sits t p n j \<and> j \<noteq> keep then None else entries t j)) \<and>
     next_inode t' = next_inode t \<and> generation t' = generation t"

lemma evict_specI:
  assumes wf: "tab_wf t"
  shows "evict_spec p n keep t (evict_name p n keep t)"
proof (cases "lookup t p n")
  case None
  then show ?thesis
    using wf lookup_None [OF wf, of p n] by (simp add: evict_spec_def evict_name_def None)
next
  case (Some old)
  then have old: "sits t p n old" by (simp add: tab_wf_lookup wf)
  then obtain e where e: "entries t old = Some e" "old \<noteq> ROOT_INODE" by (auto simp: sits_def)
  have "sits t p n j \<longleftrightarrow> j = old" for j using sits_unique [OF wf old] old by blast
  then show ?thesis
    using wf remove_wf [OF wf e(2)] remove_obs [OF e(1)] remove_sits [OF e(1)]
    by (cases "old = keep") (auto simp: evict_spec_def evict_name_def Some)
qed

lemma evict_obs:
  assumes "tab_wf t"
  shows "tab_wf (evict_name p n keep t)"
    and "sits (evict_name p n keep t) q m j \<longleftrightarrow> sits t q m j \<and> (sits t p n j \<longrightarrow> j = keep)"
    and "entries (evict_name p n keep t) j = (if sits t p n j \<and> j \<noteq> keep then None else entries t j)"
    and "next_inode (evict_name p n keep t) = next_inode t"
    and "generation (evict_name p n keep t) = generation t"
  using evict_specI [OF assms, of p n keep] unfolding evict_spec_def by blast+

lemma evict_lookup:
  assumes wf: "tab_wf t" and other: "\<not> (q = p \<and> m = n)"
  shows "lookup (evict_name p n keep t) q m = lookup t q m"
proof -
  note ev = evict_obs [OF wf, of p n keep]
  have "sits t q m j \<Longrightarrow> \<not> sits t p n j" for j using other sits_place by blast
  then show ?thesis
    by (intro option_ext) (auto simp: tab_wf_lookup [OF wf] tab_wf_lookup [OF ev(1)] ev(2))
qed

lemma evict_child_of:
  "tab_wf t \<Longrightarrow> child_of (evict_name p n keep t) q j \<longleftrightarrow> child_of t q j \<and> (sits t p n j \<longrightarrow> j = keep)"
  by (auto simp: child_of_def evict_obs)

subsection \<open>Placing and moving an entry\<close>

text \<open>
  \<open>i\<close> ends up alone at \<open>(p, n)\<close> as entry \<open>e\<close>; whatever else was there is gone; nothing else
  moved.
\<close>

definition placed :: "inode \<Rightarrow> inode_entry \<Rightarrow> inode_table \<Rightarrow> inode_table \<Rightarrow> bool" where
  "placed i e t t' \<longleftrightarrow>
     (\<forall>j. entries t' j =
        (if j = i then Some e else if sits t (ie_parent e) (ie_name e) j then None else entries t j)) \<and>
     (\<forall>q m. lookup t' q m =
        (if q = ie_parent e \<and> m = ie_name e then Some i
         else if sits t q m i then None else lookup t q m)) \<and>
     next_inode t' = next_inode t \<and> generation t' = generation t"

lemma placed_sits:
  assumes "placed i e t t'" and "i \<noteq> ROOT_INODE"
  shows "sits t' q m j \<longleftrightarrow>
    (if j = i then q = ie_parent e \<and> m = ie_name e
     else sits t q m j \<and> \<not> (q = ie_parent e \<and> m = ie_name e))"
  using assms by (auto simp: placed_def sits_def)

lemma placed_evict_sits:
  assumes wf: "tab_wf t" and pl: "placed i e t t'" and root: "i \<noteq> ROOT_INODE" and j: "j \<noteq> i"
  shows "sits t' q m j \<longleftrightarrow> sits (evict_name (ie_parent e) (ie_name e) i t) q m j"
  unfolding placed_sits [OF pl root] evict_obs(2) [OF wf] using j by (auto dest: sits_place)

lemma placed_child_of:
  assumes "tab_wf t" and "placed i e t t'" and "i \<noteq> ROOT_INODE"
  shows "child_of t' q j \<longleftrightarrow>
    (if j = i then q = ie_parent e else child_of (evict_name (ie_parent e) (ie_name e) i t) q j)"
  using placed_evict_sits [OF assms] placed_sits [OF assms(2,3)] by (auto simp: child_of_def)

text \<open>What the listings must look like for the moved table to be well-formed.\<close>

lemma placed_wf:
  assumes wf: "tab_wf t" and pl: "placed i e t t'" and root: "i \<noteq> ROOT_INODE" "ie_kind e \<noteq> Root"
    and e: "ie_inode e = i" "i < next_inode t" "ie_parent e < next_inode t"
    and kids: "\<And>q. distinct (children t' q)"
      "\<And>q j. j \<in> set (children t' q) \<Longrightarrow> child_of t' q j"
      "\<And>q j. entries t' q \<noteq> None \<Longrightarrow> child_of t' q j \<Longrightarrow> j \<in> set (children t' q)"
  shows "tab_wf t'"
proof (rule tab_wfI)
  show "ie_inode f = j \<and> j < next_inode t' \<and> ie_parent f < next_inode t' \<and>
      (ie_kind f = Root \<longrightarrow> j = ROOT_INODE)" if "entries t' j = Some f" for j f
    using that pl e root tab_wf_entry [OF wf, of j f] by (auto simp: placed_def split: if_splits)
  show "\<exists>r. entries t' ROOT_INODE = Some r \<and> ie_kind r = Root"
    using tab_wf_root [OF wf] pl root by (auto simp: placed_def sits_def)
  show "lookup t' q m = Some j \<longleftrightarrow> sits t' q m j" for q m j
    using pl tab_wf_lookup [OF wf, of q m] sits_unique [OF wf, of q m i j]
    by (auto simp: placed_sits [OF pl root(1)] placed_def)
qed (use kids in auto)

lemma push_child_obs [simp]:
  "entries (push_child p i t) = entries t" "lookup (push_child p i t) = lookup t"
  "children (push_child p i t) q = (if q = p then children t p @ [i] else children t q)"
  "next_inode (push_child p i t) = next_inode t" "generation (push_child p i t) = generation t"
  by (auto simp: push_child_def children_def lookup_def fun_eq_iff)

lemma insert_entry_placed:
  assumes wf: "tab_wf t" and new: "entries t i = None" "ie_inode e = i" "i \<noteq> ROOT_INODE"
  shows "placed i e t (snd (insert_entry e t))"
proof -
  let ?t1 = "evict_name (ie_parent e) (ie_name e) i t"
  note ev = evict_obs [OF wf, of "ie_parent e" "ie_name e" i]
  have no: "\<not> sits t q m i" for q m using new(1) by (simp add: sits_def)
  have "lookup (push_child p i (t1\<lparr>entries := es, name_index := (name_index t1)((q, m) \<mapsto> i)\<rparr>)) =
      (\<lambda>q' m'. if q' = q \<and> m' = m then Some i else lookup t1 q' m')" for p t1 es q m
    by (auto simp: lookup_def fun_eq_iff)
  then show ?thesis
    by (auto simp: placed_def insert_entry_def new(2) ev Let_def no evict_lookup [OF wf])
qed

lemma insert_entry_wf:
  assumes wf: "tab_wf t" and new: "entries t i = None" "ie_inode e = i" "i \<noteq> ROOT_INODE"
    and e: "ie_kind e \<noteq> Root" "i < next_inode t" "ie_parent e < next_inode t" "\<And>j. \<not> child_of t i j"
  shows "tab_wf (snd (insert_entry e t))"
proof -
  let ?t' = "snd (insert_entry e t)" and ?t1 = "evict_name (ie_parent e) (ie_name e) i t"
  note pl = insert_entry_placed [OF wf new]
  note ev = evict_obs [OF wf, of "ie_parent e" "ie_name e" i]
  have kids: "children ?t' q = (if q = ie_parent e then children ?t1 q @ [i] else children ?t1 q)" for q
    by (simp add: insert_entry_def Let_def new(2) children_def push_child_def)
  have no: "\<not> sits t q m i" for q m using new(1) by (simp add: sits_def)
  note child = placed_child_of [OF wf pl new(3)]
  have "i \<notin> set (children ?t1 q)" for q
    using tab_wf_child [OF ev(1)] no by (auto simp: child_of_def ev(2))
  moreover have "entries ?t' q \<noteq> None \<Longrightarrow> q = i \<or> entries ?t1 q \<noteq> None" for q
    using pl no by (auto simp: placed_def ev(3) split: if_splits)
  moreover have "\<not> child_of ?t1 i j" for j
    using e(4) by (simp add: evict_child_of wf)
  ultimately have "j \<in> set (children ?t1 q)" if "entries ?t' q \<noteq> None" "child_of ?t1 q j" for q j
    using that tab_wf_listed [OF ev(1)] by metis
  with \<open>\<And>q. i \<notin> set (children ?t1 q)\<close> show ?thesis
    using tab_wf_distinct [OF ev(1)] tab_wf_child [OF ev(1)]
    by (intro placed_wf [OF wf pl new(3) e(1) new(2) e(2,3)]) (auto simp: kids child split: if_splits)
qed

text \<open>Handing out a number: the new one is unused, and nothing names it as a parent.\<close>

definition room :: "nat \<Rightarrow> inode_table \<Rightarrow> bool" where
  "room n t \<longleftrightarrow> unat (next_inode t) + n < 2 ^ 64"

lemma next_room: "room (Suc n) t \<Longrightarrow> unat (next_inode t + 1) = unat (next_inode t) + 1"
  by (simp add: room_def unat_word_ariths)

lemma next_fresh:
  assumes "tab_wf t"
  shows "entries t (next_inode t) = None" and "\<not> child_of t (next_inode t) j"
    and "next_inode t \<noteq> ROOT_INODE"
proof -
  show "entries t (next_inode t) = None"
    using tab_wf_entry [OF assms, of "next_inode t"] by (cases "entries t (next_inode t)") auto
  then show "next_inode t \<noteq> ROOT_INODE" using tab_wf_root [OF assms] by auto
  show "\<not> child_of t (next_inode t) j"
    using tab_wf_entry [OF assms] unfolding child_of_def sits_def by force
qed

lemma next_inode_upd [simp]:
  "entries (t\<lparr>next_inode := k\<rparr>) = entries t" "lookup (t\<lparr>next_inode := k\<rparr>) = lookup t"
  "children (t\<lparr>next_inode := k\<rparr>) = children t" "sits (t\<lparr>next_inode := k\<rparr>) = sits t"
  "child_of (t\<lparr>next_inode := k\<rparr>) = child_of t"
  by (auto simp: lookup_def children_def sits_def child_of_def fun_eq_iff)

lemma tab_wf_next: "tab_wf t \<Longrightarrow> next_inode t \<le> k \<Longrightarrow> tab_wf (t\<lparr>next_inode := k\<rparr>)"
  by (rule tab_wfI) (auto simp: tab_wf_facts dest: tab_wf_entry tab_wf_child intro: less_le_trans)

definition child_entry :: "inode \<Rightarrow> child_info \<Rightarrow> inode \<Rightarrow> u64 \<Rightarrow> inode_entry" where
  "child_entry p c i gen =
     \<lparr>ie_inode = i, ie_parent = p, ie_name = ci_name c,
      ie_kind = (if ci_is_dir c then Directory (ci_handle c) else File (ci_handle c)),
      ie_size = ci_size c, ie_mtime = ci_mtime c, ie_atime = ci_mtime c, ie_generation = gen\<rparr>"

lemma child_entry_sel [simp]:
  "ie_inode (child_entry p c i gen) = i" "ie_parent (child_entry p c i gen) = p"
  "ie_name (child_entry p c i gen) = ci_name c" "ie_kind (child_entry p c i gen) \<noteq> Root"
  by (simp_all add: child_entry_def)

lemma new_number:
  assumes wf: "tab_wf t" and rm: "room 1 t" and e: "ie_inode e = next_inode t" "ie_kind e \<noteq> Root"
    and p: "ie_parent e < next_inode t"
  shows "tab_wf (snd (insert_entry e (t\<lparr>next_inode := next_inode t + 1\<rparr>)))"
    and "placed (next_inode t) e (t\<lparr>next_inode := next_inode t + 1\<rparr>)
      (snd (insert_entry e (t\<lparr>next_inode := next_inode t + 1\<rparr>)))"
proof -
  have up: "unat (next_inode t + 1) = unat (next_inode t) + 1" using next_room [of 0] rm by simp
  then have lt: "next_inode t < next_inode t + 1" "ie_parent e < next_inode t + 1"
    using p by (simp_all add: word_less_unat)
  then have wf': "tab_wf (t\<lparr>next_inode := next_inode t + 1\<rparr>)" by (intro tab_wf_next wf) simp
  note fresh = next_fresh [OF wf]
  show "placed (next_inode t) e (t\<lparr>next_inode := next_inode t + 1\<rparr>)
      (snd (insert_entry e (t\<lparr>next_inode := next_inode t + 1\<rparr>)))"
    using fresh e by (intro insert_entry_placed wf') auto
  show "tab_wf (snd (insert_entry e (t\<lparr>next_inode := next_inode t + 1\<rparr>)))"
    using fresh e lt by (intro insert_entry_wf [OF wf' _ e(1) fresh(3) e(2)]) auto
qed

lemma add_child_eq:
  "add_child p c t = snd (insert_entry (child_entry p c (next_inode t) (generation t))
     (t\<lparr>next_inode := next_inode t + 1\<rparr>))"
  by (simp add: add_child_def add_object_def alloc_inode_def child_entry_def)

lemma add_child_wf:
  assumes "tab_wf t" "room 1 t" "p < next_inode t"
  shows "tab_wf (add_child p c t)"
    and "placed (next_inode t) (child_entry p c (next_inode t) (generation t))
      (t\<lparr>next_inode := next_inode t + 1\<rparr>) (add_child p c t)"
  unfolding add_child_eq using assms by (auto intro: new_number)

lemma add_object_wf:
  assumes "tab_wf t" "room 1 t" "p < next_inode t"
  shows "tab_wf (snd (add_object p h n dir sz mtime t))"
  using add_child_wf(1) [OF assms, of "\<lparr>ci_handle = h, ci_name = n, ci_is_dir = dir, ci_size = sz, ci_mtime = mtime\<rparr>"]
  by (simp add: add_child_def)

lemma add_storage_wf:
  assumes "tab_wf t" "room 1 t"
  shows "tab_wf (snd (add_storage_at sid n now t))"
proof -
  obtain r where "entries t ROOT_INODE = Some r" using tab_wf_root [OF assms(1)] by blast
  then have "ROOT_INODE < next_inode t" using tab_wf_entry [OF assms(1)] by blast
  then show ?thesis
    using assms by (auto simp: add_storage_at_def alloc_inode_def intro!: new_number(1))
qed

text \<open>Moving an entry.\<close>

lemma rename_entry_eq:
  assumes wf: "tab_wf t" and e: "entries t i = Some e" and root: "i \<noteq> ROOT_INODE"
  shows "placed i (e\<lparr>ie_parent := p, ie_name := n\<rparr>) t (rename_entry i p n t)"
    and "children (rename_entry i p n t) q =
      (if q = ie_parent e then filter (\<lambda>j. j \<noteq> i) (children (evict_name p n i t) q)
       else children (evict_name p n i t) q) @ (if q = p then [i] else [])"
proof -
  let ?t1 = "evict_name p n i t"
  note ev = evict_obs [OF wf, of p n i]
  have e1: "entries ?t1 i = Some e" by (simp add: ev e)
  show "children (rename_entry i p n t) q =
      (if q = ie_parent e then filter (\<lambda>j. j \<noteq> i) (children ?t1 q) else children ?t1 q) @
      (if q = p then [i] else [])"
    by (auto simp: rename_entry_def e e1 Let_def push_child_def children_def split: option.splits)
  have look: "lookup (rename_entry i p n t) q m =
      (if q = p \<and> m = n then Some i else if q = ie_parent e \<and> m = ie_name e then None else lookup ?t1 q m)"
    for q m
    by (simp add: rename_entry_def e e1 Let_def push_child_def lookup_def)
  have at: "sits t q m i \<longleftrightarrow> q = ie_parent e \<and> m = ie_name e" for q m
    using root by (auto simp: sits_def e)
  have ent: "entries (rename_entry i p n t) = (entries ?t1)(i \<mapsto> e\<lparr>ie_parent := p, ie_name := n\<rparr>)"
    "next_inode (rename_entry i p n t) = next_inode t" "generation (rename_entry i p n t) = generation t"
    using ev by (simp_all add: rename_entry_def e e1 Let_def)
  show "placed i (e\<lparr>ie_parent := p, ie_name := n\<rparr>) t (rename_entry i p n t)"
    unfolding placed_def by (simp add: ent look at ev(3) evict_lookup [OF wf])
qed

lemma rename_entry_wf:
  assumes wf: "tab_wf t" and root: "i \<noteq> ROOT_INODE" and p: "p < next_inode t"
  shows "tab_wf (rename_entry i p n t)"
proof (cases "entries t i")
  case None
  then show ?thesis using wf by (simp add: rename_entry_def)
next
  case (Some e)
  let ?t' = "rename_entry i p n t" and ?t1 = "evict_name p n i t"
  have kind: "ie_kind e \<noteq> Root" using tab_wf_entry [OF wf Some] root by blast
  note ev = evict_obs [OF wf, of p n i]
  note pl = rename_entry_eq(1) [OF wf Some root, where p = p and n = n]
  note kids = rename_entry_eq(2) [OF wf Some root, where p = p and n = n]
  have child: "child_of ?t' q j \<longleftrightarrow> (if j = i then q = p else child_of ?t1 q j)" for q j
    using placed_child_of [OF wf pl root] by simp
  have own: "child_of ?t1 q i \<longleftrightarrow> q = ie_parent e" for q
    using root ev(3) [of i] Some by (auto simp: child_of_def sits_def)
  have listed: "i \<in> set (children ?t1 q) \<Longrightarrow> q = ie_parent e" for q
    using tab_wf_child [OF ev(1)] own by blast
  have live: "entries ?t' q \<noteq> None \<Longrightarrow> entries ?t1 q \<noteq> None" for q
    using pl by (auto simp: placed_def ev(3) Some split: if_splits)
  show ?thesis
    using tab_wf_distinct [OF ev(1)] tab_wf_child [OF ev(1)] tab_wf_listed [OF ev(1)] own live
    by (intro placed_wf [OF wf pl root])
      (auto simp: kids child tab_wf_entry [OF wf Some] p kind dest: listed split: if_splits)
qed

subsection \<open>Updating an entry in place\<close>

definition same_place :: "(inode_entry \<Rightarrow> inode_entry) \<Rightarrow> bool" where
  "same_place f \<longleftrightarrow> (\<forall>e. ie_inode (f e) = ie_inode e \<and> ie_parent (f e) = ie_parent e \<and>
     ie_name (f e) = ie_name e \<and> (ie_kind (f e) = Root \<longleftrightarrow> ie_kind e = Root))"

lemma update_entry_obs [simp]:
  "lookup (update_entry i f t) = lookup t" "children (update_entry i f t) = children t"
  "next_inode (update_entry i f t) = next_inode t" "generation (update_entry i f t) = generation t"
  "entries (update_entry i f t) j = (if j = i then map_option f (entries t i) else entries t j)"
  by (auto simp: update_entry_def lookup_def children_def fun_eq_iff split: option.splits)

lemma update_entry_wf:
  assumes wf: "tab_wf t" and f: "\<And>e. entries t i = Some e \<Longrightarrow> ie_inode (f e) = ie_inode e \<and>
      ie_parent (f e) = ie_parent e \<and> ie_name (f e) = ie_name e \<and> (ie_kind (f e) = Root \<longleftrightarrow> ie_kind e = Root)"
  shows "tab_wf (update_entry i f t)" and "sits (update_entry i f t) p n j = sits t p n j"
proof -
  have sits: "sits (update_entry i f t) p n j = sits t p n j" for p n j
    using f by (cases "entries t i") (auto simp: sits_def)
  show "sits (update_entry i f t) p n j = sits t p n j" by (rule sits)
  show "tab_wf (update_entry i f t)"
  proof (rule tab_wfI, goal_cases)
    case (1 j e)
    then show ?case using tab_wf_entry [OF wf] f by (auto split: if_splits)
  next
    case 2
    then show ?case using tab_wf_root [OF wf] f by (cases "i = ROOT_INODE") auto
  next
    case (5 q j)
    then show ?case using tab_wf_child [OF wf] by (auto simp: child_of_def sits)
  next
    case (6 q j)
    then show ?case
      using tab_wf_listed [OF wf, of q j] by (auto simp: child_of_def sits split: if_splits)
  qed (simp_all add: tab_wf_distinct tab_wf_lookup wf sits)
qed

lemma set_handle_wf:
  "tab_wf t \<Longrightarrow> tab_wf (set_handle i h t)" "tab_wf t \<Longrightarrow> sits (set_handle i h t) p n j = sits t p n j"
  unfolding set_handle_def by (auto intro!: update_entry_wf split: inode_kind.splits)

lemma set_storage_id_wf:
  "tab_wf t \<Longrightarrow> tab_wf (set_storage_id i s t)"
  "tab_wf t \<Longrightarrow> sits (set_storage_id i s t) p n j = sits t p n j"
  unfolding set_storage_id_def by (auto intro!: update_entry_wf split: inode_kind.splits)

lemma bump_generation_obs [simp]:
  "entries (bump_generation t) = entries t" "lookup (bump_generation t) = lookup t"
  "children (bump_generation t) = children t" "next_inode (bump_generation t) = next_inode t"
  "generation (bump_generation t) = generation t + 1"
  "sits (bump_generation t) = sits t" "child_of (bump_generation t) = child_of t"
  by (auto simp: bump_generation_def lookup_def children_def sits_def child_of_def fun_eq_iff)

lemma bump_generation_wf: "tab_wf t \<Longrightarrow> tab_wf (bump_generation t)"
  by (simp add: tab_wf_def)

subsection \<open>Re-listing a directory\<close>

definition reported :: "child_info \<Rightarrow> u64 \<Rightarrow> inode_entry \<Rightarrow> bool" where
  "reported c gen e \<longleftrightarrow> ie_kind e = (if ci_is_dir c then Directory (ci_handle c) else File (ci_handle c)) \<and>
     ie_size e = ci_size c \<and> ie_mtime e = ci_mtime c \<and> ie_generation e = gen"

text \<open>
  One listed child: \<open>(p, name)\<close> now holds what the device reported, every other place is
  as before, and the number there is kept unless the name changed kind or was not there.
\<close>

definition synced :: "inode \<Rightarrow> child_info \<Rightarrow> inode_table \<Rightarrow> inode_table \<Rightarrow> bool" where
  "synced p c t t' \<longleftrightarrow>
     tab_wf t' \<and> generation t' = generation t \<and> next_inode t \<le> next_inode t' \<and>
     unat (next_inode t') \<le> unat (next_inode t) + 1 \<and>
     (\<exists>i e. sits t' p (ci_name c) i \<and> entries t' i = Some e \<and> reported c (generation t) e \<and>
        (\<forall>j f. sits t p (ci_name c) j \<longrightarrow> entries t j = Some f \<longrightarrow> is_dir f = ci_is_dir c \<longrightarrow> i = j)) \<and>
     (\<forall>q m j. \<not> (q = p \<and> m = ci_name c) \<longrightarrow> sits t' q m j = sits t q m j) \<and>
     (\<forall>q m j. \<not> (q = p \<and> m = ci_name c) \<longrightarrow> sits t q m j \<longrightarrow> entries t' j = entries t j) \<and>
     entries t' ROOT_INODE = entries t ROOT_INODE"

lemma syncedI:
  assumes "tab_wf t'" and "generation t' = generation t" and "next_inode t \<le> next_inode t'"
    and "unat (next_inode t') \<le> unat (next_inode t) + 1"
    and "sits t' p (ci_name c) i" and "entries t' i = Some e" and "reported c (generation t) e"
    and "\<And>j f. sits t p (ci_name c) j \<Longrightarrow> entries t j = Some f \<Longrightarrow> is_dir f = ci_is_dir c \<Longrightarrow> i = j"
    and "\<And>q m j. \<not> (q = p \<and> m = ci_name c) \<Longrightarrow> sits t' q m j = sits t q m j"
    and "\<And>q m j. \<not> (q = p \<and> m = ci_name c) \<Longrightarrow> sits t q m j \<Longrightarrow> entries t' j = entries t j"
    and "entries t' ROOT_INODE = entries t ROOT_INODE"
  shows "synced p c t t'"
  using assms unfolding synced_def by blast

lemma add_child_synced:
  assumes wf: "tab_wf t" and rm: "room 1 t" and p: "p < next_inode t"
    and no: "\<And>j f. sits t p (ci_name c) j \<Longrightarrow> entries t j = Some f \<Longrightarrow> is_dir f \<noteq> ci_is_dir c"
  shows "synced p c t (add_child p c t)"
proof -
  let ?e = "child_entry p c (next_inode t) (generation t)"
  note new = add_child_wf [OF wf rm p, of c]
  note fresh = next_fresh [OF wf]
  have up: "unat (next_inode t + 1) = unat (next_inode t) + 1" using next_room [of 0] rm by simp
  have nosits: "\<not> sits t q m (next_inode t)" for q m using fresh(1) by (simp add: sits_def)
  note sits = placed_sits [OF new(2) fresh(3)]
  have ent: "entries (add_child p c t) j =
      (if j = next_inode t then Some ?e else if sits t p (ci_name c) j then None else entries t j)" for j
    using new(2) by (simp add: placed_def)
  have "next_inode (add_child p c t) = next_inode t + 1" "generation (add_child p c t) = generation t"
    using new(2) by (simp_all add: placed_def)
  moreover have "reported c (generation t) ?e" by (simp add: reported_def child_entry_def)
  moreover have "\<not> sits t p (ci_name c) ROOT_INODE" by (simp add: sits_def)
  ultimately show ?thesis
    unfolding synced_def using new(1) up no fresh(3) nosits
    by (auto simp: sits ent word_le_unat dest: sits_place intro!: exI [of _ "next_inode t"])
qed

lemma refresh_child_synced:
  assumes wf: "tab_wf t" and i: "sits t p (ci_name c) i" and e: "entries t i = Some e"
    and dir: "is_dir e = ci_is_dir c"
  shows "synced p c t (update_entry i (refresh_child c (generation t)) t)"
proof -
  let ?t' = "update_entry i (refresh_child c (generation t)) t"
  have root: "i \<noteq> ROOT_INODE" using i by (simp add: sits_def)
  have kind: "ie_kind e \<noteq> Root" using tab_wf_entry [OF wf e] root by blast
  have f: "ie_inode (refresh_child c g e) = ie_inode e \<and> ie_parent (refresh_child c g e) = ie_parent e \<and>
      ie_name (refresh_child c g e) = ie_name e \<and> (ie_kind (refresh_child c g e) = Root \<longleftrightarrow> ie_kind e = Root)" for g
    using kind by (simp add: refresh_child_def)
  have wf': "tab_wf ?t'" using f e by (intro update_entry_wf(1) wf) simp
  have sits: "sits ?t' q m j = sits t q m j" for q m j using f e by (intro update_entry_wf(2) wf) simp
  show ?thesis
  proof (rule syncedI [OF wf'])
    show "sits ?t' p (ci_name c) i" using i by (simp add: sits)
    show "entries ?t' i = Some (refresh_child c (generation t) e)" using e by simp
    show "reported c (generation t) (refresh_child c (generation t) e)"
      by (simp add: reported_def refresh_child_def)
    show "i = j" if "sits t p (ci_name c) j" for j using that by (rule sits_unique [OF wf i])
    show "entries ?t' j = entries t j" if "\<not> (q = p \<and> m = ci_name c)" "sits t q m j" for q m j
      using that sits_place [OF i] by auto
    show "entries ?t' ROOT_INODE = entries t ROOT_INODE" using root by simp
  qed (simp_all add: sits)
qed

lemma sync_child_synced:
  assumes wf: "tab_wf t" and rm: "room 1 t" and p: "p < next_inode t"
  shows "synced p c t (sync_child p c t)"
proof (cases "lookup t p (ci_name c)")
  case None
  then have "sync_child p c t = add_child p c t" by (simp add: sync_child_def)
  moreover have "\<not> sits t p (ci_name c) j" for j using None lookup_None [OF wf] by blast
  ultimately show ?thesis using add_child_synced [OF wf rm p, of c] by simp
next
  case (Some i)
  then have i: "sits t p (ci_name c) i" by (simp add: tab_wf_lookup wf)
  then obtain e where e: "entries t i = Some e" and root: "i \<noteq> ROOT_INODE" by (auto simp: sits_def)
  show ?thesis
  proof (cases "is_dir e = ci_is_dir c")
    case True
    then show ?thesis using refresh_child_synced [OF wf i e] Some e by (simp add: sync_child_def)
  next
    case False
    let ?t1 = "snd (remove_entry i t)"
    note rem = remove_obs [OF e]
    have wf1: "tab_wf ?t1" using wf root by (rule remove_wf)
    have no: "\<not> sits ?t1 p (ci_name c) j" for j
      using sits_unique [OF wf i] by (auto simp: remove_sits [OF e])
    have other: "sits ?t1 q m j = sits t q m j" "sits t q m j \<Longrightarrow> entries ?t1 j = entries t j"
      if "\<not> (q = p \<and> m = ci_name c)" for q m j
      using that sits_place [OF i] by (auto simp: remove_sits [OF e] rem)
    have differs: "is_dir f \<noteq> ci_is_dir c" if "sits t p (ci_name c) j" "entries t j = Some f" for j f
      using sits_unique [OF wf i that(1)] that(2) e False by simp
    have "synced p c ?t1 (add_child p c ?t1)"
      using rm p no by (intro add_child_synced wf1) (auto simp: rem room_def)
    then have "synced p c t (add_child p c ?t1)"
      unfolding synced_def rem(5,6) using other differs root by (elim conjE exE) (auto simp: rem intro!: exI)
    then show ?thesis
      using Some e False by (simp add: sync_child_def)
  qed
qed

text \<open>The whole listing; of two objects with one name, the later one counts.\<close>

definition last_named :: "string \<Rightarrow> child_info list \<Rightarrow> child_info option" where
  "last_named n cs = List.find (\<lambda>c. ci_name c = n) (rev cs)"

lemma last_named_simps [simp]:
  "last_named n [] = None"
  "last_named n (cs @ [c]) = (if ci_name c = n then Some c else last_named n cs)"
  by (simp_all add: last_named_def)

lemma last_named_None: "last_named n cs = None \<longleftrightarrow> n \<notin> ci_name ` set cs"
  by (auto simp: last_named_def find_None_iff)

definition kept_kind :: "inode_entry \<Rightarrow> child_info list \<Rightarrow> bool" where
  "kept_kind e cs \<longleftrightarrow> (\<forall>c \<in> set cs. ci_name c = ie_name e \<longrightarrow> ci_is_dir c = is_dir e)"

definition relisted :: "inode \<Rightarrow> child_info list \<Rightarrow> inode_table \<Rightarrow> inode_table \<Rightarrow> bool" where
  "relisted p cs t t' \<longleftrightarrow>
     tab_wf t' \<and> generation t' = generation t \<and> next_inode t \<le> next_inode t' \<and>
     unat (next_inode t') \<le> unat (next_inode t) + length cs \<and> entries t' ROOT_INODE = entries t ROOT_INODE \<and>
     (\<forall>q m j. \<not> (q = p \<and> m \<in> ci_name ` set cs) \<longrightarrow>
        sits t' q m j = sits t q m j \<and> (sits t q m j \<longrightarrow> entries t' j = entries t j)) \<and>
     (\<forall>n c. last_named n cs = Some c \<longrightarrow>
        (\<exists>i e. sits t' p n i \<and> entries t' i = Some e \<and> reported c (generation t) e)) \<and>
     (\<forall>n i e. sits t p n i \<longrightarrow> entries t i = Some e \<longrightarrow> kept_kind e cs \<longrightarrow>
        (\<exists>e'. sits t' p n i \<and> entries t' i = Some e' \<and> is_dir e' = is_dir e))"

lemma relistedD:
  assumes "relisted p cs t t'"
  shows "tab_wf t'" "generation t' = generation t" "next_inode t \<le> next_inode t'"
    "unat (next_inode t') \<le> unat (next_inode t) + length cs" "entries t' ROOT_INODE = entries t ROOT_INODE"
    "\<not> (q = p \<and> m \<in> ci_name ` set cs) \<Longrightarrow> sits t' q m j = sits t q m j"
    "\<not> (q = p \<and> m \<in> ci_name ` set cs) \<Longrightarrow> sits t q m j \<Longrightarrow> entries t' j = entries t j"
    "last_named n cs = Some c \<Longrightarrow> \<exists>i e. sits t' p n i \<and> entries t' i = Some e \<and> reported c (generation t) e"
    "sits t p n i \<Longrightarrow> entries t i = Some e \<Longrightarrow> kept_kind e cs \<Longrightarrow>
      \<exists>e'. sits t' p n i \<and> entries t' i = Some e' \<and> is_dir e' = is_dir e"
  using assms unfolding relisted_def by blast+

lemma syncedD:
  assumes "synced p c t t'"
  shows "tab_wf t'" "generation t' = generation t" "next_inode t \<le> next_inode t'"
    "unat (next_inode t') \<le> unat (next_inode t) + 1" "entries t' ROOT_INODE = entries t ROOT_INODE"
    "\<not> (q = p \<and> m = ci_name c) \<Longrightarrow> sits t' q m j = sits t q m j"
    "\<not> (q = p \<and> m = ci_name c) \<Longrightarrow> sits t q m j \<Longrightarrow> entries t' j = entries t j"
    "\<exists>i e. sits t' p (ci_name c) i \<and> entries t' i = Some e \<and> reported c (generation t) e \<and>
        (\<forall>j f. sits t p (ci_name c) j \<longrightarrow> entries t j = Some f \<longrightarrow> is_dir f = ci_is_dir c \<longrightarrow> i = j)"
  using assms unfolding synced_def by blast+

lemma reported_is_dir: "reported c g e \<Longrightarrow> is_dir e = ci_is_dir c"
  by (auto simp: reported_def is_dir_def)

lemma synced_keeps:
  assumes s: "synced p c t t'" and i: "sits t p n i" "entries t i = Some e"
    and kind: "ci_name c = n \<Longrightarrow> ci_is_dir c = is_dir e"
  shows "\<exists>e'. sits t' p n i \<and> entries t' i = Some e' \<and> is_dir e' = is_dir e"
proof (cases "n = ci_name c")
  case True
  with syncedD(8) [OF s] i kind show ?thesis by (metis reported_is_dir)
next
  case False
  with syncedD(6,7) [OF s, of p n i] i show ?thesis by auto
qed

lemma fold_sync_relisted:
  assumes "tab_wf t" "room (length cs) t" "p < next_inode t"
  shows "relisted p cs t (fold (sync_child p) cs t)"
  using assms(2)
proof (induction cs rule: rev_induct)
  case Nil
  then show ?case using assms(1) by (auto simp: relisted_def)
next
  case (snoc c cs)
  let ?t1 = "fold (sync_child p) cs t" and ?t2 = "fold (sync_child p) (cs @ [c]) t"
  have r: "relisted p cs t ?t1" using snoc by (simp add: room_def)
  note r1 = relistedD [OF r]
  have "room 1 ?t1" using snoc.prems r1(4) by (simp add: room_def)
  moreover have "p < next_inode ?t1" using assms(3) r1(3) by simp
  ultimately have s: "synced p c ?t1 ?t2" using r1(1) by (simp add: sync_child_synced)
  note s1 = syncedD [OF s]
  show ?case
    unfolding relisted_def
  proof (intro conjI allI impI, goal_cases)
    case (6 q m j)
    then show ?case using r1(6) [of q m j] s1(6) [of q m j] by auto
  next
    case (7 q m j)
    then show ?case using r1(6,7) [of q m j] s1(7) [of q m j] by auto
  next
    case (8 n c')
    show ?case
    proof (cases "ci_name c = n")
      case True
      with 8 s1(8) r1(2) show ?thesis by auto
    next
      case False
      with 8 have "last_named n cs = Some c'" by simp
      from r1(8) [OF this] obtain i e where ie: "sits ?t1 p n i" "entries ?t1 i = Some e"
          "reported c' (generation t) e" by blast
      with False s1(6,7) [of p n i] show ?thesis by auto
    qed
  next
    case (9 n i e)
    then have "kept_kind e cs" "ie_name e = n" by (auto simp: kept_kind_def sits_def)
    with 9 r1(9) obtain e1 where e1: "sits ?t1 p n i" "entries ?t1 i = Some e1" "is_dir e1 = is_dir e"
      by blast
    moreover have "ci_name c = n \<Longrightarrow> ci_is_dir c = is_dir e1"
      using 9 \<open>ie_name e = n\<close> e1(3) by (simp add: kept_kind_def)
    ultimately show ?case using synced_keeps [OF s e1(1,2)] by auto
  qed (use r1(1-5) s1(1-5) in auto)
qed

lemma remove_all_obs:
  assumes "tab_wf t" "ROOT_INODE \<notin> set is"
  shows "tab_wf (remove_all is t)"
    and "entries (remove_all is t) j = (if j \<in> set is then None else entries t j)"
    and "next_inode (remove_all is t) = next_inode t" and "generation (remove_all is t) = generation t"
proof -
  have "tab_wf (remove_all is t) \<and> (\<forall>j. entries (remove_all is t) j = (if j \<in> set is then None else entries t j)) \<and>
      next_inode (remove_all is t) = next_inode t \<and> generation (remove_all is t) = generation t"
    using assms
  proof (induction "is" arbitrary: t)
    case (Cons i rest)
    let ?t1 = "snd (remove_entry i t)"
    have "tab_wf ?t1" using Cons.prems by (intro remove_wf) auto
    moreover have "entries ?t1 j = (if j = i then None else entries t j)" for j
      by (cases "entries t i") (auto simp: remove_obs(2))
    moreover have "next_inode ?t1 = next_inode t" "generation ?t1 = generation t"
      by (cases "entries t i"; simp add: remove_obs(5,6))+
    ultimately show ?case using Cons.IH [of ?t1] Cons.prems by (simp add: remove_all_def)
  qed (simp add: remove_all_def)
  then show "tab_wf (remove_all is t)"
    and "entries (remove_all is t) j = (if j \<in> set is then None else entries t j)"
    and "next_inode (remove_all is t) = next_inode t" and "generation (remove_all is t) = generation t"
    by auto
qed

lemma remove_all_sits:
  assumes "tab_wf t" "ROOT_INODE \<notin> set is"
  shows "sits (remove_all is t) q m j \<longleftrightarrow> sits t q m j \<and> j \<notin> set is"
  by (simp add: sits_def remove_all_obs [OF assms])

lemma gone_children_iff:
  assumes "tab_wf t" "entries t p \<noteq> None"
  shows "j \<in> set (gone_children p cs t) \<longleftrightarrow> (\<exists>m. sits t p m j \<and> m \<notin> ci_name ` set cs)"
proof -
  have "j \<in> set (children t p) \<longleftrightarrow> (\<exists>m. sits t p m j)"
    using tab_wf_child [OF assms(1), of j p] tab_wf_listed [OF assms, of j] by (auto simp: child_of_def)
  then show ?thesis
    by (cases "entries t j") (auto simp: gone_children_def sits_def list_ex_iff image_iff)
qed

lemma sync_children_facts:
  assumes wf: "tab_wf t" and rm: "room (length cs) t" and p: "entries t p \<noteq> None" "\<not> child_of t p p"
  defines "t' \<equiv> sync_children p cs t"
  shows "tab_wf t'"
    and "lookup t' p n = None \<longleftrightarrow> n \<notin> ci_name ` set cs"
    and "last_named n cs = Some c \<Longrightarrow>
      \<exists>i e. lookup t' p n = Some i \<and> entries t' i = Some e \<and> reported c (generation t) e"
    and "q \<noteq> p \<Longrightarrow> lookup t' q m = lookup t q m"
    and "sits t q m j \<Longrightarrow> q \<noteq> p \<Longrightarrow> entries t' j = entries t j"
    and "lookup t p n = Some i \<Longrightarrow> entries t i = Some e \<Longrightarrow> n \<in> ci_name ` set cs \<Longrightarrow>
      kept_kind e cs \<Longrightarrow> lookup t' p n = Some i"
    and "generation t' = generation t"
    and "next_inode t \<le> next_inode t'" and "unat (next_inode t') \<le> unat (next_inode t) + length cs"
    and "entries t' p \<noteq> None"
proof -
  let ?t1 = "fold (sync_child p) cs t"
  have lt: "p < next_inode t" using p(1) tab_wf_entry [OF wf] by auto
  note r = relistedD [OF fold_sync_relisted [OF wf rm lt]]
  have live: "entries ?t1 p \<noteq> None"
  proof (cases "p = ROOT_INODE")
    case True
    then show ?thesis using r(5) p(1) by simp
  next
    case False
    then obtain q m where at: "sits t q m p" using p(1) by (auto simp: sits_def)
    with p(2) have "q \<noteq> p" by (auto simp: child_of_def)
    then show ?thesis using r(7) [OF _ at] p(1) by auto
  qed
  note gone = gone_children_iff [OF r(1) live, of _ cs]
  have root: "ROOT_INODE \<notin> set (gone_children p cs ?t1)" by (auto simp: gone sits_def)
  have t': "t' = remove_all (gone_children p cs ?t1) ?t1"
    by (simp add: t'_def sync_children_def Let_def)
  note rem = remove_all_obs [OF r(1) root] remove_all_sits [OF r(1) root]
  show wf': "tab_wf t'" using rem(1) by (simp add: t')
  have sits: "sits t' q m j \<longleftrightarrow> sits ?t1 q m j \<and> (q = p \<longrightarrow> m \<in> ci_name ` set cs)" for q m j
    unfolding t' rem(5) gone by (blast dest: sits_place)
  have same: "entries t' j = entries ?t1 j" if "sits t' q m j" for q m j
    using that by (auto simp: t' rem(2,5))
  have other: "sits t' q m j = sits t q m j" if "q \<noteq> p" for q m j
    using that r(6) [of q m j] by (simp add: sits)
  show reported: "\<exists>i e. lookup t' p n = Some i \<and> entries t' i = Some e \<and> reported c (generation t) e"
    if last: "last_named n cs = Some c" for n c
  proof -
    have "n \<in> ci_name ` set cs" using last last_named_None [of n cs] by auto
    obtain i e where ie: "sits ?t1 p n i" "entries ?t1 i = Some e" "reported c (generation t) e"
      using r(8) [OF last] by blast
    with \<open>n \<in> ci_name ` set cs\<close> have "sits t' p n i" by (simp add: sits)
    with ie same [OF this] show ?thesis by (auto simp: tab_wf_lookup [OF wf'])
  qed
  show "lookup t' p n = None \<longleftrightarrow> n \<notin> ci_name ` set cs"
  proof
    assume "lookup t' p n = None"
    then show "n \<notin> ci_name ` set cs"
      using reported [of n] last_named_None [of n cs] by (cases "last_named n cs") force+
  qed (simp add: lookup_None [OF wf'] sits)
  show "lookup t' q m = lookup t q m" if "q \<noteq> p"
    using that by (intro option_ext) (simp add: tab_wf_lookup [OF wf] tab_wf_lookup [OF wf'] other)
  show "entries t' j = entries t j" if at: "sits t q m j" and "q \<noteq> p" for q m j
    using same [of q m j] r(7) [of q m j] other [of q m j] that by auto
  show "lookup t' p n = Some i"
    if "lookup t p n = Some i" "entries t i = Some e" "n \<in> ci_name ` set cs" "kept_kind e cs"
    using r(9) [of n i e] that by (auto simp: tab_wf_lookup [OF wf] tab_wf_lookup [OF wf'] sits)
  show "generation t' = generation t" "next_inode t \<le> next_inode t'"
    "unat (next_inode t') \<le> unat (next_inode t) + length cs"
    using rem(3,4) r(2-4) by (simp_all add: t')
  have "p \<notin> set (gone_children p cs ?t1)"
    using p(2) r(6) [of p _ p] by (auto simp: gone child_of_def)
  then show "entries t' p \<noteq> None" using live by (simp add: t' rem(2))
qed

section \<open>What the filesystem relies on\<close>

text \<open>
  The contract behind \<open>lookup\<close> and \<open>readdir\<close>: the name index says exactly what sits where,
  and the listing of a live directory is exactly what sits in it.
\<close>

locale directory_index =
  fixes inv :: "'t \<Rightarrow> bool"
    and look :: "'t \<Rightarrow> 'd \<Rightarrow> 'n \<Rightarrow> 'i option"
    and kids :: "'t \<Rightarrow> 'd \<Rightarrow> 'i list"
    and alive :: "'t \<Rightarrow> 'd \<Rightarrow> bool"
    and place :: "'t \<Rightarrow> 'd \<Rightarrow> 'n \<Rightarrow> 'i \<Rightarrow> bool"
  assumes look_place: "inv t \<Longrightarrow> look t p n = Some i \<longleftrightarrow> place t p n i"
    and place_one: "place t p n i \<Longrightarrow> place t q m i \<Longrightarrow> q = p \<and> m = n"
    and kids_once: "inv t \<Longrightarrow> distinct (kids t p)"
    and kids_sound: "inv t \<Longrightarrow> i \<in> set (kids t p) \<Longrightarrow> \<exists>n. place t p n i"
    and kids_complete: "inv t \<Longrightarrow> alive t p \<Longrightarrow> place t p n i \<Longrightarrow> i \<in> set (kids t p)"
begin

lemma listed_iff_named: "inv t \<Longrightarrow> alive t p \<Longrightarrow> i \<in> set (kids t p) \<longleftrightarrow> (\<exists>n. look t p n = Some i)"
  using look_place kids_sound kids_complete by blast

lemma listed_has_one_name:
  assumes "inv t" and "i \<in> set (kids t p)"
  shows "\<exists>!n. look t p n = Some i"
  using kids_sound [OF assms] look_place [OF assms(1)] place_one by blast

lemma number_of_children:
  assumes "inv t" and "alive t p"
  shows "card {i. \<exists>n. look t p n = Some i} = length (kids t p)"
proof -
  have "{i. \<exists>n. look t p n = Some i} = set (kids t p)" using listed_iff_named [OF assms] by blast
  then show ?thesis using distinct_card [OF kids_once [OF assms(1)]] by simp
qed

end

interpretation inodes: directory_index tab_wf lookup children "\<lambda>t p. entries t p \<noteq> None" sits
proof
  fix t p n i q m
  show "tab_wf t \<Longrightarrow> lookup t p n = Some i \<longleftrightarrow> sits t p n i" by (rule tab_wf_lookup)
  show "sits t p n i \<Longrightarrow> sits t q m i \<Longrightarrow> q = p \<and> m = n" by (rule sits_place)
  show "tab_wf t \<Longrightarrow> distinct (children t p)" by (rule tab_wf_distinct)
  show "tab_wf t \<Longrightarrow> i \<in> set (children t p) \<Longrightarrow> \<exists>n. sits t p n i"
    by (drule (1) tab_wf_child) (simp add: child_of_def)
  show "tab_wf t \<Longrightarrow> entries t p \<noteq> None \<Longrightarrow> sits t p n i \<Longrightarrow> i \<in> set (children t p)"
    by (rule tab_wf_listed) (auto simp: child_of_def)
qed

section \<open>No cycles\<close>

text \<open>
  The parent an upward walk goes to. Every walk ends as long as no directory is moved into
  itself or below, which the kernel refuses before it calls the filesystem.
\<close>

definition parent_of :: "inode_table \<Rightarrow> inode \<Rightarrow> inode option" where
  "parent_of t i = (case entries t i of
     Some e \<Rightarrow> (if ie_parent e = i then None else Some (ie_parent e)) | None \<Rightarrow> None)"

inductive ends :: "inode_table \<Rightarrow> inode \<Rightarrow> bool" for t where
  top: "parent_of t i = None \<Longrightarrow> ends t i"
| parent: "parent_of t i = Some p \<Longrightarrow> ends t p \<Longrightarrow> ends t i"

inductive at_or_below :: "inode_table \<Rightarrow> inode \<Rightarrow> inode \<Rightarrow> bool" for t i where
  itself: "at_or_below t i i"
| below: "parent_of t j = Some p \<Longrightarrow> at_or_below t i p \<Longrightarrow> at_or_below t i j"

definition acyclic_tab :: "inode_table \<Rightarrow> bool" where
  "acyclic_tab t \<longleftrightarrow> (\<forall>i. ends t i)"

lemma ends_shorter:
  assumes "ends t i" and "\<And>j. parent_of t' j = parent_of t j \<or> parent_of t' j = None"
  shows "ends t' i"
  using assms(1)
proof (induction rule: ends.induct)
  case (top i)
  then show ?case using assms(2) [of i] by (auto intro: ends.top)
next
  case (parent i p)
  then show ?case using assms(2) [of i] by (auto intro: ends.intros)
qed

lemma acyclic_shorter: "acyclic_tab t \<Longrightarrow> (\<And>j. parent_of t' j = parent_of t j \<or> parent_of t' j = None) \<Longrightarrow> acyclic_tab t'"
  unfolding acyclic_tab_def using ends_shorter by blast

lemma acyclic_remove:
  assumes "acyclic_tab t"
  shows "acyclic_tab (snd (remove_entry i t))"
proof (cases "entries t i")
  case (Some e)
  then have "parent_of (snd (remove_entry i t)) j = (if j = i then None else parent_of t j)" for j
    by (simp add: parent_of_def remove_obs(2))
  then show ?thesis by (intro acyclic_shorter [OF assms]) simp
qed (simp add: assms)

lemma acyclic_remove_all: "acyclic_tab t \<Longrightarrow> acyclic_tab (remove_all is t)"
  unfolding remove_all_def by (induction "is" arbitrary: t) (simp_all add: acyclic_remove)

lemma acyclic_evict: "acyclic_tab t \<Longrightarrow> acyclic_tab (evict_name p n keep t)"
  by (auto simp: evict_name_def acyclic_remove split: option.splits)

lemma acyclic_update:
  assumes "acyclic_tab t" and "\<And>e. ie_parent (f e) = ie_parent e"
  shows "acyclic_tab (update_entry i f t)"
  using assms(1) by (rule acyclic_shorter) (auto simp: parent_of_def assms(2) split: option.splits)

lemma acyclic_placed:
  assumes ac: "acyclic_tab t" and pl: "placed i e t t'"
    and free: "\<And>j. at_or_below t i j \<Longrightarrow> j \<noteq> ie_parent e"
  shows "acyclic_tab t'"
proof -
  have ups: "parent_of t' j = parent_of t j \<or> parent_of t' j = None" if "j \<noteq> i" for j
    using pl that by (simp add: placed_def parent_of_def)
  have away: "ends t' j" if "ends t j" "\<not> at_or_below t i j" for j
    using that
  proof (induction rule: ends.induct)
    case (top j)
    then have "j \<noteq> i" using at_or_below.itself by blast
    then show ?case using ups [of j] top(1) by (auto intro: ends.top)
  next
    case (parent j p)
    then have "j \<noteq> i" "\<not> at_or_below t i p" using at_or_below.intros by blast+
    then show ?case using ups [of j] parent by (auto intro: ends.intros)
  qed
  have "ends t' (ie_parent e)" using away free ac by (auto simp: acyclic_tab_def)
  moreover have "parent_of t' i = None \<or> parent_of t' i = Some (ie_parent e)" using pl by (simp add: placed_def parent_of_def)
  ultimately have i: "ends t' i" by (auto intro: ends.intros)
  have "ends t' j" if "ends t j" for j
    using that
  proof (induction rule: ends.induct)
    case (top j)
    then show ?case using i ups [of j] by (cases "j = i") (auto intro: ends.top)
  next
    case (parent j p)
    then show ?case using i ups [of j] by (cases "j = i") (auto intro: ends.intros)
  qed
  with ac show ?thesis by (simp add: acyclic_tab_def)
qed

lemma below_fresh:
  assumes wf: "tab_wf t" and "at_or_below t (next_inode t) j"
  shows "j = next_inode t"
  using assms(2)
proof (induction rule: at_or_below.induct)
  case (below j p)
  then obtain e where "entries t j = Some e" "ie_parent e = next_inode t"
    by (auto simp: parent_of_def split: option.splits if_splits)
  then show ?case using tab_wf_entry [OF wf, of j e] by simp
qed simp

lemma acyclic_next: "acyclic_tab (t\<lparr>next_inode := k\<rparr>) = acyclic_tab t"
proof -
  have "parent_of (t\<lparr>next_inode := k\<rparr>) = parent_of t" by (simp add: parent_of_def fun_eq_iff)
  then have "ends (t\<lparr>next_inode := k\<rparr>) i = ends t i" for i
    by (metis ends_shorter)
  then show ?thesis by (simp add: acyclic_tab_def)
qed

lemma acyclic_new_number:
  assumes wf: "tab_wf t" and ac: "acyclic_tab t" and rm: "room 1 t"
    and e: "ie_inode e = next_inode t" "ie_kind e \<noteq> Root" and p: "ie_parent e < next_inode t"
  shows "acyclic_tab (snd (insert_entry e (t\<lparr>next_inode := next_inode t + 1\<rparr>)))"
proof -
  let ?t = "t\<lparr>next_inode := next_inode t + 1\<rparr>"
  have ups: "parent_of ?t = parent_of t" by (simp add: parent_of_def fun_eq_iff)
  have "at_or_below t i j" if "at_or_below ?t i j" for i j
    using that by (induction rule: at_or_below.induct) (auto simp: ups intro: at_or_below.intros)
  then have "j = next_inode t" if "at_or_below ?t (next_inode t) j" for j
    using that by (intro below_fresh [OF wf]) simp
  moreover have "ie_parent e \<noteq> next_inode t" using p by auto
  ultimately have "at_or_below ?t (next_inode t) j \<Longrightarrow> j \<noteq> ie_parent e" for j by metis
  then show ?thesis
    by (intro acyclic_placed [OF _ new_number(2) [OF wf rm e p]]) (auto simp: acyclic_next ac)
qed

lemma acyclic_add_child:
  "tab_wf t \<Longrightarrow> acyclic_tab t \<Longrightarrow> room 1 t \<Longrightarrow> p < next_inode t \<Longrightarrow> acyclic_tab (add_child p c t)"
  unfolding add_child_eq by (intro acyclic_new_number) simp_all

lemma acyclic_sync_child:
  assumes "tab_wf t" "acyclic_tab t" "room 1 t" "p < next_inode t"
  shows "acyclic_tab (sync_child p c t)"
proof -
  have "acyclic_tab (add_child p c (snd (remove_entry i t)))" if at: "sits t p n i" for i n
  proof -
    obtain e where e: "entries t i = Some e" "i \<noteq> ROOT_INODE" using at by (auto simp: sits_def)
    show ?thesis
      using assms e by (intro acyclic_add_child remove_wf acyclic_remove) (simp_all add: room_def remove_obs)
  qed
  then show ?thesis
    using assms acyclic_add_child tab_wf_lookup [OF assms(1)]
    by (auto simp: sync_child_def refresh_child_def intro!: acyclic_update split: option.splits)
qed

lemma acyclic_sync_children:
  assumes "tab_wf t" "acyclic_tab t" "room (length cs) t" "p < next_inode t"
  shows "acyclic_tab (sync_children p cs t)"
proof -
  have "acyclic_tab (fold (sync_child p) cs t)"
    using assms(3)
  proof (induction cs rule: rev_induct)
    case (snoc c cs)
    have rm: "room (length cs) t" using snoc.prems by (simp add: room_def)
    note r = relistedD [OF fold_sync_relisted [OF assms(1) rm assms(4)]]
    have "acyclic_tab (sync_child p c (fold (sync_child p) cs t))"
      using snoc r(1,3,4) assms(4) rm by (intro acyclic_sync_child) (auto simp: room_def)
    then show ?case by simp
  qed (simp add: assms(2))
  then show ?thesis by (simp add: sync_children_def Let_def acyclic_remove_all)
qed

lemma acyclic_rename:
  assumes "tab_wf t" "acyclic_tab t" "i \<noteq> ROOT_INODE" "\<not> at_or_below t i p"
  shows "acyclic_tab (rename_entry i p n t)"
proof (cases "entries t i")
  case None
  then show ?thesis using assms(2) by (simp add: rename_entry_def)
next
  case (Some e)
  show ?thesis
    using assms by (intro acyclic_placed [OF _ rename_entry_eq(1) [OF assms(1) Some assms(3), where p = p and n = n]]) auto
qed

lemma acyclic_new: "acyclic_tab it_new"
proof -
  have "parent_of it_new i = None" for i by (simp add: parent_of_def it_new_def)
  then show ?thesis by (auto simp: acyclic_tab_def intro: ends.top)
qed

lemma acyclic_same_up:
  assumes "acyclic_tab t" "entries t' = entries t"
  shows "acyclic_tab t'"
  using assms(1) by (rule acyclic_shorter) (simp add: parent_of_def assms(2))

text \<open>
  The calls the filesystem makes, with what the kernel and the code guarantee of their
  arguments: parents are numbers already handed out, the root is never removed or moved, and
  nothing is moved below itself.
\<close>

inductive tab_step :: "inode_table \<Rightarrow> inode_table \<Rightarrow> bool" where
  storage_added: "room 1 t \<Longrightarrow> tab_step t (snd (add_storage_at sid n now t))"
| object_added: "room 1 t \<Longrightarrow> p < next_inode t \<Longrightarrow>
    tab_step t (snd (add_object p h n dir sz mtime t))"
| listed: "room (length cs) t \<Longrightarrow> entries t p \<noteq> None \<Longrightarrow> \<not> child_of t p p \<Longrightarrow>
    tab_step t (sync_children p cs t)"
| removed: "i \<noteq> ROOT_INODE \<Longrightarrow> tab_step t (snd (remove_entry i t))"
| renamed: "i \<noteq> ROOT_INODE \<Longrightarrow> p < next_inode t \<Longrightarrow> \<not> at_or_below t i p \<Longrightarrow>
    tab_step t (rename_entry i p n t)"
| resolved: "tab_step t (set_handle i h t)"
| remapped: "tab_step t (set_storage_id i s t)"
| new_session: "tab_step t (bump_generation t)"
| uploaded: "map_option ie_kind (entries t i) = Some (File h') \<Longrightarrow>
    tab_step t (update_entry i (\<lambda>e. e\<lparr>ie_kind := File h, ie_size := sz, ie_mtime := now\<rparr>) t)"

lemma tab_step_wf: "tab_step t t' \<Longrightarrow> tab_wf t \<Longrightarrow> tab_wf t'"
proof (induction rule: tab_step.induct)
  case (listed cs t p)
  then show ?case by (intro sync_children_facts(1)) simp_all
next
  case (uploaded t i h' h sz now)
  then show ?case by (intro update_entry_wf(1)) auto
qed (simp_all add: add_storage_wf add_object_wf remove_wf rename_entry_wf set_handle_wf(1)
      set_storage_id_wf(1) bump_generation_wf)

lemma tab_reach_wf: "tab_step\<^sup>*\<^sup>* it_new t \<Longrightarrow> tab_wf t"
proof (induction rule: rtranclp_induct)
  case (step t t')
  then show ?case by (blast intro: tab_step_wf)
qed (rule tab_wf_new)

lemma tab_step_acyclic: "tab_step t t' \<Longrightarrow> tab_wf t \<Longrightarrow> acyclic_tab t \<Longrightarrow> acyclic_tab t'"
proof (induction rule: tab_step.induct)
  case (storage_added t sid n now)
  obtain r where "entries t ROOT_INODE = Some r" using tab_wf_root [OF storage_added(2)] by blast
  then have "ROOT_INODE < next_inode t" using tab_wf_entry [OF storage_added(2)] by blast
  then show ?case
    using storage_added by (auto simp: add_storage_at_def alloc_inode_def intro!: acyclic_new_number)
next
  case (object_added t p h n dir sz mtime)
  then show ?case
    using acyclic_add_child [of t p "\<lparr>ci_handle = h, ci_name = n, ci_is_dir = dir, ci_size = sz, ci_mtime = mtime\<rparr>"]
    by (simp add: add_child_def)
next
  case (listed cs t p)
  then have "p < next_inode t" using tab_wf_entry [of t p] by auto
  with listed show ?case by (intro acyclic_sync_children)
next
  case (renamed i p t n)
  then show ?case by (intro acyclic_rename)
next
  case (resolved t i h)
  then show ?case unfolding set_handle_def by (intro acyclic_update) (simp_all split: inode_kind.splits)
next
  case (remapped t i s)
  then show ?case unfolding set_storage_id_def by (intro acyclic_update) (simp_all split: inode_kind.splits)
next
  case (new_session t)
  then show ?case using acyclic_same_up by fastforce
next
  case (uploaded t i h' h sz now)
  then show ?case by (intro acyclic_update) simp_all
qed (rule acyclic_remove)

lemma tab_reach_acyclic: "tab_step\<^sup>*\<^sup>* it_new t \<Longrightarrow> acyclic_tab t"
proof (induction rule: rtranclp_induct)
  case (step t t')
  then show ?case using tab_step_acyclic tab_reach_wf by blast
qed (rule acyclic_new)

section \<open>Properties\<close>

text \<open>
  C29. After any sequence of the table's own operations, the two indexes agree: the listing of a
  live directory holds exactly the numbers some name in it looks up to, once each and under
  exactly one name, and a name looks up to an entry that has this parent and this name. (An
  entry changed through \<open>get_mut\<close>, as the flush of \<open>fs.rs\<close> does, is not one of them.)
\<close>

theorem names_and_listings_agree:
  assumes "tab_step\<^sup>*\<^sup>* it_new t" and "entries t p \<noteq> None"
  shows "(i \<in> set (children t p) \<longleftrightarrow> (\<exists>n. lookup t p n = Some i)) \<and> distinct (children t p) \<and>
    (lookup t p n = Some i \<longrightarrow> lookup t p m = Some i \<longrightarrow> m = n) \<and>
    (lookup t p n = Some i \<longleftrightarrow>
      i \<noteq> ROOT_INODE \<and> (\<exists>e. entries t i = Some e \<and> ie_parent e = p \<and> ie_name e = n))"
proof -
  note wf = tab_reach_wf [OF assms(1)]
  show ?thesis
    using inodes.listed_iff_named [OF wf assms(2)] tab_wf_distinct [OF wf] tab_wf_lookup [OF wf]
      sits_place [of t p n i p m]
    by (simp add: sits_def)
qed

definition demo_table :: inode_table where
  "demo_table = snd (add_object 2 11 ''a.txt'' False 5 0 (snd (add_storage_at 65537 ''Internal'' 0 it_new)))"

lemma demo_table_reach: "tab_step\<^sup>*\<^sup>* it_new demo_table"
proof -
  have "tab_step it_new (snd (add_storage_at 65537 ''Internal'' 0 it_new))"
    by (rule tab_step.storage_added) (simp add: room_def it_new_def)
  moreover have "tab_step (snd (add_storage_at 65537 ''Internal'' 0 it_new)) demo_table"
    unfolding demo_table_def
    by (rule tab_step.object_added)
      (simp_all add: room_def it_new_def add_storage_at_def alloc_inode_def insert_entry_def Let_def
        evict_name_def lookup_def push_child_def)
  ultimately show ?thesis by (rule rtranclp_trans [OF r_into_rtranclp r_into_rtranclp])
qed

lemmas table_eval = it_new_def add_storage_at_def add_object_def alloc_inode_def insert_entry_def
  evict_name_def lookup_def push_child_def children_def ROOT_INODE_def Let_def

theorem names_and_listings_agree_witness:
  "lookup demo_table 2 ''a.txt'' = Some 3 \<and> 3 \<in> set (children demo_table 2)"
proof -
  have l: "lookup demo_table 2 ''a.txt'' = Some 3" and e: "entries demo_table 2 \<noteq> None"
    by (simp_all add: demo_table_def table_eval)
  from names_and_listings_agree [OF demo_table_reach e, of 3 "''a.txt''" "''a.txt''"] l show ?thesis by blast
qed

text \<open>
  C30. Re-listing a directory makes it exactly what the device reported: a name is found
  afterwards iff the device listed it, its entry carries the handle, kind, size and date of
  the last object listed under the name, marked fresh, and no other directory changes.
\<close>

theorem relisting_is_exact:
  assumes "tab_step\<^sup>*\<^sup>* it_new t" and "room (length cs) t" and "entries t p \<noteq> None"
    and "\<not> child_of t p p"
  shows "(lookup (sync_children p cs t) p n = None \<longleftrightarrow> n \<notin> ci_name ` set cs) \<and>
    (\<forall>c. last_named n cs = Some c \<longrightarrow>
      (\<exists>i e. lookup (sync_children p cs t) p n = Some i \<and> entries (sync_children p cs t) i = Some e \<and>
         reported c (generation t) e \<and> is_fresh (sync_children p cs t) i)) \<and>
    (q \<noteq> p \<longrightarrow> lookup (sync_children p cs t) q m = lookup t q m)"
proof -
  note f = sync_children_facts [OF tab_reach_wf [OF assms(1)] assms(2-4)]
  have fresh: "is_fresh (sync_children p cs t) i"
    if "entries (sync_children p cs t) i = Some e" "reported c (generation t) e" for i e c
    using that f(7) by (auto simp: is_fresh_def reported_def)
  have "\<exists>i e. lookup (sync_children p cs t) p n = Some i \<and> entries (sync_children p cs t) i = Some e \<and>
      reported c (generation t) e \<and> is_fresh (sync_children p cs t) i" if "last_named n cs = Some c" for c
    using f(3) [OF that] fresh by fast
  then show ?thesis using f(2) [of n] f(4) [of q m] by simp
qed

definition demo_listing :: "child_info list" where
  "demo_listing =
     [\<lparr>ci_handle = 21, ci_name = ''a.txt'', ci_is_dir = False, ci_size = 9, ci_mtime = 1\<rparr>,
      \<lparr>ci_handle = 22, ci_name = ''b'', ci_is_dir = True, ci_size = 0, ci_mtime = 1\<rparr>]"

lemma demo_table_facts:
  "entries demo_table 2 \<noteq> None" "room (length demo_listing) demo_table" "\<not> child_of demo_table 2 2"
  "lookup demo_table 2 ''a.txt'' = Some 3" "\<exists>e. entries demo_table 3 = Some e \<and> kept_kind e demo_listing"
  by (simp_all add: demo_table_def table_eval room_def demo_listing_def child_of_def sits_def
      kept_kind_def is_dir_def)

theorem relisting_is_exact_witness:
  "lookup (sync_children 2 demo_listing demo_table) 2 ''c'' = None \<and>
   lookup (sync_children 2 demo_listing demo_table) 2 ''b'' \<noteq> None"
  using relisting_is_exact [OF demo_table_reach demo_table_facts(2,1,3), of "''c''"]
    relisting_is_exact [OF demo_table_reach demo_table_facts(2,1,3), of "''b''"]
  by (simp add: demo_listing_def)

text \<open>
  Inode numbers survive a re-listing: a name the device still reports, with the kind it
  had, keeps its number, so the kernel's cache and the open file descriptors stay valid.
\<close>

theorem relisting_keeps_numbers:
  assumes "tab_step\<^sup>*\<^sup>* it_new t" and "room (length cs) t" and "entries t p \<noteq> None"
    and "\<not> child_of t p p"
    and "lookup t p n = Some i" and "entries t i = Some e" and "n \<in> ci_name ` set cs" and "kept_kind e cs"
  shows "lookup (sync_children p cs t) p n = Some i"
  using sync_children_facts(6) [OF tab_reach_wf [OF assms(1)] assms(2-8)] .

theorem relisting_keeps_numbers_witness:
  "lookup (sync_children 2 demo_listing demo_table) 2 ''a.txt'' = Some 3"
proof -
  obtain e where e: "entries demo_table 3 = Some e" "kept_kind e demo_listing"
    using demo_table_facts(5) by blast
  show ?thesis
    by (rule relisting_keeps_numbers [OF demo_table_reach demo_table_facts(2,1,3,4) e(1) _ e(2)])
      (simp add: demo_listing_def)
qed

text \<open>
  C31. A rename moves the entry to its new place, replacing what was there, frees the old
  name, keeps the number, and touches no other name.
\<close>

theorem rename_moves_and_replaces:
  assumes "tab_step\<^sup>*\<^sup>* it_new t" and "entries t i = Some e" and "i \<noteq> ROOT_INODE"
  shows "lookup (rename_entry i p n t) p n = Some i \<and>
    entries (rename_entry i p n t) i = Some (e\<lparr>ie_parent := p, ie_name := n\<rparr>) \<and>
    (\<forall>old. lookup t p n = Some old \<longrightarrow> old \<noteq> i \<longrightarrow> entries (rename_entry i p n t) old = None) \<and>
    ((ie_parent e, ie_name e) \<noteq> (p, n) \<longrightarrow> lookup (rename_entry i p n t) (ie_parent e) (ie_name e) = None) \<and>
    ((q, m) \<noteq> (p, n) \<longrightarrow> (q, m) \<noteq> (ie_parent e, ie_name e) \<longrightarrow>
       lookup (rename_entry i p n t) q m = lookup t q m)"
proof -
  note wf = tab_reach_wf [OF assms(1)]
  have at: "sits t q m i \<longleftrightarrow> q = ie_parent e \<and> m = ie_name e" for q m
    using assms(2,3) by (auto simp: sits_def)
  show ?thesis
    using rename_entry_eq(1) [OF wf assms(2,3), where p = p and n = n]
    by (auto simp: placed_def at tab_wf_lookup [OF wf])
qed

theorem rename_moves_and_replaces_witness:
  "lookup (rename_entry 3 2 ''b.txt'' demo_table) 2 ''b.txt'' = Some 3 \<and>
   lookup (rename_entry 3 2 ''b.txt'' demo_table) 2 ''a.txt'' = None"
proof -
  obtain e where e: "entries demo_table 3 = Some e" "ie_parent e = 2" "ie_name e = ''a.txt''"
    by (simp add: demo_table_def table_eval)
  from rename_moves_and_replaces [OF demo_table_reach e(1), of 2 "''b.txt''"] e(2,3) show ?thesis
    by (simp add: ROOT_INODE_def)
qed

text \<open>
  After a reconnect no file or directory handle counts as fresh until it is resolved
  again, resolving one makes exactly that one fresh, and neither moves or renumbers anything.
\<close>

theorem reconnect_marks_handles_stale:
  assumes "entries t i = Some e" and "ie_generation e \<le> generation t" and "generation t < u64_max"
  shows "(is_fresh (bump_generation t) i \<longleftrightarrow> ie_kind e = Root \<or> (\<exists>s. ie_kind e = Storage s)) \<and>
    is_fresh (set_handle i h (bump_generation t)) i \<and>
    (j \<noteq> i \<longrightarrow> is_fresh (set_handle i h (bump_generation t)) j = is_fresh (bump_generation t) j) \<and>
    lookup (set_handle i h (bump_generation t)) = lookup t \<and>
    children (set_handle i h (bump_generation t)) = children t"
proof -
  have lt: "unat (generation t) + 1 < 2 ^ 64"
    using assms(3) by (simp add: word_less_unat)
  then have "ie_generation e \<noteq> generation t + 1"
    using assms(2) by (auto simp: word_le_unat unat_word_ariths)
  then show ?thesis
    using assms(1)
    by (auto simp: is_fresh_def set_handle_def split: inode_kind.splits option.splits)
qed

theorem reconnect_marks_handles_stale_witness:
  "\<not> is_fresh (bump_generation demo_table) 3 \<and> is_fresh (set_handle 3 99 (bump_generation demo_table)) 3"
proof -
  obtain e where e: "entries demo_table 3 = Some e" "ie_generation e \<le> generation demo_table"
      "ie_kind e = File 11" "generation demo_table < u64_max"
    by (simp add: demo_table_def table_eval word_less_unat)
  from reconnect_marks_handles_stale [OF e(1,2,4), of 99 1] e(3) show ?thesis by simp
qed

end
