(* ===== verification/Reconnect.thy ===== *)
theory Reconnect
  imports Prelude
begin

text \<open>
  \<open>src/src/reconnect.rs\<close> (how long to keep reopening a device that went away) and
  \<open>src/src/shutdown.rs\<close> (the one-way request to take the mount down). Durations are natural
  numbers of milliseconds. The iterator \<open>Backoff\<close> is its \<open>next\<close> method, and the pauses a
  caller sees are the iteration until \<open>None\<close>, a loop of its own.
\<close>

section \<open>The schedule\<close>

definition FIRST_DELAY :: nat where
  "FIRST_DELAY = 250"

definition MAX_DELAY :: nat where
  "MAX_DELAY = 2000"

record reconnect_policy =
  rp_timeout :: nat

definition DEFAULT_TIMEOUT_SECS :: u64 where
  "DEFAULT_TIMEOUT_SECS = 0"

definition policy_from_secs :: "u64 \<Rightarrow> reconnect_policy" where
  "policy_from_secs secs = \<lparr>rp_timeout = 1000 * unat secs\<rparr>"

definition policy_default :: reconnect_policy where
  "policy_default = policy_from_secs DEFAULT_TIMEOUT_SECS"

definition policy_is_disabled :: "reconnect_policy \<Rightarrow> bool" where
  "policy_is_disabled p \<longleftrightarrow> rp_timeout p = 0"

record backoff =
  bo_remaining :: nat
  bo_next :: nat

definition schedule :: "reconnect_policy \<Rightarrow> backoff" where
  "schedule p = \<lparr>bo_remaining = rp_timeout p, bo_next = FIRST_DELAY\<rparr>"

definition backoff_next :: "backoff \<Rightarrow> (nat \<times> backoff) option" where
  "backoff_next b =
     (if bo_remaining b = 0 then None
      else
        (let delay = min (bo_next b) (bo_remaining b)
         in Some (delay, \<lparr>bo_remaining = bo_remaining b - delay, bo_next = min (bo_next b * 2) MAX_DELAY\<rparr>)))"

partial_function (option) delays :: "backoff \<Rightarrow> nat list option" where
  "delays b =
     (case backoff_next b of
        None \<Rightarrow> Some []
      | Some (d, b') \<Rightarrow> Option.bind (delays b') (\<lambda>ds. Some (d # ds)))"

declare delays.simps [code]

text \<open>The pauses before they are cut at the end of the window.\<close>

definition nominal :: "nat \<Rightarrow> nat \<Rightarrow> nat" where
  "nominal d i = min (d * 2 ^ i) MAX_DELAY"

lemma nominal_0: "d \<le> MAX_DELAY \<Longrightarrow> nominal d 0 = d"
  by (simp add: nominal_def)

lemma nominal_Suc: "nominal (min (d * 2) MAX_DELAY) i = nominal d (Suc i)"
proof (cases "d * 2 \<le> MAX_DELAY")
  case False
  have "x \<le> x * 2 ^ i" for x :: nat by simp
  from this [of MAX_DELAY] this [of "d * 2"] False have "MAX_DELAY \<le> MAX_DELAY * 2 ^ i" "MAX_DELAY \<le> d * 2 * 2 ^ i"
    by linarith+
  then show ?thesis using False by (simp add: nominal_def mult.assoc)
qed (simp add: nominal_def mult.assoc)

lemma delays_return:
  assumes "0 < bo_next b" and "bo_next b \<le> MAX_DELAY"
  shows "\<exists>ds. delays b = Some ds \<and> sum_list ds = bo_remaining b \<and>
    (\<forall>d \<in> set ds. 0 < d) \<and>
    (\<forall>i < length ds. ds ! i = min (nominal (bo_next b) i) (bo_remaining b - sum_list (take i ds)))"
  using assms
proof (induction "bo_remaining b" arbitrary: b rule: less_induct)
  case less
  show ?case
  proof (cases "bo_remaining b = 0")
    case True
    then show ?thesis by (subst delays.simps) (simp add: backoff_next_def)
  next
    case False
    define d where "d = min (bo_next b) (bo_remaining b)"
    define b' where "b' = \<lparr>bo_remaining = bo_remaining b - d, bo_next = min (bo_next b * 2) MAX_DELAY\<rparr>"
    have d: "0 < d" "d \<le> bo_remaining b" using False less.prems by (auto simp: d_def)
    have next_: "backoff_next b = Some (d, b')"
      using False by (simp add: backoff_next_def d_def b'_def Let_def)
    obtain ds where ds: "delays b' = Some ds" "sum_list ds = bo_remaining b'"
      "\<forall>d \<in> set ds. 0 < d"
      "\<forall>i < length ds. ds ! i = min (nominal (bo_next b') i) (bo_remaining b' - sum_list (take i ds))"
      using less.hyps [of b'] d less.prems by (auto simp: b'_def MAX_DELAY_def)
    have "(d # ds) ! i = min (nominal (bo_next b) i) (bo_remaining b - sum_list (take i (d # ds)))"
      if "i < length (d # ds)" for i
      using that ds(4) d less.prems nominal_Suc [of "bo_next b"]
      by (cases i) (auto simp: nominal_0 b'_def d_def)
    moreover have "delays b = Some (d # ds)" by (subst delays.simps) (simp add: next_ ds(1))
    moreover have "sum_list (d # ds) = bo_remaining b" using d ds(2) by (simp add: b'_def)
    ultimately show ?thesis using d(1) ds(3) by (intro exI [of _ "d # ds"]) auto
  qed
qed

section \<open>The shutdown request\<close>

record shutdown =
  sd_reason :: "string option"

definition shutdown_default :: shutdown where
  "shutdown_default = \<lparr>sd_reason = None\<rparr>"

definition request_shutdown :: "string \<Rightarrow> shutdown \<Rightarrow> shutdown" where
  "request_shutdown why s = (if sd_reason s = None then s\<lparr>sd_reason := Some why\<rparr> else s)"

definition is_requested :: "shutdown \<Rightarrow> bool" where
  "is_requested s \<longleftrightarrow> sd_reason s \<noteq> None"

text \<open>
  \<open>wait_timeout_while\<close>: the states found each time the lock is held, the last one at the
  latest when the time is up.
\<close>

fun shutdown_wait :: "shutdown list \<Rightarrow> shutdown \<Rightarrow> string option" where
  "shutdown_wait [] final = sd_reason final"
| "shutdown_wait (s # ss) final = (if sd_reason s = None then shutdown_wait ss final else sd_reason s)"

section \<open>Properties\<close>

text \<open>
  The backoff always ends. Its pauses add up to exactly the reconnect window, each is
  positive and at most two seconds, the \<open>i\<close>-th is the capped power \<open>250 * 2 ^ i\<close> unless the
  window runs out in it, and there is no pause at all iff reconnection is off.
\<close>

theorem backoff_fills_window:
  "\<exists>ds. delays (schedule p) = Some ds \<and> sum_list ds = rp_timeout p \<and>
     list_all (\<lambda>d. 0 < d \<and> d \<le> MAX_DELAY) ds \<and>
     ds = map (\<lambda>i. min (min (FIRST_DELAY * 2 ^ i) MAX_DELAY) (rp_timeout p - sum_list (take i ds))) [0..<length ds] \<and>
     (ds = [] \<longleftrightarrow> policy_is_disabled p)"
proof -
  have "0 < bo_next (schedule p)" "bo_next (schedule p) \<le> MAX_DELAY"
    by (simp_all add: schedule_def FIRST_DELAY_def MAX_DELAY_def)
  from delays_return [OF this] obtain ds where ds: "delays (schedule p) = Some ds" "sum_list ds = rp_timeout p"
    "\<forall>d \<in> set ds. 0 < d"
    "\<And>i. i < length ds \<Longrightarrow>
      ds ! i = min (min (FIRST_DELAY * 2 ^ i) MAX_DELAY) (rp_timeout p - sum_list (take i ds))"
    by (auto simp: schedule_def nominal_def)
  have "d \<le> MAX_DELAY" if "d \<in> set ds" for d
    using that ds(4) by (auto simp: in_set_conv_nth)
  with ds(3) have "list_all (\<lambda>d. 0 < d \<and> d \<le> MAX_DELAY) ds" by (simp add: list_all_iff)
  moreover have "ds = map (\<lambda>i. min (min (FIRST_DELAY * 2 ^ i) MAX_DELAY) (rp_timeout p - sum_list (take i ds))) [0..<length ds]"
    using ds(4) by (intro nth_equalityI) simp_all
  moreover have "ds = [] \<longleftrightarrow> policy_is_disabled p"
    using ds(2,3) by (cases ds) (auto simp: policy_is_disabled_def)
  ultimately show ?thesis using ds(1,2) by blast
qed

text \<open>
  The first shutdown request is the one that counts: whatever is requested later, the
  recorded reason, and the one a waiter is given, is the first.
\<close>

theorem first_reason_wins:
  "sd_reason (fold request_shutdown (why # later) shutdown_default) = Some why \<and>
   shutdown_wait (map (\<lambda>k. fold request_shutdown (take k (why # later)) shutdown_default) ks)
     (fold request_shutdown (why # later) shutdown_default) = Some why"
proof -
  have take: "sd_reason (fold request_shutdown (take k (why # later)) shutdown_default) =
      (if k = 0 then None else Some why)" for k
  proof (cases k)
    case (Suc j)
    have "fold request_shutdown rs s = s" if "sd_reason s \<noteq> None" for s rs
      using that by (induction rs) (auto simp: request_shutdown_def)
    then show ?thesis using Suc by (simp add: request_shutdown_def shutdown_default_def)
  qed (simp add: shutdown_default_def)
  have full: "sd_reason (fold request_shutdown (why # later) shutdown_default) = Some why"
    using take [of "length (why # later)"] by simp
  moreover have "shutdown_wait (map (\<lambda>k. fold request_shutdown (take k (why # later)) shutdown_default) ks)
     (fold request_shutdown (why # later) shutdown_default) = Some why"
    using full by (induction ks) (simp_all add: take del: fold_simps)
  ultimately show ?thesis by blast
qed

end
