(* ===== verification/Size_Parse.thy ===== *)
theory Size_Parse
  imports Prelude
begin

text \<open>
  \<open>src/src/size.rs\<close>: the byte sizes of the command line, parsed (\<open>parse_size\<close>) and
  rendered (\<open>format_size\<close>). Strings hold the characters below 256, so
  \<open>char::is_whitespace\<close> is its restriction to them.
\<close>

definition is_whitespace :: "char \<Rightarrow> bool" where
  "is_whitespace c =
     (let n = of_char c :: nat in (9 \<le> n \<and> n \<le> 13) \<or> n = 32 \<or> n = 133 \<or> n = 160)"

definition trim :: "string \<Rightarrow> string" where
  "trim s = rev (dropWhile is_whitespace (rev (dropWhile is_whitespace s)))"

definition is_ascii_digit :: "char \<Rightarrow> bool" where
  "is_ascii_digit c = (let n = of_char c :: nat in 48 \<le> n \<and> n \<le> 57)"

definition ascii_lower :: "char \<Rightarrow> char" where
  "ascii_lower c = (let n = of_char c :: nat in if 65 \<le> n \<and> n \<le> 90 then char_of (n + 32) else c)"

definition digits_value :: "string \<Rightarrow> nat" where
  "digits_value ds = fold (\<lambda>c v. 10 * v + (of_char c - 48)) ds 0"

text \<open>\<open>str::parse::<u64>\<close> of a non-empty string of digits.\<close>

definition parse_u64 :: "string \<Rightarrow> u64 option" where
  "parse_u64 ds = (if digits_value ds < 2 ^ 64 then Some (of_nat (digits_value ds)) else None)"

definition suffix_multiplier :: "string \<Rightarrow> u64 option" where
  "suffix_multiplier s =
     (if s \<in> {'''', ''b'', ''byte'', ''bytes''} then Some 1
      else if s \<in> {''k'', ''kb'', ''kib''} then Some 1024
      else if s \<in> {''m'', ''mb'', ''mib''} then Some (1024 * 1024)
      else if s \<in> {''g'', ''gb'', ''gib''} then Some (1024 * 1024 * 1024)
      else if s \<in> {''t'', ''tb'', ''tib''} then Some (1024 * 1024 * 1024 * 1024)
      else None)"

text \<open>A fragment of a message in single quotes.\<close>

definition quoted :: "string \<Rightarrow> string" where
  "quoted s = CHR 0x27 # s @ [CHR 0x27]"

definition parse_size :: "string \<Rightarrow> string + u64" where
  "parse_size input =
     (let trimmed = trim input in
      if trimmed = [] then Inl ''expected a size like 4G, 512M, or a number of bytes''
      else
        (let number = takeWhile is_ascii_digit trimmed;
             suffix = dropWhile is_ascii_digit trimmed in
         if number = []
         then Inl (quoted trimmed @ '' doesn't start with a number; try something like 4G or 512M'')
         else
           (case suffix_multiplier (map ascii_lower (trim suffix)) of
              None \<Rightarrow> Inl (quoted (map ascii_lower (trim suffix)) @
                '' isn't a size suffix I know; use K, M, G, or T (or leave it off for bytes)'')
            | Some multiplier \<Rightarrow>
                (case parse_u64 number of
                   None \<Rightarrow> Inl (quoted number @ '' is too big to be a size in bytes'')
                 | Some v \<Rightarrow>
                     (case checked_mul v multiplier of
                        None \<Rightarrow> Inl (quoted trimmed @ '' is larger than a 64-bit byte count can hold'')
                      | Some r \<Rightarrow> Inr r)))))"

definition size_units :: "(u64 \<times> string) list" where
  "size_units =
     [(1024 * 1024 * 1024 * 1024, ''TiB''), (1024 * 1024 * 1024, ''GiB''), (1024 * 1024, ''MiB''), (1024, ''KiB'')]"

fun format_with :: "(u64 \<times> string) list \<Rightarrow> u64 \<Rightarrow> string" where
  "format_with [] bytes = show_u64 bytes @ '' bytes''"
| "format_with ((scale, unit) # units) bytes =
     (if bytes \<ge> scale \<and> bytes mod scale = 0 then show_u64 (bytes div scale) @ '' '' @ unit
      else format_with units bytes)"

definition format_size :: "u64 \<Rightarrow> string" where
  "format_size bytes = format_with size_units bytes"

section \<open>Decimal numerals\<close>

lemma of_char_digit: "d < 10 \<Longrightarrow> of_char (digit_char d) = 48 + (d :: nat)"
  by (simp add: digit_char_def)

lemma show_nat_digits: "c \<in> set (show_nat n) \<Longrightarrow> is_ascii_digit c"
proof (induction n rule: show_nat.induct)
  case (1 n)
  then show ?case
    by (subst (asm) show_nat.simps) (auto simp: is_ascii_digit_def of_char_digit split: if_splits)
qed

lemma digits_value_snoc: "digits_value (ds @ [c]) = 10 * digits_value ds + (of_char c - 48)"
  by (simp add: digits_value_def)

lemma digits_value_show: "digits_value (show_nat n) = n"
proof (induction n rule: show_nat.induct)
  case (1 n)
  show ?case
  proof (cases "n < 10")
    case True
    then show ?thesis by (subst show_nat.simps) (simp add: digits_value_def of_char_digit)
  next
    case False
    then show ?thesis
      by (subst show_nat.simps) (simp add: digits_value_snoc of_char_digit 1)
  qed
qed

lemma parse_u64_show: "parse_u64 (show_u64 w) = Some w"
  using unat_u64_less [of w] by (simp add: parse_u64_def show_u64_def digits_value_show)

lemma digit_not_space: "is_ascii_digit c \<Longrightarrow> \<not> is_whitespace c"
  by (auto simp: is_ascii_digit_def is_whitespace_def Let_def)

lemma trim_id:
  assumes "s \<noteq> []" and "\<not> is_whitespace (hd s)" and "\<not> is_whitespace (last s)"
  shows "trim s = s"
proof -
  have "dropWhile is_whitespace s = s" using assms(1,2) by (cases s) auto
  moreover have "dropWhile is_whitespace (rev s) = rev s"
    using assms(1,3) by (cases s rule: rev_cases) auto
  ultimately show ?thesis by (simp add: trim_def)
qed

text \<open>What \<open>format_size\<close> writes is split back into its number and its unit.\<close>

definition known_suffix :: "string \<Rightarrow> u64 \<Rightarrow> bool" where
  "known_suffix u m \<longleftrightarrow> u \<noteq> [] \<and> \<not> is_whitespace (hd u) \<and> \<not> is_whitespace (last u) \<and>
     suffix_multiplier (map ascii_lower u) = Some m"

lemma parse_size_shown:
  assumes "known_suffix u m"
  shows "parse_size (show_u64 v @ '' '' @ u) =
    (case checked_mul v m of
       None \<Rightarrow> Inl (quoted (show_u64 v @ '' '' @ u) @ '' is larger than a 64-bit byte count can hold'')
     | Some r \<Rightarrow> Inr r)"
proof -
  let ?s = "show_u64 v @ '' '' @ u"
  have digits: "\<And>c. c \<in> set (show_u64 v) \<Longrightarrow> is_ascii_digit c" and ne: "show_u64 v \<noteq> []"
    by (auto simp: show_u64_def show_nat_digits)
  then have "\<not> is_whitespace (hd ?s)" by (simp add: digit_not_space)
  then have t: "trim ?s = ?s"
    using ne assms by (intro trim_id) (auto simp: known_suffix_def)
  have space: "\<not> is_ascii_digit (CHR '' '')" "is_whitespace (CHR '' '')" by code_simp+
  have "takeWhile is_ascii_digit ?s = show_u64 v" "dropWhile is_ascii_digit ?s = '' '' @ u"
    using digits space(1) by (simp_all add: takeWhile_append2 dropWhile_append2)
  moreover have "trim ('' '' @ u) = u"
    using trim_id [of u] assms space(2) by (simp add: known_suffix_def trim_def)
  ultimately show ?thesis
    using ne assms parse_u64_show [of v]
    by (simp add: parse_size_def t [simplified] known_suffix_def Let_def split: option.splits)
qed

lemma lower_units:
  "map ascii_lower ''TiB'' = ''tib''" "map ascii_lower ''GiB'' = ''gib''" "map ascii_lower ''MiB'' = ''mib''"
  "map ascii_lower ''KiB'' = ''kib''" "map ascii_lower ''bytes'' = ''bytes''"
  by code_simp+

lemma unit_suffixes:
  "known_suffix ''TiB'' (1024 * 1024 * 1024 * 1024)" "known_suffix ''GiB'' (1024 * 1024 * 1024)"
  "known_suffix ''MiB'' (1024 * 1024)" "known_suffix ''KiB'' 1024" "known_suffix ''bytes'' 1"
  unfolding known_suffix_def lower_units
  by (simp_all add: suffix_multiplier_def is_whitespace_def Let_def)

lemma checked_mul_exact:
  assumes "b mod (m :: u64) = 0"
  shows "checked_mul (b div m) m = Some b"
proof -
  have "unat (b div m) * unat m = unat b"
    using assms by (metis div_mult_mod_eq add.right_neutral unat_div_distrib unat_eq_zero unat_mod_distrib)
  then show ?thesis
    using unat_u64_less [of b] by (auto simp: checked_mul_def word_unat_eq_iff unat_word_ariths)
qed

lemma parse_format: "parse_size (format_size b) = Inr b"
proof -
  have unit: "parse_size (show_u64 (b div m) @ '' '' @ u) = Inr b" if "known_suffix u m" "b mod m = 0" for u m
    using parse_size_shown [OF that(1), of "b div m"] checked_mul_exact [OF that(2)] by simp
  have "checked_mul b 1 = Some b"
    using unat_u64_less [of b] by (simp add: checked_mul_def)
  then have "parse_size (show_u64 b @ '' bytes'') = Inr b"
    using parse_size_shown [OF unit_suffixes(5), of b] by simp
  then show ?thesis
    using unit [OF unit_suffixes(1)] unit [OF unit_suffixes(2)] unit [OF unit_suffixes(3)] unit [OF unit_suffixes(4)]
    by (simp add: format_size_def size_units_def del: append.simps)
qed

text \<open>A number and a multiplier are multiplied without wrapping.\<close>

lemma suffix_multiplier_positive: "suffix_multiplier u = Some m \<Longrightarrow> 0 < unat m"
  by (auto simp: suffix_multiplier_def split: if_splits)

lemma takeWhile_rest: "takeWhile P (dropWhile P xs) = []"
  by (induction xs) auto

lemma exact_product:
  assumes "0 < unat m"
  shows "(\<exists>v. parse_u64 ds = Some v \<and> checked_mul v m = Some r) \<longleftrightarrow> digits_value ds * unat m = unat r"
proof (cases "digits_value ds < 2 ^ 64")
  case True
  then have "(\<exists>v. parse_u64 ds = Some v \<and> checked_mul v m = Some r) \<longleftrightarrow> checked_mul (of_nat (digits_value ds)) m = Some r"
    by (simp add: parse_u64_def)
  also have "\<dots> \<longleftrightarrow> digits_value ds * unat m = unat r"
    using unat_u64_less [of r] unat_of_nat_u64 [OF True] by (auto simp: checked_mul_def word_unat_eq_iff unat_word_ariths)
  finally show ?thesis .
next
  case False
  have "digits_value ds \<le> digits_value ds * unat m" using assms by (cases "unat m") simp_all
  then have "digits_value ds * unat m \<noteq> unat r" using False unat_u64_less [of r] by linarith
  then show ?thesis using False by (simp add: parse_u64_def)
qed

section \<open>Properties\<close>

text \<open>
  C38. Every byte count survives being printed and read back: \<open>parse_size\<close> accepts what
  \<open>format_size\<close> writes and returns the same number.
\<close>

theorem parse_format_roundtrip: "parse_size (format_size b) = Inr b"
  by (rule parse_format)

text \<open>
  C39. Exactly the sizes are accepted: \<open>parse_size\<close> answers \<open>r\<close> just when the trimmed text is
  one or more decimal digits followed by a unit it knows (in any case, blanks between allowed)
  and \<open>r\<close> is the product of the number and the unit's multiplier, computed without wrap-around;
  so a product that does not fit 64 bits, and everything else, is an error.
\<close>

theorem parse_size_exact:
  "parse_size s = Inr r \<longleftrightarrow>
     (\<exists>ds u m. trim s = ds @ u \<and> ds \<noteq> [] \<and> list_all is_ascii_digit ds \<and> takeWhile is_ascii_digit u = [] \<and>
        suffix_multiplier (map ascii_lower (trim u)) = Some m \<and> digits_value ds * unat m = unat r)"
proof -
  let ?ds = "takeWhile is_ascii_digit (trim s)" and ?u = "dropWhile is_ascii_digit (trim s)"
  have split: "ds = ?ds \<and> u = ?u"
    if "trim s = ds @ u" "list_all is_ascii_digit ds" "takeWhile is_ascii_digit u = []" for ds u
    using that takeWhile_append2 [of ds is_ascii_digit u] dropWhile_append2 [of ds is_ascii_digit u]
    by (simp add: list_all_iff) (metis append_Nil takeWhile_dropWhile_id)
  have "(\<exists>ds u m. trim s = ds @ u \<and> ds \<noteq> [] \<and> list_all is_ascii_digit ds \<and> takeWhile is_ascii_digit u = [] \<and>
        suffix_multiplier (map ascii_lower (trim u)) = Some m \<and> digits_value ds * unat m = unat r) \<longleftrightarrow>
      ?ds \<noteq> [] \<and> (\<exists>m. suffix_multiplier (map ascii_lower (trim ?u)) = Some m \<and> digits_value ?ds * unat m = unat r)"
    (is "?L \<longleftrightarrow> ?R")
  proof
    assume ?L
    then show ?R using split by blast
  next
    assume ?R
    then show ?L
      using set_takeWhileD [of _ is_ascii_digit "trim s"]
      by (intro exI [of _ ?ds] exI [of _ ?u]) (auto simp: list_all_iff takeWhile_rest)
  qed
  also have "\<dots> \<longleftrightarrow> parse_size s = Inr r"
  proof (cases "suffix_multiplier (map ascii_lower (trim ?u))")
    case (Some m)
    have "parse_size s = Inr r \<longleftrightarrow> ?ds \<noteq> [] \<and> (\<exists>v. parse_u64 ?ds = Some v \<and> checked_mul v m = Some r)"
      using Some by (auto simp: parse_size_def Let_def split: option.splits)
    also have "\<dots> \<longleftrightarrow> ?ds \<noteq> [] \<and> digits_value ?ds * unat m = unat r"
      using exact_product [OF suffix_multiplier_positive [OF Some]] by simp
    finally show ?thesis using Some by simp
  qed (auto simp: parse_size_def Let_def)
  finally show ?thesis by blast
qed

end
