(* ===== verification/Device.thy ===== *)
theory Device
  imports Inode Sparse_Cache
begin

text \<open>
  What the filesystem uses of the device side: \<open>src/src/device.rs\<close> (\<open>is_link_lost\<close>, the
  opener, the unplug switch) and, as a parameter, the crate \<open>mtp_rs\<close>, whose code this
  repository does not contain.

  \<open>mtp_ops\<close> is the interface of that crate as the source calls it, together with the clock,
  the spool disk and the cable. Every operation reads and changes an opaque environment
  \<open>'d\<close>, so nothing is assumed of what a device answers; a property that needs a device law
  states it as a hypothesis. \<open>'dev\<close> is \<open>MtpDevice\<close> and \<open>'s\<close> the session token inside a
  \<open>Storage\<close>. Every error variant the source does not name is an \<open>OtherMtp\<close>.
\<close>

datatype mtp_error =
  Disconnected | DeviceReset | NoDevice | NotFound | Timeout | MtpIo string | OtherMtp string

definition is_link_lost :: "mtp_error \<Rightarrow> bool" where
  "is_link_lost e \<longleftrightarrow> e \<in> {Disconnected, DeviceReset, NoDevice}"

text \<open>A \<open>Storage\<close>: what \<open>id()\<close> and \<open>info()\<close> report, and its session.\<close>

record 's storage =
  st_id :: storage_id
  st_description :: string
  st_total_capacity :: u64
  st_free_space :: u64
  st_session :: 's

text \<open>
  A listed object. Its date is what \<open>to_unix_seconds_with_fallback\<close> answers for
  \<open>modified\<close>: absent, invalid, or seconds since the epoch.
\<close>

record mtp_object =
  ob_handle :: object_handle
  ob_filename :: string
  ob_is_folder :: bool
  ob_size :: u64
  ob_modified :: "int option option"

text \<open>A \<open>FileDownload\<close> as the filler will see it (\<open>fill_from_stream\<close>'s script).\<close>

type_synonym download = "bool \<times> mtp_error fill_turn list"

record ('dev, 's, 'd) mtp_ops =
  op_is_stale :: "mtp_error \<Rightarrow> bool"
  op_error_text :: "mtp_error \<Rightarrow> string"
  op_root_handle :: object_handle
  op_partial :: "'dev \<Rightarrow> bool"
  op_renames :: "'dev \<Rightarrow> bool"
  op_describe :: string
  op_open :: "'d \<Rightarrow> (mtp_error + 'dev) \<times> 'd"
  op_storages :: "'dev \<Rightarrow> 'd \<Rightarrow> (mtp_error + 's storage list) \<times> 'd"
  op_list :: "'s storage \<Rightarrow> object_handle option \<Rightarrow> 'd \<Rightarrow> (mtp_error + mtp_object list) \<times> 'd"
  op_upload :: "'s storage \<Rightarrow> object_handle option \<Rightarrow> string \<Rightarrow> u64 \<Rightarrow> (io_error + byte list) list \<Rightarrow>
    'd \<Rightarrow> (mtp_error + object_handle) \<times> 'd"
  op_delete :: "'s storage \<Rightarrow> object_handle \<Rightarrow> 'd \<Rightarrow> (mtp_error + unit) \<times> 'd"
  op_rename :: "'s storage \<Rightarrow> object_handle \<Rightarrow> string \<Rightarrow> 'd \<Rightarrow> (mtp_error + unit) \<times> 'd"
  op_move :: "'s storage \<Rightarrow> object_handle \<Rightarrow> object_handle \<Rightarrow> 'd \<Rightarrow> (mtp_error + unit) \<times> 'd"
  op_create_folder :: "'s storage \<Rightarrow> object_handle option \<Rightarrow> string \<Rightarrow> 'd \<Rightarrow> (mtp_error + object_handle) \<times> 'd"
  op_get_info :: "'s storage \<Rightarrow> object_handle \<Rightarrow> 'd \<Rightarrow> (mtp_error + unit) \<times> 'd"
  op_read_range :: "'s storage \<Rightarrow> object_handle \<Rightarrow> u64 \<Rightarrow> u32 \<Rightarrow> 'd \<Rightarrow> (mtp_error + byte list) \<times> 'd"
  op_download :: "'s storage \<Rightarrow> object_handle \<Rightarrow> 'd \<Rightarrow> (mtp_error + download) \<times> 'd"
  env_now :: "'d \<Rightarrow> time \<times> 'd"
  env_sleep :: "nat \<Rightarrow> 'd \<Rightarrow> 'd"
  env_unplugged :: "'d \<Rightarrow> bool"
  env_disk :: "'d \<Rightarrow> io_outcome \<times> 'd"
  env_reads :: "'d \<Rightarrow> (nat \<Rightarrow> read_outcome) \<times> 'd"

section \<open>Conversions of fs.rs\<close>

definition mtp_datetime_to_system_time :: "int option \<Rightarrow> time" where
  "mtp_datetime_to_system_time dt =
     (case dt of Some secs \<Rightarrow> (if secs \<ge> 0 then secs * 1000000000 else 0) | None \<Rightarrow> 0)"

datatype file_type = FileTypeDirectory | FileTypeRegular

record file_attr =
  fa_ino :: inode
  fa_size :: u64
  fa_blocks :: u64
  fa_atime :: time
  fa_mtime :: time
  fa_ctime :: time
  fa_crtime :: time
  fa_kind :: file_type
  fa_perm :: u16
  fa_nlink :: u32
  fa_uid :: u32
  fa_gid :: u32
  fa_rdev :: u32
  fa_blksize :: u32
  fa_flags :: u32

text \<open>The ids are those of the process; 493 and 420 are octal 755 and 644.\<close>

definition inode_to_file_attr :: "u32 \<Rightarrow> u32 \<Rightarrow> inode_entry \<Rightarrow> file_attr" where
  "inode_to_file_attr uid gid e =
     \<lparr>fa_ino = ie_inode e, fa_size = ie_size e, fa_blocks = div_ceil (ie_size e) 512,
      fa_atime = ie_atime e, fa_mtime = ie_mtime e, fa_ctime = ie_mtime e, fa_crtime = ie_mtime e,
      fa_kind = (if is_dir e then FileTypeDirectory else FileTypeRegular),
      fa_perm = (if is_dir e then 493 else 420), fa_nlink = (if is_dir e then 2 else 1),
      fa_uid = uid, fa_gid = gid, fa_rdev = 0, fa_blksize = 4096, fa_flags = 0\<rparr>"

definition storage_name :: "'s storage \<Rightarrow> string" where
  "storage_name s =
     (if st_description s = [] then ''Storage_'' @ show_nat (unat (st_id s)) else st_description s)"

definition temp_upload_name :: "string \<Rightarrow> string" where
  "temp_upload_name name = ''.~tmp~'' @ name"

text \<open>\<open>e.to_string()\<close> is the message.\<close>

definition io_to_mtp :: "io_error \<Rightarrow> mtp_error" where
  "io_to_mtp e = MtpIo (io_error_message e)"

section \<open>The read path of an object\<close>

datatype read_strategy_kind = Ranged | SequentialFull | TooLargeForSequentialFull

definition DEFAULT_FULL_DOWNLOAD_LIMIT :: u64 where
  "DEFAULT_FULL_DOWNLOAD_LIMIT = 4 * 1024 * 1024 * 1024"

definition read_strategy :: "bool \<Rightarrow> u64 \<Rightarrow> u64 \<Rightarrow> read_strategy_kind" where
  "read_strategy partial sz limit =
     (if partial then Ranged
      else if limit = 0 \<or> sz \<le> limit then SequentialFull
      else TooLargeForSequentialFull)"

end
