(* ===== verification/Fs_Session.thy ===== *)
theory Fs_Session
  imports Device Buffer Fill Reconnect
begin

text \<open>
  \<open>src/src/fs.rs\<close>, the session half: the mount's state (\<open>Inner\<close> and \<open>MtpFs\<close> as one record),
  recovery from a lost link and from stale handles (\<open>with_recovery\<close>, \<open>reconnect\<close>,
  \<open>adopt\<close>, \<open>invalidate_handles\<close>), resolving handles by path (\<open>ensure_fresh\<close>,
  \<open>find_storage_index\<close>) and listing a directory into the inode table.

  Methods that take \<open>&mut Inner\<close> are operations \<open>('w, mtp_error, 'a) op\<close> on the state; the
  device operations are the argument \<open>ops\<close>. The \<open>attempt\<close> closure of \<open>with_recovery\<close> is
  given the number of earlier runs, which is all the state the source's closures capture.
\<close>

section \<open>The mount's state\<close>

record ('dev, 's, 'd) mtp_fs =
  fs_device :: 'dev
  fs_policy :: reconnect_policy
  fs_shutdown :: shutdown
  fs_event_epoch :: u64
  fs_storages :: "'s storage list"
  fs_inodes :: inode_table
  fs_write_buf :: write_buffer
  fs_read_cache :: "inode \<rightharpoonup> cache_id"
  fs_dirs_loaded :: "inode \<rightharpoonup> bool"
  fs_fh_to_inode :: "u64 \<rightharpoonup> inode"
  fs_next_fh :: u64
  fs_read_only :: bool
  fs_fetch_counter :: u64
  fs_full_fill_counter :: u64
  fs_full_download_limit :: u64
  fs_fills :: tracker_state
  fs_heap :: cache_heap
  fs_next_cache :: cache_id
  fs_event_loops :: "('dev \<times> u64) list"
  fs_fillers :: "(inode \<times> cache_id \<times> download) list"
  fs_env :: 'd

type_synonym ('dev, 's, 'd, 'a) fs_op = "(('dev, 's, 'd) mtp_fs, mtp_error, 'a) op"

definition fs_new :: "'dev \<Rightarrow> reconnect_policy \<Rightarrow> bool \<Rightarrow> u64 \<Rightarrow> cache_heap \<Rightarrow> 'd \<Rightarrow> ('dev, 's, 'd) mtp_fs" where
  "fs_new dev policy ro limit heap env =
     \<lparr>fs_device = dev, fs_policy = policy, fs_shutdown = shutdown_default, fs_event_epoch = 0,
      fs_storages = [], fs_inodes = it_new, fs_write_buf = wb_new, fs_read_cache = Map.empty,
      fs_dirs_loaded = Map.empty, fs_fh_to_inode = Map.empty, fs_next_fh = 1, fs_read_only = ro,
      fs_fetch_counter = 0, fs_full_fill_counter = 0, fs_full_download_limit = limit,
      fs_fills = tracker_default, fs_heap = heap, fs_next_cache = 0, fs_event_loops = [],
      fs_fillers = [], fs_env = env\<rparr>"

text \<open>A call that only reaches the environment: the device, the clock or the disk.\<close>

definition call :: "('d \<Rightarrow> ('e + 'a) \<times> 'd) \<Rightarrow> (('dev, 's, 'd) mtp_fs, 'e, 'a) op" where
  "call f w = (case f (fs_env w) of (r, d) \<Rightarrow> (r, w\<lparr>fs_env := d\<rparr>))"

definition ask :: "('d \<Rightarrow> 'a \<times> 'd) \<Rightarrow> ('dev, 's, 'd) mtp_fs \<Rightarrow> 'a \<times> ('dev, 's, 'd) mtp_fs" where
  "ask f w = (case f (fs_env w) of (a, d) \<Rightarrow> (a, w\<lparr>fs_env := d\<rparr>))"

definition is_unplugged :: "('dev, 's, 'd) mtp_ops \<Rightarrow> ('dev, 's, 'd) mtp_fs \<Rightarrow> bool" where
  "is_unplugged ops w = env_unplugged ops (fs_env w)"

definition upd_inodes :: "(inode_table \<Rightarrow> inode_table) \<Rightarrow> ('dev, 's, 'd) mtp_fs \<Rightarrow> ('dev, 's, 'd) mtp_fs" where
  "upd_inodes f w = w\<lparr>fs_inodes := f (fs_inodes w)\<rparr>"

definition read_strategy_for :: "('dev, 's, 'd) mtp_ops \<Rightarrow> ('dev, 's, 'd) mtp_fs \<Rightarrow> u64 \<Rightarrow> read_strategy_kind" where
  "read_strategy_for ops w sz = read_strategy (op_partial ops (fs_device w)) sz (fs_full_download_limit w)"

definition drop_read_cache_if_unused :: "inode \<Rightarrow> ('dev, 's, 'd) mtp_fs \<Rightarrow> ('dev, 's, 'd) mtp_fs" where
  "drop_read_cache_if_unused i w =
     (if i \<in> ran (fs_fh_to_inode w) then w
      else if (case fs_read_cache w i of Some c \<Rightarrow> is_filling (fs_heap w c) | None \<Rightarrow> False) then w
      else w\<lparr>fs_read_cache := (fs_read_cache w)(i := None)\<rparr>)"

definition alloc_fh :: "('dev, 's, 'd) mtp_fs \<Rightarrow> u64 \<times> ('dev, 's, 'd) mtp_fs" where
  "alloc_fh w = (fs_next_fh w, w\<lparr>fs_next_fh := fs_next_fh w + 1\<rparr>)"

section \<open>Walking up the tree\<close>

text \<open>
  Both walks of the source are loops with no bound: \<open>None\<close> is the walk that never ends.
\<close>

definition position :: "('a \<Rightarrow> bool) \<Rightarrow> 'a list \<Rightarrow> nat option" where
  "position P xs = (if list_ex P xs then Some (length (takeWhile (\<lambda>x. \<not> P x) xs)) else None)"

partial_function (option) storage_walk :: "inode_table \<Rightarrow> inode \<Rightarrow> storage_id option option" where
  "storage_walk t current =
     (case entries t current of
        None \<Rightarrow> Some None
      | Some e \<Rightarrow>
          (case ie_kind e of
             Storage sid \<Rightarrow> Some (Some sid)
           | _ \<Rightarrow> (if current = ie_parent e then Some None else storage_walk t (ie_parent e))))"

declare storage_walk.simps [code]

definition find_storage_index :: "('dev, 's, 'd) mtp_fs \<Rightarrow> inode \<Rightarrow> nat option" where
  "find_storage_index w i =
     (case storage_walk (fs_inodes w) i of
        Some (Some sid) \<Rightarrow> position (\<lambda>s. st_id s = sid) (fs_storages w)
      | _ \<Rightarrow> None)"

text \<open>The chain \<open>ensure_fresh\<close> collects, from the node up; \<open>Some None\<close> is its \<open>NotFound\<close>.\<close>

partial_function (option) chain_walk :: "inode_table \<Rightarrow> inode \<Rightarrow> inode list \<Rightarrow> inode list option option" where
  "chain_walk t current chain =
     (case entries t current of
        None \<Rightarrow> Some None
      | Some e \<Rightarrow>
          (case ie_kind e of
             Root \<Rightarrow> Some (Some chain)
           | Storage _ \<Rightarrow> Some (Some chain)
           | _ \<Rightarrow>
               (if current = ie_parent e then Some None
                else chain_walk t (ie_parent e) (chain @ [current]))))"

declare chain_walk.simps [code]

section \<open>Stale handles and lost links\<close>

definition MAX_ATTEMPTS :: nat where
  "MAX_ATTEMPTS = 3"

definition MAX_STALE_RETRIES :: nat where
  "MAX_STALE_RETRIES = 1"

definition invalidate_handles :: "('dev, 's, 'd) mtp_fs \<Rightarrow> ('dev, 's, 'd) mtp_fs" where
  "invalidate_handles w =
     w\<lparr>fs_inodes := bump_generation (fs_inodes w), fs_dirs_loaded := [ROOT_INODE \<mapsto> True]\<rparr>"

definition give_up :: "string \<Rightarrow> ('dev, 's, 'd) mtp_fs \<Rightarrow> ('dev, 's, 'd) mtp_fs" where
  "give_up reason w = w\<lparr>fs_shutdown := request_shutdown reason (fs_shutdown w)\<rparr>"

text \<open>Re-mapping the storage inodes, in the order of the root's listing.\<close>

definition matched_storage :: "'s storage list \<Rightarrow> nat \<Rightarrow> string \<Rightarrow> 's storage option" where
  "matched_storage ss pos name =
     (case List.find (\<lambda>s. storage_name s = name) ss of
        Some s \<Rightarrow> Some s
      | None \<Rightarrow> (if pos < length ss then Some (ss ! pos) else None))"

fun remap_storages :: "'s storage list \<Rightarrow> nat \<Rightarrow> inode list \<Rightarrow> inode_table \<Rightarrow> inode_table" where
  "remap_storages ss pos [] t = t"
| "remap_storages ss pos (i # rest) t =
     remap_storages ss (Suc pos) rest
       (case entries t i of
          None \<Rightarrow> t
        | Some e \<Rightarrow>
            (case matched_storage ss pos (ie_name e) of
               Some s \<Rightarrow> set_storage_id i (st_id s) t
             | None \<Rightarrow> t))"

definition adopt :: "('dev, 's, 'd) mtp_ops \<Rightarrow> 'dev \<Rightarrow> ('dev, 's, 'd, unit) fs_op" where
  "adopt ops dev = bind_op (call (op_storages ops dev)) (\<lambda>storages. modify_op (\<lambda>w.
     let t = remap_storages storages 0 (children (fs_inodes w) ROOT_INODE) (fs_inodes w);
         epoch = fs_event_epoch w + 1
     in w\<lparr>fs_inodes := bump_generation t, fs_storages := storages, fs_device := dev,
          fs_dirs_loaded := [ROOT_INODE \<mapsto> True], fs_event_epoch := epoch,
          fs_event_loops := fs_event_loops w @ [(dev, epoch)]\<rparr>))"

text \<open>The loop over the backoff's pauses: \<open>True\<close> when a reopened device was adopted.\<close>

fun reopen_loop :: "('dev, 's, 'd) mtp_ops \<Rightarrow> nat list \<Rightarrow> ('dev, 's, 'd) mtp_fs \<Rightarrow> bool \<times> ('dev, 's, 'd) mtp_fs" where
  "reopen_loop ops [] w = (False, w)"
| "reopen_loop ops (delay # ds) w =
     (let w = w\<lparr>fs_env := env_sleep ops delay (fs_env w)\<rparr> in
      if is_unplugged ops w then reopen_loop ops ds w
      else
        (case call (op_open ops) w of
           (Inl e, w) \<Rightarrow> reopen_loop ops ds w
         | (Inr dev, w) \<Rightarrow>
             (case adopt ops dev w of
                (Inr _, w) \<Rightarrow> (True, w)
              | (Inl e, w) \<Rightarrow> reopen_loop ops ds w)))"

text \<open>The iterator is exhausted after finitely many pauses (\<open>backoff_fills_window\<close>).\<close>

definition pauses :: "reconnect_policy \<Rightarrow> nat list" where
  "pauses p = (case delays (schedule p) of Some ds \<Rightarrow> ds | None \<Rightarrow> [])"

definition reconnect :: "('dev, 's, 'd) mtp_ops \<Rightarrow> ('dev, 's, 'd, unit) fs_op" where
  "reconnect ops w =
     (if policy_is_disabled (fs_policy w)
      then (Inl Disconnected,
            give_up (op_describe ops @ '' disconnected and reconnect is off (--reconnect-timeout 0)'') w)
      else
        (case reopen_loop ops (pauses (fs_policy w)) w of
           (True, w') \<Rightarrow> (Inr (), w')
         | (False, w') \<Rightarrow>
             (Inl Disconnected,
              give_up (op_describe ops @ [CHR '' ''] @ ''didn't come back within '' @
                show_nat (rp_timeout (fs_policy w) div 1000) @ ''s'') w')))"

text \<open>How one session's attempts end: with a value, with an error for the caller, or with the link.\<close>

datatype 'a session_end = Done 'a | Failed mtp_error | LinkLost

fun session_attempts ::
  "('dev, 's, 'd) mtp_ops \<Rightarrow> (nat \<Rightarrow> ('dev, 's, 'd, 'a) fs_op) \<Rightarrow> nat \<Rightarrow> nat \<Rightarrow> ('dev, 's, 'd) mtp_fs \<Rightarrow>
   'a session_end \<times> nat \<times> ('dev, 's, 'd) mtp_fs" where
  "session_attempts ops attempt stale_retries k w =
     (if is_unplugged ops w then (LinkLost, k, w)
      else
        (case attempt k w of
           (Inr v, w') \<Rightarrow> (Done v, Suc k, w')
         | (Inl e, w') \<Rightarrow>
             (if op_is_stale ops e
              then (case stale_retries of
                      0 \<Rightarrow> (Failed e, Suc k, w')
                    | Suc n \<Rightarrow> session_attempts ops attempt n (Suc k) (invalidate_handles w'))
              else if \<not> is_link_lost e then (Failed e, Suc k, w')
              else (LinkLost, Suc k, w'))))"

declare session_attempts.simps [simp del]

fun recovery_loop ::
  "('dev, 's, 'd) mtp_ops \<Rightarrow> (nat \<Rightarrow> ('dev, 's, 'd, 'a) fs_op) \<Rightarrow> nat \<Rightarrow> nat \<Rightarrow> ('dev, 's, 'd, 'a) fs_op" where
  "recovery_loop ops attempt 0 k w = (Inl Disconnected, w)"
| "recovery_loop ops attempt (Suc n) k w =
     (case session_attempts ops attempt MAX_STALE_RETRIES k w of
        (Done v, k', w') \<Rightarrow> (Inr v, w')
      | (Failed e, k', w') \<Rightarrow> (Inl e, w')
      | (LinkLost, k', w') \<Rightarrow>
          (case reconnect ops w' of
             (Inl e, w'') \<Rightarrow> (Inl e, w'')
           | (Inr _, w'') \<Rightarrow> recovery_loop ops attempt n k' w''))"

definition with_recovery ::
  "('dev, 's, 'd) mtp_ops \<Rightarrow> (nat \<Rightarrow> ('dev, 's, 'd, 'a) fs_op) \<Rightarrow> ('dev, 's, 'd, 'a) fs_op" where
  "with_recovery ops attempt = recovery_loop ops attempt MAX_ATTEMPTS 0"

section \<open>Resolving handles by path\<close>

text \<open>One node of the chain, below \<open>parent\<close>: its handle, re-resolved by name when stale.\<close>

definition resolve_node ::
  "('dev, 's, 'd) mtp_ops \<Rightarrow> nat \<Rightarrow> inode \<Rightarrow> object_handle option \<Rightarrow> ('dev, 's, 'd, object_handle option) fs_op" where
  "resolve_node ops idx node parent w =
     (case entries (fs_inodes w) node of
        None \<Rightarrow> (Inl NotFound, w)
      | Some e \<Rightarrow>
          (if is_fresh (fs_inodes w) node
           then (case ie_kind e of
                   Directory h \<Rightarrow> (Inr (Some h), w)
                 | File h \<Rightarrow> (Inr (Some h), w)
                 | _ \<Rightarrow> (Inl NotFound, w))
           else
             (case call (op_list ops (fs_storages w ! idx) parent) w of
                (Inl e', w') \<Rightarrow> (Inl e', w')
              | (Inr objects, w') \<Rightarrow>
                  (case List.find (\<lambda>ob. ob_filename ob = ie_name e) objects of
                     None \<Rightarrow> (Inl NotFound, w')
                   | Some found \<Rightarrow>
                       (Inr (Some (ob_handle found)),
                        upd_inodes (set_handle node (ob_handle found)) w')))))"

fun resolve_chain ::
  "('dev, 's, 'd) mtp_ops \<Rightarrow> nat \<Rightarrow> inode list \<Rightarrow> object_handle option \<Rightarrow> ('dev, 's, 'd, unit) fs_op" where
  "resolve_chain ops idx [] parent = ret_op ()"
| "resolve_chain ops idx (node # chain) parent =
     bind_op (resolve_node ops idx node parent) (\<lambda>parent. resolve_chain ops idx chain parent)"

definition ensure_fresh :: "('dev, 's, 'd) mtp_ops \<Rightarrow> inode \<Rightarrow> ('dev, 's, 'd, unit) fs_op" where
  "ensure_fresh ops i w =
     (if is_fresh (fs_inodes w) i then (Inr (), w)
      else
        (case chain_walk (fs_inodes w) i [] of
           Some (Some up) \<Rightarrow>
             (case find_storage_index w i of
                None \<Rightarrow> (Inl NotFound, w)
              | Some idx \<Rightarrow> resolve_chain ops idx (rev up) None w)
         | _ \<Rightarrow> (Inl NotFound, w)))"

definition file_handle :: "('dev, 's, 'd) mtp_ops \<Rightarrow> inode \<Rightarrow> ('dev, 's, 'd, object_handle) fs_op" where
  "file_handle ops i = bind_op (ensure_fresh ops i) (\<lambda>_. lift_opt NotFound (\<lambda>w.
     case map_option ie_kind (entries (fs_inodes w) i) of Some (File h) \<Rightarrow> Some h | _ \<Rightarrow> None))"

definition any_object_handle :: "('dev, 's, 'd) mtp_ops \<Rightarrow> inode \<Rightarrow> ('dev, 's, 'd, object_handle) fs_op" where
  "any_object_handle ops i = bind_op (ensure_fresh ops i) (\<lambda>_. lift_opt NotFound (\<lambda>w.
     case map_option ie_kind (entries (fs_inodes w) i) of
       Some (File h) \<Rightarrow> Some h | Some (Directory h) \<Rightarrow> Some h | _ \<Rightarrow> None))"

definition parent_handle :: "('dev, 's, 'd) mtp_ops \<Rightarrow> inode \<Rightarrow> ('dev, 's, 'd, object_handle option) fs_op" where
  "parent_handle ops i = bind_op (ensure_fresh ops i) (\<lambda>_. lift_opt NotFound (\<lambda>w.
     case map_option ie_kind (entries (fs_inodes w) i) of
       Some (Storage _) \<Rightarrow> Some None | Some (Directory h) \<Rightarrow> Some (Some h) | _ \<Rightarrow> None))"

text \<open>\<open>find_storage_index(..).ok_or(NotFound)\<close>, and a call on the storage found.\<close>

definition storage_index :: "inode \<Rightarrow> ('dev, 's, 'd, nat) fs_op" where
  "storage_index i = lift_opt NotFound (\<lambda>w. find_storage_index w i)"

definition on_storage ::
  "nat \<Rightarrow> ('s storage \<Rightarrow> 'd \<Rightarrow> (mtp_error + 'a) \<times> 'd) \<Rightarrow> ('dev, 's, 'd, 'a) fs_op" where
  "on_storage idx f w = call (f (fs_storages w ! idx)) w"

section \<open>Listing a directory\<close>

definition child_of_object :: "mtp_object \<Rightarrow> child_info" where
  "child_of_object ob =
     \<lparr>ci_handle = ob_handle ob, ci_name = ob_filename ob, ci_is_dir = ob_is_folder ob,
      ci_size = ob_size ob,
      ci_mtime = (case ob_modified ob of Some dt \<Rightarrow> mtp_datetime_to_system_time dt | None \<Rightarrow> 0)\<rparr>"

definition list_into_table :: "('dev, 's, 'd) mtp_ops \<Rightarrow> inode \<Rightarrow> ('dev, 's, 'd, unit) fs_op" where
  "list_into_table ops p =
     bind_op (parent_handle ops p) (\<lambda>mtp_parent.
     bind_op (storage_index p) (\<lambda>idx.
     bind_op (on_storage idx (\<lambda>s. op_list ops s mtp_parent)) (\<lambda>objects.
     modify_op (upd_inodes (sync_children p (map child_of_object objects))))))"

definition load_dir :: "('dev, 's, 'd) mtp_ops \<Rightarrow> inode \<Rightarrow> ('dev, 's, 'd) mtp_fs \<Rightarrow> ('dev, 's, 'd) mtp_fs" where
  "load_dir ops p w =
     (if fs_dirs_loaded w p = Some True then w
      else if p = ROOT_INODE then w\<lparr>fs_dirs_loaded := (fs_dirs_loaded w)(p \<mapsto> True)\<rparr>
      else
        (case with_recovery ops (\<lambda>_. list_into_table ops p) w of
           (Inr _, w') \<Rightarrow> w'\<lparr>fs_dirs_loaded := (fs_dirs_loaded w')(p \<mapsto> True)\<rparr>
         | (Inl e, w') \<Rightarrow> w'))"

end
