(* ===== verification/Demo_Device.thy ===== *)
theory Demo_Device
  imports Fs_Session
begin

text \<open>
  A small device, used only to show that hypotheses about the parameter \<open>mtp_ops\<close> can hold:
  one storage, its files in one flat folder, a handle per upload, a clock that stands still.
  Without its cable every call answers \<open>Disconnected\<close>; a handle it does not know is stale.
\<close>

record demo_env =
  dd_objects :: "(object_handle \<times> string \<times> byte list) list"
  dd_next :: object_handle
  dd_plugged :: bool

definition stale_error :: mtp_error where
  "stale_error = OtherMtp ''InvalidObjectHandle''"

definition demo_storage :: "unit storage" where
  "demo_storage = \<lparr>st_id = 1, st_description = ''Internal'', st_total_capacity = 1000, st_free_space = 500,
     st_session = ()\<rparr>"

definition plugged :: "(demo_env \<Rightarrow> (mtp_error + 'a) \<times> demo_env) \<Rightarrow> demo_env \<Rightarrow> (mtp_error + 'a) \<times> demo_env" where
  "plugged f d = (if dd_plugged d then f d else (Inl Disconnected, d))"

definition on_object ::
  "object_handle \<Rightarrow> (string \<times> byte list \<Rightarrow> demo_env \<Rightarrow> (mtp_error + 'a) \<times> demo_env) \<Rightarrow> demo_env \<Rightarrow>
   (mtp_error + 'a) \<times> demo_env" where
  "on_object h f = plugged (\<lambda>d. case map_of (dd_objects d) h of None \<Rightarrow> (Inl stale_error, d) | Some ob \<Rightarrow> f ob d)"

definition demo_object :: "object_handle \<times> string \<times> byte list \<Rightarrow> mtp_object" where
  "demo_object ob = \<lparr>ob_handle = fst ob, ob_filename = fst (snd ob), ob_is_folder = False,
     ob_size = of_nat (length (snd (snd ob))), ob_modified = None\<rparr>"

definition demo_store ::
  "string \<Rightarrow> byte list \<Rightarrow> demo_env \<Rightarrow> (mtp_error + object_handle) \<times> demo_env" where
  "demo_store n bs d =
     (if dd_next d = - 1 then (Inl (OtherMtp ''full''), d)
      else (Inr (dd_next d), d\<lparr>dd_objects := (dd_next d, n, bs) # dd_objects d, dd_next := dd_next d + 1\<rparr>))"

definition demo_upload ::
  "string \<Rightarrow> (io_error + byte list) list \<Rightarrow> demo_env \<Rightarrow> (mtp_error + object_handle) \<times> demo_env" where
  "demo_upload n stream = plugged
     (case stream_bytes stream of
        Inr bs \<Rightarrow> demo_store n bs
      | Inl e \<Rightarrow> (\<lambda>d. (Inl (MtpIo (io_error_message e)), d)))"

definition demo_drop :: "object_handle \<Rightarrow> demo_env \<Rightarrow> demo_env" where
  "demo_drop h d = d\<lparr>dd_objects := filter (\<lambda>ob. fst ob \<noteq> h) (dd_objects d)\<rparr>"

definition demo_relabel :: "object_handle \<Rightarrow> string \<Rightarrow> demo_env \<Rightarrow> demo_env" where
  "demo_relabel h n d = d\<lparr>dd_objects := map (\<lambda>(k, m, bs). (k, if k = h then n else m, bs)) (dd_objects d)\<rparr>"

definition demo_ops :: "(unit, unit, demo_env) mtp_ops" where
  "demo_ops =
     \<lparr>op_is_stale = (\<lambda>e. e = stale_error), op_error_text = (\<lambda>_. ''device error''), op_root_handle = 0,
      op_partial = (\<lambda>_. True), op_renames = (\<lambda>_. True), op_describe = ''demo'',
      op_open = plugged (Pair (Inr ())), op_storages = (\<lambda>_. plugged (Pair (Inr [demo_storage]))),
      op_list = (\<lambda>s p. plugged (\<lambda>d. (Inr (map demo_object (dd_objects d)), d))),
      op_upload = (\<lambda>s p n sz stream. demo_upload n stream),
      op_delete = (\<lambda>s h. on_object h (\<lambda>ob d. (Inr (), demo_drop h d))),
      op_rename = (\<lambda>s h n. on_object h (\<lambda>ob d. (Inr (), demo_relabel h n d))),
      op_move = (\<lambda>s h p. on_object h (\<lambda>ob. Pair (Inr ()))),
      op_create_folder = (\<lambda>s p n. plugged (Pair (Inl (OtherMtp ''no folders'')))),
      op_get_info = (\<lambda>s h. on_object h (\<lambda>ob. Pair (Inr ()))),
      op_read_range = (\<lambda>s h off n. on_object h (\<lambda>ob. Pair (Inr (pread (snd ob) (unat off) (unat n))))),
      op_download = (\<lambda>s h. on_object h (\<lambda>ob. Pair (Inr (False, [(False, IoOk, Inr (snd ob))])))),
      env_now = Pair 0, env_sleep = (\<lambda>n d. d), env_unplugged = (\<lambda>d. False),
      env_disk = Pair IoOk, env_reads = Pair (\<lambda>_. ReadUpTo 4096)\<rparr>"

text \<open>A phone with one file of three bytes, and a mount of it.\<close>

definition demo_phone :: demo_env where
  "demo_phone = \<lparr>dd_objects = [(5, ''a.txt'', [1, 2, 3])], dd_next = 9, dd_plugged = True\<rparr>"

definition demo_fs :: "(unit, unit, demo_env) mtp_fs" where
  "demo_fs =
     (fs_new () \<lparr>rp_timeout = 0\<rparr> False 0 (\<lambda>_. \<lparr>sh_cache = \<lparr>sc_file = sf_new, sc_ranges = rs_new, sc_total = 0\<rparr>,
        sh_fill = FIdle, sh_stop = False\<rparr>) demo_phone)\<lparr>fs_storages := [demo_storage]\<rparr>"

text \<open>The mount after its file was listed: inode 2 is the storage, inode 3 the file.\<close>

definition demo_tree :: inode_table where
  "demo_tree = snd (add_object 2 5 ''a.txt'' False 3 0 (snd (add_storage_at 1 ''Internal'' 0 it_new)))"

definition demo_mount :: "(unit, unit, demo_env) mtp_fs" where
  "demo_mount = demo_fs\<lparr>fs_inodes := demo_tree\<rparr>"

definition demo_file :: inode_entry where
  "demo_file = \<lparr>ie_inode = 3, ie_parent = 2, ie_name = ''a.txt'', ie_kind = File 5, ie_size = 3, ie_mtime = 0,
     ie_atime = 0, ie_generation = 0\<rparr>"

lemma demo_tree_entries:
  "entries demo_tree 3 = Some demo_file" "is_fresh demo_tree 3" "generation demo_tree = 0"
  by (simp_all add: demo_tree_def demo_file_def table_eval is_fresh_def)

lemma demo_tree_storage: "entries demo_tree 2 = Some \<lparr>ie_inode = 2, ie_parent = 1, ie_name = ''Internal'',
    ie_kind = Storage 1, ie_size = 0, ie_mtime = 0, ie_atime = 0, ie_generation = 0\<rparr>"
  by (simp add: demo_tree_def table_eval)

lemma demo_walk: "storage_walk demo_tree 3 = Some (Some 1)"
  by (subst storage_walk.simps, simp add: demo_tree_entries demo_file_def)
    (subst storage_walk.simps, simp add: demo_tree_storage)

end
