(* ===== verification/Session_Facts.thy ===== *)
theory Session_Facts
  imports Demo_Device
begin

text \<open>
  What recovery and handle resolution may and may not change. \<open>frame\<close>, \<open>env_frame\<close> and
  \<open>session_frame\<close> state the contract once: a reflexive, transitive relation that the
  elementary session steps satisfy is satisfied by every composed operation. The model
  provides it for \<open>same_mount\<close> (the tree, the descriptors and the caches survive).
\<close>

section \<open>Relations every run of an operation satisfies\<close>

definition within :: "('s \<Rightarrow> 's \<Rightarrow> bool) \<Rightarrow> ('s, 'e, 'a) op \<Rightarrow> bool" where
  "within R m \<longleftrightarrow> (\<forall>s. R s (snd (m s)))"

lemma withinI: "(\<And>s r s'. m s = (r, s') \<Longrightarrow> R s s') \<Longrightarrow> within R m"
  by (simp add: within_def) (metis prod.collapse)

lemma withinD: "within R m \<Longrightarrow> m s = (r, s') \<Longrightarrow> R s s'"
  by (metis within_def snd_conv)

locale frame =
  fixes R :: "'w \<Rightarrow> 'w \<Rightarrow> bool"
  assumes same: "R w w"
    and chain: "R u v \<Longrightarrow> R v w \<Longrightarrow> R u w"
begin

lemma ret: "within R (ret_op a)"
  by (simp add: within_def same)

lemma lift: "within R (lift_opt e f)"
  by (rule withinI) (auto simp: lift_opt_def same split: option.splits)

lemma modify: "(\<And>w. R w (f w)) \<Longrightarrow> within R (modify_op f)"
  by (simp add: within_def)

lemma bind: "within R m \<Longrightarrow> (\<And>a. within R (f a)) \<Longrightarrow> within R (bind_op m f)"
  by (rule withinI) (auto elim!: bind_op_cases dest: withinD intro: chain)

end

text \<open>A relation a call to the environment satisfies, whatever the environment becomes.\<close>

locale env_frame = frame R for R :: "('dev, 's, 'd) mtp_fs \<Rightarrow> ('dev, 's, 'd) mtp_fs \<Rightarrow> bool" +
  assumes env: "R w (w\<lparr>fs_env := d\<rparr>)"
begin

lemma calls: "within R (call f)"
  by (rule withinI) (auto simp: call_def env split: prod.splits)

lemma on_storages: "within R (on_storage idx f)"
  by (rule withinI) (auto simp: on_storage_def dest: withinD [OF calls])

end

text \<open>A relation that resolving one node of a path satisfies: so does resolving a path.\<close>

locale node_frame = frame R for R :: "('dev, 's, 'd) mtp_fs \<Rightarrow> ('dev, 's, 'd) mtp_fs \<Rightarrow> bool" +
  fixes ops :: "('dev, 's, 'd) mtp_ops"
  assumes nodes: "within R (resolve_node ops idx node parent)"
begin

lemma chains: "within R (resolve_chain ops idx nodes parent)"
proof (induction nodes arbitrary: parent)
  case Nil
  show ?case unfolding resolve_chain.simps by (rule ret)
next
  case (Cons node nodes)
  show ?case unfolding resolve_chain.simps by (intro bind nodes Cons)
qed

lemma freshens: "within R (ensure_fresh ops i)"
  by (rule withinI) (auto simp: ensure_fresh_def same split: if_splits option.splits dest: withinD [OF chains])

lemma handles: "within R (file_handle ops i)" "within R (any_object_handle ops i)" "within R (parent_handle ops i)"
  unfolding file_handle_def any_object_handle_def parent_handle_def
  by (intro bind freshens lift)+

lemma storage_indices: "within R (storage_index i)"
  unfolding storage_index_def by (rule lift)

end

text \<open>A relation that the steps of a recovery satisfy as well.\<close>

locale session_frame = env_frame R + node_frame R ops
  for R :: "('dev, 's, 'd) mtp_fs \<Rightarrow> ('dev, 's, 'd) mtp_fs \<Rightarrow> bool"
    and ops :: "('dev, 's, 'd) mtp_ops" +
  assumes forget: "R w (invalidate_handles w)"
    and quit: "R w (give_up why w)"
    and adopted: "R w (w\<lparr>fs_inodes := bump_generation (remap_storages ss 0 (children (fs_inodes w) ROOT_INODE) (fs_inodes w)),
        fs_storages := ss, fs_device := dev, fs_dirs_loaded := [ROOT_INODE \<mapsto> True],
        fs_event_epoch := fs_event_epoch w + 1,
        fs_event_loops := fs_event_loops w @ [(dev, fs_event_epoch w + 1)]\<rparr>)"
begin

lemma adopts: "within R (adopt ops dev)"
  unfolding adopt_def Let_def by (intro bind calls modify adopted)

lemma reopens: "R w (snd (reopen_loop ops ds w))"
proof (induction ds arbitrary: w)
  case (Cons delay ds)
  let ?w = "w\<lparr>fs_env := env_sleep ops delay (fs_env w)\<rparr>"
  obtain r w1 where c: "call (op_open ops) ?w = (r, w1)" by fastforce
  have 1: "R w w1" using chain [OF env] withinD [OF calls c] by blast
  show ?case
  proof (cases "is_unplugged ops ?w")
    case True
    then show ?thesis using chain [OF env Cons.IH] by simp
  next
    case False
    show ?thesis
    proof (cases r)
      case (Inl e)
      then show ?thesis using False c chain [OF 1 Cons.IH] by simp
    next
      case (Inr dev)
      obtain q w2 where a: "adopt ops dev w1 = (q, w2)" by fastforce
      have 2: "R w w2" using chain [OF 1] withinD [OF adopts a] by blast
      show ?thesis using False c Inr a 2 chain [OF 2 Cons.IH] by (cases q) simp_all
    qed
  qed
qed (simp add: same)

lemma reconnects: "within R (reconnect ops)"
proof (rule withinI)
  fix w r w'
  assume r: "reconnect ops w = (r, w')"
  show "R w w'"
  proof (cases "policy_is_disabled (fs_policy w)")
    case True
    then show ?thesis using r by (auto simp: reconnect_def quit)
  next
    case False
    obtain b v where l: "reopen_loop ops (pauses (fs_policy w)) w = (b, v)" by fastforce
    with reopens [of w "pauses (fs_policy w)"] have "R w v" by simp
    then show ?thesis
      using r False l chain [OF _ quit] by (cases b) (auto simp: reconnect_def)
  qed
qed

lemma sessions:
  assumes at: "\<And>k. within R (attempt k)"
  shows "session_attempts ops attempt n k w = (q, k', w') \<Longrightarrow> R w w'"
proof (induction n arbitrary: k w)
  case (Suc n)
  obtain r v where a: "attempt k w = (r, v)" by fastforce
  have "R w v" using withinD [OF at a] .
  then show ?case
    using Suc.prems a Suc.IH [of "Suc k" "invalidate_handles v"] chain [OF chain [OF _ forget]] same
    by (subst (asm) session_attempts.simps) (auto split: if_splits sum.splits)
next
  case 0
  obtain r v where a: "attempt k w = (r, v)" by fastforce
  have "R w v" using withinD [OF at a] .
  then show ?case
    using 0 a same
    by (subst (asm) session_attempts.simps) (auto split: if_splits sum.splits)
qed

lemma recovers:
  assumes at: "\<And>k. within R (attempt k)"
  shows "within R (recovery_loop ops attempt n k)"
proof (induction n arbitrary: k)
  case (Suc n)
  show ?case
  proof (rule withinI)
    fix w r w'
    assume run: "recovery_loop ops attempt (Suc n) k w = (r, w')"
    obtain q k' v where s: "session_attempts ops attempt MAX_STALE_RETRIES k w = (q, k', v)"
      by (metis prod_cases3)
    have 1: "R w v" by (rule sessions [OF at s])
    show "R w w'"
    proof (cases q)
      case LinkLost
      obtain p u where c: "reconnect ops v = (p, u)" by fastforce
      have 2: "R w u" using chain [OF 1 withinD [OF reconnects c]] .
      show ?thesis
        using run s LinkLost c 2 chain [OF 2 withinD [OF Suc]] by (cases p) auto
    qed (use run s 1 in simp_all)
  qed
qed (simp add: within_def same)

lemma with_recoveries: "(\<And>k. within R (attempt k)) \<Longrightarrow> within R (with_recovery ops attempt)"
  unfolding with_recovery_def by (rule recovers)

lemmas session_nodes = nodes

lemmas session_handles = handles

lemmas session_within = ret lift bind calls on_storages with_recoveries handles storage_indices freshens

end

text \<open>
  A recovered operation either ends with a run of its attempt that succeeded, from a state
  the earlier failures and recoveries led to, or it failed and only failures happened.
\<close>

context session_frame
begin

lemma session_outcome:
  assumes err: "\<And>k s e s'. attempt k s = (Inl e, s') \<Longrightarrow> R s s'"
  shows "session_attempts ops attempt n k w = (q, k', w') \<Longrightarrow>
    (case q of Done v \<Rightarrow> \<exists>j u. R w u \<and> attempt j u = (Inr v, w') | _ \<Rightarrow> R w w')"
proof (induction n arbitrary: k w)
  case 0
  then show ?case
    using same [of w] err [of k w]
    by (subst (asm) session_attempts.simps) (auto split: if_splits sum.splits prod.splits, blast+)
next
  case (Suc n)
  show ?case
  proof (cases "\<exists>e v. \<not> is_unplugged ops w \<and> attempt k w = (Inl e, v) \<and> op_is_stale ops e")
    case True
    then obtain e v where a: "\<not> is_unplugged ops w" "attempt k w = (Inl e, v)" "op_is_stale ops e" by blast
    have 1: "R w (invalidate_handles v)" using chain [OF err [OF a(2)] forget] .
    have "session_attempts ops attempt n (Suc k) (invalidate_handles v) = (q, k', w')"
      using Suc.prems a by (subst (asm) session_attempts.simps) simp
    from Suc.IH [OF this] show ?thesis
      using chain [OF 1] by (auto split: session_end.splits)
  next
    case False
    then show ?thesis
      using Suc.prems same [of w] err [of k w]
      by (subst (asm) session_attempts.simps) (auto split: if_splits sum.splits prod.splits, blast+)
  qed
qed

lemma recovery_loop_outcome:
  assumes err: "\<And>k s e s'. attempt k s = (Inl e, s') \<Longrightarrow> R s s'"
  shows "recovery_loop ops attempt n k w = (r, w') \<Longrightarrow>
    (case r of Inr v \<Rightarrow> \<exists>j u. R w u \<and> attempt j u = (Inr v, w') | Inl e \<Rightarrow> R w w')"
proof (induction n arbitrary: k w)
  case (Suc n)
  obtain q k' v where s: "session_attempts ops attempt MAX_STALE_RETRIES k w = (q, k', v)"
    by (metis prod_cases3)
  note so = session_outcome [OF err s]
  show ?case
  proof (cases q)
    case LinkLost
    obtain p u where c: "reconnect ops v = (p, u)" by fastforce
    have 2: "R w u" using so LinkLost chain [OF _ withinD [OF reconnects c]] by simp
    show ?thesis
    proof (cases p)
      case (Inr x)
      then have "recovery_loop ops attempt n k' u = (r, w')" using Suc.prems s LinkLost c by simp
      from Suc.IH [OF this] show ?thesis using chain [OF 2] by (auto split: sum.splits)
    qed (use Suc.prems s LinkLost c 2 in auto)
  qed (use Suc.prems s so in auto)
qed (auto simp: same)

lemma recovered:
  assumes "\<And>k s e s'. attempt k s = (Inl e, s') \<Longrightarrow> R s s'" and "with_recovery ops attempt w = (r, w')"
  shows "case r of Inr v \<Rightarrow> \<exists>j u. R w u \<and> attempt j u = (Inr v, w') | Inl e \<Rightarrow> R w w'"
  using recovery_loop_outcome [OF assms(1)] assms(2) by (simp add: with_recovery_def)

lemma recovered_value:
  assumes "within R m" and "with_recovery ops (\<lambda>_. m) w = (Inr v, w')"
  shows "\<exists>u. R w u \<and> m u = (Inr v, w')"
  using recovered [of "\<lambda>_. m" w "Inr v" w'] withinD [OF assms(1)] assms(2) by auto

end

text \<open>A relation that does not look at handles: any handle an object resolves to will do.\<close>

locale resolving_frame = env_frame R for R :: "('dev, 's, 'd) mtp_fs \<Rightarrow> ('dev, 's, 'd) mtp_fs \<Rightarrow> bool" +
  fixes ops :: "('dev, 's, 'd) mtp_ops"
  assumes any_forget: "R w (invalidate_handles w)"
    and any_quit: "R w (give_up why w)"
    and any_adopted: "R w (w\<lparr>fs_inodes := bump_generation (remap_storages ss 0 (children (fs_inodes w) ROOT_INODE) (fs_inodes w)),
        fs_storages := ss, fs_device := dev, fs_dirs_loaded := [ROOT_INODE \<mapsto> True],
        fs_event_epoch := fs_event_epoch w + 1,
        fs_event_loops := fs_event_loops w @ [(dev, fs_event_epoch w + 1)]\<rparr>)"
    and resolved: "R w (upd_inodes (set_handle i h) w)"
begin

lemma any_node: "within R (resolve_node ops idx node parent)"
proof (rule withinI)
  fix w r w'
  assume run: "resolve_node ops idx node parent w = (r, w')"
  obtain q v where c: "call (op_list ops (fs_storages w ! idx) parent) w = (q, v)" by fastforce
  have "R w v" using withinD [OF calls c] .
  then show "R w w'"
    using run c same chain [OF _ resolved]
    by (auto simp: resolve_node_def split: option.splits if_splits inode_kind.splits sum.splits)
qed

end

sublocale resolving_frame \<subseteq> session_frame R ops
  by unfold_locales (simp_all add: any_forget any_quit any_adopted any_node)

section \<open>What survives a session\<close>

definition shape :: "inode_kind \<Rightarrow> inode_kind" where
  "shape k = (case k of Root \<Rightarrow> Root | Storage _ \<Rightarrow> Storage 0 | Directory _ \<Rightarrow> Directory 0 | File _ \<Rightarrow> File 0)"

text \<open>An entry without its session-scoped tokens, and a table of such entries.\<close>

definition identity :: "inode_entry \<Rightarrow> inode_entry" where
  "identity e = e\<lparr>ie_kind := shape (ie_kind e), ie_generation := 0\<rparr>"

definition skeleton ::
  "inode_table \<Rightarrow> (inode \<Rightarrow> string \<Rightarrow> inode option) \<times> (inode \<Rightarrow> inode list) \<times> inode \<times> (inode \<Rightarrow> inode_entry option)" where
  "skeleton t = (lookup t, children t, next_inode t, \<lambda>i. map_option identity (entries t i))"

definition mount_view where
  "mount_view w = (skeleton (fs_inodes w), fs_write_buf w, fs_read_cache w, fs_fh_to_inode w, fs_next_fh w,
     fs_read_only w, fs_policy w, fs_full_download_limit w,
     (fs_heap w, fs_next_cache w, fs_fills w, fs_fillers w, fs_fetch_counter w, fs_full_fill_counter w))"

definition same_mount :: "('dev, 's, 'd) mtp_fs \<Rightarrow> ('dev, 's, 'd) mtp_fs \<Rightarrow> bool" where
  "same_mount w w' \<longleftrightarrow> mount_view w' = mount_view w"

lemma skeletonD:
  assumes "skeleton t' = skeleton t"
  shows "lookup t' = lookup t" "children t' = children t" "next_inode t' = next_inode t"
    "map_option identity (entries t' i) = map_option identity (entries t i)"
  using assms by (auto simp: skeleton_def fun_eq_iff)

lemma identity_sel:
  "identity e = identity f \<Longrightarrow> ie_inode e = ie_inode f \<and> ie_parent e = ie_parent f \<and> ie_name e = ie_name f \<and>
     ie_size e = ie_size f \<and> shape (ie_kind e) = shape (ie_kind f)"
  by (cases e; cases f) (simp add: identity_def)

lemma shape_simps [simp]:
  "shape k = Root \<longleftrightarrow> k = Root" "shape Root = Root" "shape (Storage s) = Storage 0"
  "shape (Directory h) = Directory 0" "shape (File h) = File 0"
  by (auto simp: shape_def split: inode_kind.splits)

lemma skeleton_entry:
  assumes "skeleton t' = skeleton t" and "entries t i = Some e"
  obtains e' where "entries t' i = Some e'" "identity e' = identity e"
  using skeletonD(4) [OF assms(1), of i] assms(2) by auto

lemma skeleton_sits_imp:
  assumes "skeleton t' = skeleton t" and "sits t p n j"
  shows "sits t' p n j"
proof -
  obtain e where e: "entries t j = Some e" "ie_parent e = p" "ie_name e = n" "j \<noteq> ROOT_INODE"
    using assms(2) by (auto simp: sits_def)
  obtain e' where "entries t' j = Some e'" "identity e' = identity e"
    using skeleton_entry [OF assms(1) e(1)] .
  with e identity_sel [of e' e] show ?thesis by (auto simp: sits_def)
qed

lemma skeleton_sits: "skeleton t' = skeleton t \<Longrightarrow> sits t' = sits t"
  using skeleton_sits_imp [of t' t] skeleton_sits_imp [of t t'] by (intro ext) auto

lemma skeleton_live: "skeleton t' = skeleton t \<Longrightarrow> entries t' p = None \<longleftrightarrow> entries t p = None"
  using skeletonD(4) [of t' t p] by (metis map_option_is_None)

lemma skeleton_wf:
  assumes sk: "skeleton t' = skeleton t" and wf: "tab_wf t"
  shows "tab_wf t'"
proof -
  note eq = skeletonD(1-3) [OF sk] skeleton_sits [OF sk]
  have kids: "child_of t' = child_of t" by (simp add: child_of_def eq fun_eq_iff)
  show ?thesis
  proof (rule tab_wfI, goal_cases)
    case (1 i e)
    obtain f where f: "entries t i = Some f" "identity f = identity e"
      using skeleton_entry [OF sk [symmetric] 1] .
    show ?case
      using tab_wf_entry [OF wf f(1)] identity_sel [OF f(2)] eq(3) by (metis shape_simps(1))
  next
    case 2
    obtain r where r: "entries t ROOT_INODE = Some r" "ie_kind r = Root" using tab_wf_root [OF wf] by blast
    then show ?case using skeleton_entry [OF sk r(1)] identity_sel by (metis shape_simps(1))
  next
    case (6 p i)
    then show ?case using tab_wf_listed [OF wf, of p i] skeleton_live [OF sk] by (simp add: kids eq)
  qed (use tab_wf_facts(3-5) [OF wf] in \<open>simp_all add: eq kids\<close>)
qed

lemma skeleton_bump: "skeleton (bump_generation t) = skeleton t"
  by (simp add: skeleton_def)

lemma skeleton_update:
  assumes "\<And>e. identity (f e) = identity e"
  shows "skeleton (update_entry i f t) = skeleton t"
proof -
  have "map_option identity (entries (update_entry i f t) j) = map_option identity (entries t j)" for j
    using assms by (cases "entries t i") auto
  then show ?thesis by (simp add: skeleton_def)
qed

lemma skeleton_set_handle: "skeleton (set_handle i h t) = skeleton t"
  unfolding set_handle_def by (rule skeleton_update) (simp add: identity_def split: inode_kind.splits)

lemma skeleton_set_storage_id: "skeleton (set_storage_id i s t) = skeleton t"
  unfolding set_storage_id_def by (rule skeleton_update) (simp add: identity_def split: inode_kind.splits)

lemma skeleton_remap: "skeleton (remap_storages ss pos is t) = skeleton t"
  by (induction ss pos "is" t rule: remap_storages.induct)
    (simp_all add: skeleton_set_storage_id split: option.splits)

interpretation survives: resolving_frame same_mount ops for ops
  by unfold_locales
    (simp_all add: same_mount_def mount_view_def invalidate_handles_def give_up_def upd_inodes_def
      skeleton_bump skeleton_remap skeleton_set_handle)

lemma same_mountD:
  assumes "same_mount w w'"
  shows "skeleton (fs_inodes w') = skeleton (fs_inodes w)" "fs_write_buf w' = fs_write_buf w"
    "fs_read_cache w' = fs_read_cache w" "fs_fh_to_inode w' = fs_fh_to_inode w" "fs_next_fh w' = fs_next_fh w"
    "fs_heap w' = fs_heap w" "fs_read_only w' = fs_read_only w" "fs_next_cache w' = fs_next_cache w"
  using assms by (simp_all add: same_mount_def mount_view_def)

section \<open>Reconnecting\<close>

definition adopted_state ::
  "'s storage list \<Rightarrow> 'dev \<Rightarrow> ('dev, 's, 'd) mtp_fs \<Rightarrow> ('dev, 's, 'd) mtp_fs" where
  "adopted_state ss dev w =
     w\<lparr>fs_inodes := bump_generation (remap_storages ss 0 (children (fs_inodes w) ROOT_INODE) (fs_inodes w)),
       fs_storages := ss, fs_device := dev, fs_dirs_loaded := [ROOT_INODE \<mapsto> True],
       fs_event_epoch := fs_event_epoch w + 1,
       fs_event_loops := fs_event_loops w @ [(dev, fs_event_epoch w + 1)]\<rparr>"

lemma env_env [simp]: "w\<lparr>fs_env := a, fs_env := b\<rparr> = (w\<lparr>fs_env := b\<rparr> :: ('dev, 's, 'd) mtp_fs)"
  by simp

lemma call_cases: "call f w = (r, w') \<Longrightarrow> \<exists>d. w' = w\<lparr>fs_env := d\<rparr>"
  by (auto simp: call_def split: prod.splits)

lemma adopt_cases:
  assumes "adopt ops dev w = (r, w')"
  obtains (refused) e d where "r = Inl e" "w' = w\<lparr>fs_env := d\<rparr>"
  | (taken) ss d where "r = Inr ()" "w' = adopted_state ss dev (w\<lparr>fs_env := d\<rparr>)"
  using assms unfolding adopt_def
  by (auto elim!: bind_op_cases dest!: call_cases simp: adopted_state_def Let_def)

lemma reopen_cases:
  "reopen_loop ops ds w = (b, w') \<Longrightarrow>
   \<exists>d. if b then \<exists>ss dev. w' = adopted_state ss dev (w\<lparr>fs_env := d\<rparr>) else w' = w\<lparr>fs_env := d\<rparr>"
proof (induction ds arbitrary: w)
  case Nil
  then show ?case by (auto intro: exI [of _ "fs_env w"])
next
  case (Cons delay ds)
  let ?w = "w\<lparr>fs_env := env_sleep ops delay (fs_env w)\<rparr>"
  have later: "\<exists>d. if b then \<exists>ss dev. w' = adopted_state ss dev (w\<lparr>fs_env := d\<rparr>) else w' = w\<lparr>fs_env := d\<rparr>"
    if "reopen_loop ops ds (w\<lparr>fs_env := d'\<rparr>) = (b, w')" for d'
    using Cons.IH [OF that] by (simp only: env_env)
  show ?case
  proof (cases "is_unplugged ops ?w")
    case True
    then show ?thesis using Cons.prems later by simp
  next
    case False
    obtain r w1 where c: "call (op_open ops) ?w = (r, w1)" by fastforce
    then obtain d1 where w1: "w1 = w\<lparr>fs_env := d1\<rparr>" using call_cases by fastforce
    show ?thesis
    proof (cases r)
      case (Inl e)
      then show ?thesis using False c Cons.prems later w1 by simp
    next
      case (Inr dev)
      obtain q w2 where a: "adopt ops dev w1 = (q, w2)" by fastforce
      from a show ?thesis
      proof (cases rule: adopt_cases)
        case (refused e d)
        then show ?thesis using False c Inr a Cons.prems later w1 by simp
      next
        case (taken ss d)
        then have "b" "w' = adopted_state ss dev (w\<lparr>fs_env := d\<rparr>)"
          using False c Inr a Cons.prems w1 by auto
        then show ?thesis by auto
      qed
    qed
  qed
qed

lemma remap_generation [simp]: "generation (remap_storages ss pos is t) = generation t"
  by (induction ss pos "is" t rule: remap_storages.induct)
    (simp_all add: set_storage_id_def split: option.splits)

lemma set_storage_id_object:
  "entries t j = Some e \<Longrightarrow> \<not> (\<exists>s. ie_kind e = Storage s) \<Longrightarrow> entries (set_storage_id i s t) j = Some e"
  by (auto simp: set_storage_id_def split: inode_kind.splits)

lemma remap_object:
  "entries t j = Some e \<Longrightarrow> \<not> (\<exists>s. ie_kind e = Storage s) \<Longrightarrow> entries (remap_storages ss pos is t) j = Some e"
  by (induction ss pos "is" t rule: remap_storages.induct)
    (auto simp: set_storage_id_object split: option.splits)

lemma reconnect_cases:
  assumes "reconnect ops w = (r, w')"
  obtains (gone) d why where "r = Inl Disconnected" "w' = give_up why (w\<lparr>fs_env := d\<rparr>)"
      "policy_is_disabled (fs_policy w) \<Longrightarrow> d = fs_env w"
  | (returned) d ss dev where "r = Inr ()" "w' = adopted_state ss dev (w\<lparr>fs_env := d\<rparr>)"
      "\<not> policy_is_disabled (fs_policy w)"
proof (cases "policy_is_disabled (fs_policy w)")
  case True
  then show ?thesis using assms by (intro gone [of _ "fs_env w"]) (auto simp: reconnect_def)
next
  case False
  obtain b v where l: "reopen_loop ops (pauses (fs_policy w)) w = (b, v)" by fastforce
  show ?thesis
  proof (cases b)
    case True
    then obtain d ss dev where "v = adopted_state ss dev (w\<lparr>fs_env := d\<rparr>)" using reopen_cases [OF l] by auto
    then have "r = Inr ()" "w' = adopted_state ss dev (w\<lparr>fs_env := d\<rparr>)"
      using assms False l True by (auto simp: reconnect_def)
    then show ?thesis using returned False by blast
  next
    case no: False
    then obtain d where "v = w\<lparr>fs_env := d\<rparr>" using reopen_cases [OF l] by auto
    moreover obtain why where "w' = give_up why v" "r = Inl Disconnected"
      using assms False l no by (auto simp: reconnect_def)
    ultimately show ?thesis using gone False by blast
  qed
qed

section \<open>Fresh handles\<close>

lemma is_fresh_set_handle:
  "is_fresh t j \<Longrightarrow> is_fresh (set_handle i h t) j"
  by (auto simp: is_fresh_def set_handle_def split: option.splits inode_kind.splits)

lemma resolve_node_fresh:
  assumes "resolve_node ops idx node parent w = (Inr p, w')"
  shows "is_fresh (fs_inodes w') node" and "is_fresh (fs_inodes w) j \<Longrightarrow> is_fresh (fs_inodes w') j"
proof -
  obtain e where e: "entries (fs_inodes w) node = Some e"
    using assms by (auto simp: resolve_node_def split: option.splits)
  have "is_fresh (fs_inodes w') node \<and> (is_fresh (fs_inodes w) j \<longrightarrow> is_fresh (fs_inodes w') j)"
  proof (cases "is_fresh (fs_inodes w) node")
    case True
    then show ?thesis using assms e by (auto simp: resolve_node_def split: inode_kind.splits)
  next
    case False
    obtain q v where c: "call (op_list ops (fs_storages w ! idx) parent) w = (q, v)" by fastforce
    then have v: "fs_inodes v = fs_inodes w" using call_cases by fastforce
    have "\<exists>h. w' = upd_inodes (set_handle node h) v"
      using assms e False c by (auto simp: resolve_node_def split: sum.splits option.splits)
    then obtain h where w': "w' = upd_inodes (set_handle node h) v" by blast
    have "is_fresh (set_handle node h (fs_inodes w)) node" for h
      using e False by (auto simp: is_fresh_def set_handle_def split: inode_kind.splits)
    then show ?thesis by (simp add: w' upd_inodes_def v is_fresh_set_handle)
  qed
  then show "is_fresh (fs_inodes w') node" and "is_fresh (fs_inodes w) j \<Longrightarrow> is_fresh (fs_inodes w') j" by auto
qed

lemma resolve_chain_fresh:
  "resolve_chain ops idx nodes parent w = (Inr (), w') \<Longrightarrow>
   (\<forall>j \<in> set nodes. is_fresh (fs_inodes w') j) \<and> (is_fresh (fs_inodes w) j \<longrightarrow> is_fresh (fs_inodes w') j)"
proof (induction nodes arbitrary: parent w j)
  case (Cons node nodes)
  then obtain p v where n: "resolve_node ops idx node parent w = (Inr p, v)"
      and c: "resolve_chain ops idx nodes p v = (Inr (), w')"
    by (auto elim!: bind_op_InrE)
  show ?case
    using resolve_node_fresh [OF n] Cons.IH [OF c] by auto
qed simp

lemma chain_walk_start:
  assumes "chain_walk t i chain = Some r"
  shows "\<forall>up. r = Some up \<longrightarrow> set chain \<subseteq> set up \<and>
    (\<forall>e. entries t i = Some e \<longrightarrow> shape (ie_kind e) \<in> {Directory 0, File 0} \<longrightarrow> i \<in> set up)"
  using assms
proof (induction rule: chain_walk.raw_induct [rotated, consumes 1, case_names step])
  case (step walk t i chain r)
  show ?case
  proof (cases "entries t i")
    case None
    then show ?thesis using step(2) by auto
  next
    case (Some e)
    show ?thesis
    proof (cases "shape (ie_kind e) \<in> {Directory 0, File 0}")
      case True
      then have "r = None \<or> walk t (ie_parent e) (chain @ [i]) = Some r"
        using step(2) Some by (auto split: inode_kind.splits if_splits)
      then show ?thesis using step(1) by fastforce
    next
      case False
      then have "r = Some chain" using step(2) Some by (auto split: inode_kind.splits)
      then show ?thesis using False Some by simp
    qed
  qed
qed

lemma ensure_fresh_fresh:
  assumes "ensure_fresh ops i w = (Inr (), w')"
  shows "is_fresh (fs_inodes w') i"
proof (cases "is_fresh (fs_inodes w) i")
  case False
  obtain up idx where c: "chain_walk (fs_inodes w) i [] = Some (Some up)"
      "resolve_chain ops idx (rev up) None w = (Inr (), w')"
    using assms False by (auto simp: ensure_fresh_def split: option.splits)
  have "entries (fs_inodes w) i \<noteq> None"
    using c(1) by (subst (asm) chain_walk.simps) (auto split: option.splits)
  then obtain e where e: "entries (fs_inodes w) i = Some e" by blast
  have "shape (ie_kind e) \<in> {Directory 0, File 0}"
    using False e by (auto simp: is_fresh_def split: inode_kind.splits)
  then have "i \<in> set (rev up)" using chain_walk_start [OF c(1)] e by auto
  then show ?thesis using resolve_chain_fresh [OF c(2)] by blast
qed (use assms in \<open>simp add: ensure_fresh_def\<close>)

lemma lift_opt_cases: "lift_opt e f w = (Inr a, w') \<Longrightarrow> f w = Some a \<and> w' = w"
  by (auto simp: lift_opt_def split: option.splits)

lemma file_handle_fresh:
  assumes "file_handle ops i w = (Inr h, w')"
  shows "is_fresh (fs_inodes w') i \<and> (\<exists>e. entries (fs_inodes w') i = Some e \<and> ie_kind e = File h)"
  using assms unfolding file_handle_def
  by (auto elim!: bind_op_InrE dest!: lift_opt_cases ensure_fresh_fresh split: option.splits inode_kind.splits)

lemma parent_handle_fresh:
  assumes "parent_handle ops i w = (Inr p, w')"
  shows "is_fresh (fs_inodes w') i \<and> (\<exists>e. entries (fs_inodes w') i = Some e \<and>
    (case p of None \<Rightarrow> (\<exists>s. ie_kind e = Storage s) | Some h \<Rightarrow> ie_kind e = Directory h))"
  using assms unfolding parent_handle_def
  by (auto elim!: bind_op_InrE dest!: lift_opt_cases ensure_fresh_fresh split: option.splits inode_kind.splits)

section \<open>The walks end\<close>

lemma storage_walk_ends:
  assumes "ends t i"
  shows "\<exists>r. storage_walk t i = Some r \<and> (\<forall>sid. r = Some sid \<longrightarrow>
    (\<exists>s e. at_or_below t s i \<and> entries t s = Some e \<and> ie_kind e = Storage sid))"
  using assms
proof (induction rule: ends.induct)
  case (top i)
  then show ?case
    by (subst storage_walk.simps)
      (auto simp: parent_of_def intro: at_or_below.itself split: option.splits if_splits inode_kind.splits)
next
  case (parent i p)
  then obtain e where e: "entries t i = Some e" "ie_parent e = p" "p \<noteq> i"
    by (auto simp: parent_of_def split: option.splits if_splits)
  obtain r where r: "storage_walk t p = Some r" "\<forall>sid. r = Some sid \<longrightarrow>
      (\<exists>s e. at_or_below t s p \<and> entries t s = Some e \<and> ie_kind e = Storage sid)"
    using parent.IH by blast
  show ?case
  proof (cases "\<exists>sid. ie_kind e = Storage sid")
    case True
    then obtain sid where sid: "ie_kind e = Storage sid" by blast
    then have "storage_walk t i = Some (Some sid)" using e by (subst storage_walk.simps) simp
    then show ?thesis using e(1) sid at_or_below.itself [of t i] by blast
  next
    case False
    then have "storage_walk t i = Some r"
      using e r(1) by (subst storage_walk.simps) (auto split: inode_kind.splits)
    then show ?thesis using r(2) at_or_below.below [OF parent.hyps(1)] by blast
  qed
qed

lemma chain_walk_ends:
  assumes "ends t i"
  shows "\<exists>r. chain_walk t i chain = Some r"
  using assms
proof (induction arbitrary: chain rule: ends.induct)
  case (top i)
  then show ?case
    by (subst chain_walk.simps)
      (auto simp: parent_of_def split: option.splits if_splits inode_kind.splits)
next
  case (parent i p)
  then obtain e where e: "entries t i = Some e" "ie_parent e = p" "p \<noteq> i"
    by (auto simp: parent_of_def split: option.splits if_splits)
  obtain r where "chain_walk t p (chain @ [i]) = Some r" using parent.IH by blast
  with e show ?case by (subst chain_walk.simps) (auto split: inode_kind.splits)
qed

section \<open>The recovery budget\<close>

text \<open>The two equations of the inner loop, by the retries that are left.\<close>

lemma session_attempts_0:
  "session_attempts ops attempt 0 k w =
     (if is_unplugged ops w then (LinkLost, k, w)
      else case attempt k w of
        (Inr v, w') \<Rightarrow> (Done v, Suc k, w')
      | (Inl e, w') \<Rightarrow>
          (if op_is_stale ops e \<or> \<not> is_link_lost e then (Failed e, Suc k, w') else (LinkLost, Suc k, w')))"
  by (subst session_attempts.simps) (auto split: sum.splits prod.splits)

lemma session_attempts_Suc:
  "session_attempts ops attempt (Suc n) k w =
     (if is_unplugged ops w then (LinkLost, k, w)
      else case attempt k w of
        (Inr v, w') \<Rightarrow> (Done v, Suc k, w')
      | (Inl e, w') \<Rightarrow>
          (if op_is_stale ops e then session_attempts ops attempt n (Suc k) (invalidate_handles w')
           else if \<not> is_link_lost e then (Failed e, Suc k, w') else (LinkLost, Suc k, w')))"
  by (subst session_attempts.simps) (auto split: sum.splits prod.splits)

lemmas session_attempts_eqs = session_attempts_0 session_attempts_Suc

lemma with_recovery_first:
  "\<not> is_unplugged ops w \<Longrightarrow> attempt 0 w = (Inr v, w') \<Longrightarrow> with_recovery ops attempt w = (Inr v, w')"
  by (simp add: with_recovery_def MAX_ATTEMPTS_def MAX_STALE_RETRIES_def numeral_3_eq_3 session_attempts_eqs)

lemma session_attempts_cong:
  "(\<And>j. j \<le> k + n \<Longrightarrow> attempt j = other j) \<Longrightarrow>
   session_attempts ops attempt n k w = session_attempts ops other n k w"
proof (induction n arbitrary: k w)
  case (Suc n)
  have "session_attempts ops attempt n (Suc k) v = session_attempts ops other n (Suc k) v" for v
    by (rule Suc.IH) (simp add: Suc.prems)
  then show ?case using Suc.prems [of k] by (simp add: session_attempts_eqs split: sum.splits prod.splits)
qed (simp add: session_attempts_eqs)

lemma session_attempts_count: "session_attempts ops attempt n k w = (q, k', w') \<Longrightarrow> k' \<le> Suc (k + n)"
proof (induction n arbitrary: k w)
  case 0
  then show ?case
    by (subst (asm) session_attempts.simps) (auto split: if_splits sum.splits prod.splits)
next
  case (Suc n)
  then show ?case
    by (subst (asm) session_attempts.simps) (fastforce split: if_splits sum.splits prod.splits)
qed

lemma recovery_loop_cong:
  "(\<And>j. j < k + n * Suc MAX_STALE_RETRIES \<Longrightarrow> attempt j = other j) \<Longrightarrow>
   recovery_loop ops attempt n k w = recovery_loop ops other n k w"
proof (induction n arbitrary: k w)
  case (Suc n)
  obtain q k' v where s: "session_attempts ops attempt MAX_STALE_RETRIES k w = (q, k', v)"
    by (metis prod_cases3)
  have s': "session_attempts ops other MAX_STALE_RETRIES k w = (q, k', v)"
    using session_attempts_cong [of k MAX_STALE_RETRIES attempt other ops w] Suc.prems s by simp
  have "recovery_loop ops attempt n k' u = recovery_loop ops other n k' u" for u
    using session_attempts_count [OF s] by (intro Suc.IH Suc.prems) simp
  then show ?case
    by (simp add: s s' split: session_end.splits prod.splits sum.splits)
qed simp

text \<open>The opener, the storages call and the pause of a device, all replaced.\<close>

definition with_opener ::
  "('d \<Rightarrow> (mtp_error + 'dev) \<times> 'd) \<Rightarrow> ('dev \<Rightarrow> 'd \<Rightarrow> (mtp_error + 's storage list) \<times> 'd) \<Rightarrow> (nat \<Rightarrow> 'd \<Rightarrow> 'd) \<Rightarrow>
   ('dev, 's, 'd) mtp_ops \<Rightarrow> ('dev, 's, 'd) mtp_ops" where
  "with_opener op st sl ops = ops\<lparr>op_open := op, op_storages := st, env_sleep := sl\<rparr>"

lemma session_attempts_opener:
  "session_attempts (with_opener op st sl ops) attempt n k w = session_attempts ops attempt n k w"
  by (induction n arbitrary: k w) (simp_all add: session_attempts_eqs with_opener_def is_unplugged_def split: sum.splits prod.splits)

lemma session_attempts_alive:
  assumes plug: "\<And>d. \<not> env_unplugged ops d"
    and err: "\<And>k w e w'. attempt k w = (Inl e, w') \<Longrightarrow> op_is_stale ops e \<or> \<not> is_link_lost e"
    and run: "session_attempts ops attempt n k w = (q, k', w')"
  shows "q \<noteq> LinkLost"
  using run
proof (induction n arbitrary: k w)
  case 0
  then show ?case
    using err [of k w] plug
    by (subst (asm) session_attempts.simps) (auto simp: is_unplugged_def split: if_splits sum.splits prod.splits)
next
  case (Suc n)
  then show ?case
    using err [of k w] plug
    by (subst (asm) session_attempts.simps) (auto simp: is_unplugged_def split: if_splits sum.splits prod.splits)
qed

section \<open>Listing\<close>

text \<open>Listing a directory fails, or ends by syncing the table with what the device reported.\<close>

context session_frame
begin

lemma listing_cases:
  assumes "list_into_table ops p w = (r, w')"
  obtains (failed) e where "r = Inl e" "R w w'"
  | (listed) v s mtp_parent d d' objects where "r = Inr ()" "R w v" "is_fresh (fs_inodes v) p"
      "entries (fs_inodes v) p \<noteq> None" "op_list ops s mtp_parent d = (Inr objects, d')"
      "w' = upd_inodes (sync_children p (map child_of_object objects)) v"
proof -
  from assms obtain q u where ph: "parent_handle ops p w = (q, u)" by fastforce
  have 1: "R w u" using withinD [OF handles(3) ph] .
  show ?thesis
  proof (cases q)
    case (Inl e)
    then have "r = Inl e" "w' = u" using assms ph by (auto simp: list_into_table_def)
    then show ?thesis using 1 failed by blast
  next
    case (Inr mp)
    obtain q2 u2 where si: "storage_index p u = (q2, u2)" by fastforce
    have u2: "u2 = u" using si by (auto simp: storage_index_def lift_opt_def split: option.splits)
    show ?thesis
    proof (cases q2)
      case (Inl e)
      then have "r = Inl e" "w' = u" using assms ph Inr si u2 by (auto simp: list_into_table_def)
      then show ?thesis using 1 failed by blast
    next
      case idx: (Inr idx)
      obtain q3 u3 where os: "on_storage idx (\<lambda>s. op_list ops s mp) u = (q3, u3)" by fastforce
      then obtain d where u3: "u3 = u\<lparr>fs_env := d\<rparr>" "op_list ops (fs_storages u ! idx) mp (fs_env u) = (q3, d)"
        by (auto simp: on_storage_def call_def split: prod.splits)
      have 2: "R w u3" using chain [OF 1 env] u3(1) by simp
      show ?thesis
      proof (cases q3)
        case (Inl e)
        then have "r = Inl e" "w' = u3" using assms ph Inr si idx u2 os by (auto simp: list_into_table_def)
        then show ?thesis using 2 failed by blast
      next
        case obs: (Inr objects)
        have "r = Inr ()" "w' = upd_inodes (sync_children p (map child_of_object objects)) u3"
          using assms ph Inr si idx u2 os obs by (auto simp: list_into_table_def)
        moreover have "is_fresh (fs_inodes u3) p" "entries (fs_inodes u3) p \<noteq> None"
          using parent_handle_fresh [OF ph [unfolded Inr]] u3(1) by auto
        ultimately show ?thesis using listed 2 u3(2) obs by blast
      qed
    qed
  qed
qed

end

lemmas list_into_table_cases = survives.listing_cases

text \<open>No session step marks a listing as loaded.\<close>

definition only_forgets :: "('dev, 's, 'd) mtp_fs \<Rightarrow> ('dev, 's, 'd) mtp_fs \<Rightarrow> bool" where
  "only_forgets w w' \<longleftrightarrow>
     (\<forall>p. p \<noteq> ROOT_INODE \<longrightarrow> fs_dirs_loaded w' p = Some True \<longrightarrow> fs_dirs_loaded w p = Some True)"

interpretation forgets: resolving_frame only_forgets ops for ops
  by unfold_locales (auto simp: only_forgets_def invalidate_handles_def give_up_def upd_inodes_def)

lemma forgets_listing: "within only_forgets (list_into_table ops p)"
  unfolding list_into_table_def
  by (intro forgets.session_within forgets.modify) (simp add: only_forgets_def upd_inodes_def)

text \<open>
  What \<open>load_dir\<close> leaves: either the table's skeleton is as it was (listing cached, the
  root, or the device refused), or the directory was just listed.
\<close>

lemma load_dir_cases:
  assumes "load_dir ops p w = w'"
  obtains (same) "skeleton (fs_inodes w') = skeleton (fs_inodes w)"
      "fs_dirs_loaded w p = Some True \<or> p = ROOT_INODE \<or> fs_dirs_loaded w' p \<noteq> Some True"
  | (listed) v s mtp_parent d d' objects where "same_mount w v" "entries (fs_inodes v) p \<noteq> None"
      "op_list ops s mtp_parent d = (Inr objects, d')"
      "fs_inodes w' = sync_children p (map child_of_object objects) (fs_inodes v)"
      "fs_dirs_loaded w' p = Some True"
proof (cases "fs_dirs_loaded w p = Some True \<or> p = ROOT_INODE")
  case True
  then show ?thesis using assms same by (auto simp: load_dir_def split: if_splits)
next
  case False
  obtain r v where rec: "with_recovery ops (\<lambda>_. list_into_table ops p) w = (r, v)" by fastforce
  have err: "same_mount s s'" if "list_into_table ops p s = (Inl e, s')" for s e s'
    using that by (cases rule: list_into_table_cases) auto
  have out: "case r of Inr x \<Rightarrow> \<exists>u. same_mount w u \<and> list_into_table ops p u = (Inr x, v) | Inl e \<Rightarrow> same_mount w v"
    using survives.recovered [where attempt = "\<lambda>_. list_into_table ops p", OF err rec] by (auto split: sum.splits)
  show ?thesis
  proof (cases r)
    case (Inl e)
    then have "same_mount w w'" using assms False rec out by (simp add: load_dir_def)
    moreover have "fs_dirs_loaded w' p \<noteq> Some True"
      using withinD [OF forgets.with_recoveries rec] forgets_listing assms False rec Inl
      by (auto simp: load_dir_def only_forgets_def)
    ultimately show ?thesis using same same_mountD(1) by blast
  next
    case (Inr x)
    then obtain u where u: "same_mount w u" "list_into_table ops p u = (Inr x, v)" using out by auto
    from u(2) show ?thesis
    proof (cases rule: list_into_table_cases)
      case (listed v' s mp d d' objects)
      then have "fs_inodes w' = sync_children p (map child_of_object objects) (fs_inodes v')"
          "fs_dirs_loaded w' p = Some True"
        using assms False rec Inr by (auto simp: load_dir_def upd_inodes_def)
      then show ?thesis using that(2) listed survives.chain [OF u(1)] by blast
    qed (use Inr in simp)
  qed
qed

section \<open>Properties\<close>

text \<open>
  C26. Whatever the device does, a reconnect never disturbs what the kernel sees: names,
  listings, inode numbers, open descriptors, write buffers and read caches are untouched.
  It ends either adopted (a new event loop, one generation on, only the root's listing still
  trusted, no shutdown requested) or given up, with a shutdown reason and \<open>Disconnected\<close>.
\<close>

theorem reconnect_resumes_or_gives_up:
  "(case reconnect ops w of
      (Inr _, w') \<Rightarrow> \<not> policy_is_disabled (fs_policy w) \<and> fs_shutdown w' = fs_shutdown w \<and>
        generation (fs_inodes w') = generation (fs_inodes w) + 1 \<and> fs_dirs_loaded w' = [ROOT_INODE \<mapsto> True] \<and>
        fs_event_epoch w' = fs_event_epoch w + 1 \<and>
        fs_event_loops w' = fs_event_loops w @ [(fs_device w', fs_event_epoch w')]
    | (Inl e, w') \<Rightarrow> e = Disconnected \<and> is_requested (fs_shutdown w') \<and> fs_inodes w' = fs_inodes w \<and>
        fs_device w' = fs_device w \<and> fs_event_loops w' = fs_event_loops w) \<and>
   lookup (fs_inodes (snd (reconnect ops w))) = lookup (fs_inodes w) \<and>
   children (fs_inodes (snd (reconnect ops w))) = children (fs_inodes w) \<and>
   fs_fh_to_inode (snd (reconnect ops w)) = fs_fh_to_inode w \<and>
   fs_write_buf (snd (reconnect ops w)) = fs_write_buf w \<and>
   fs_read_cache (snd (reconnect ops w)) = fs_read_cache w \<and> fs_heap (snd (reconnect ops w)) = fs_heap w"
proof -
  obtain r w' where rec: "reconnect ops w = (r, w')" by fastforce
  have s: "same_mount w w'" using withinD [OF survives.reconnects rec] .
  note keep = same_mountD [OF s] skeletonD(1,2) [OF same_mountD(1) [OF s]]
  from rec show ?thesis
  proof (cases rule: reconnect_cases)
    case (gone d why)
    then show ?thesis
      using rec keep by (simp add: give_up_def request_shutdown_def is_requested_def)
  next
    case (returned d ss dev)
    then show ?thesis using rec keep by (simp add: adopted_state_def)
  qed
qed

text \<open>
  C27. Recovery is bounded: whatever fails and however often the device comes back, an
  operation is run at most six times (three sessions, one stale-handle retry in each);
  what its later runs would do cannot matter.
\<close>

theorem recovery_budget:
  "with_recovery ops attempt w = with_recovery ops (\<lambda>k. if k < 6 then attempt k else other k) w"
  unfolding with_recovery_def
  by (rule recovery_loop_cong) (simp add: MAX_ATTEMPTS_def MAX_STALE_RETRIES_def)

text \<open>
  A stale handle never reopens the device: as long as the cable is in and every error of
  the attempt is a stale handle or not a lost link, the run is the same whatever opening the
  device, listing its storages or pausing would do; it ends with a value or with the error.
\<close>

theorem stale_handle_never_reopens:
  assumes "\<And>d. \<not> env_unplugged ops d"
    and "\<And>k w e w'. attempt k w = (Inl e, w') \<Longrightarrow> op_is_stale ops e \<or> \<not> is_link_lost e"
  shows "with_recovery ops attempt w = with_recovery (with_opener op st sl ops) attempt w"
proof -
  obtain q k' v where s: "session_attempts ops attempt MAX_STALE_RETRIES 0 w = (q, k', v)"
    by (metis prod_cases3)
  have "q \<noteq> LinkLost" by (rule session_attempts_alive [OF assms s])
  then show ?thesis
    by (cases q) (simp_all add: with_recovery_def MAX_ATTEMPTS_def numeral_3_eq_3 session_attempts_opener s)
qed

definition demo_attempt :: "nat \<Rightarrow> (unit, unit, demo_env, nat) fs_op" where
  "demo_attempt k w = (if k = 0 then (Inl stale_error, w) else (Inr k, w))"

theorem stale_handle_never_reopens_witness:
  "fst (with_recovery (with_opener (Pair (Inl NoDevice)) (\<lambda>_. Pair (Inl NoDevice)) (\<lambda>_ d. d) demo_ops) demo_attempt demo_fs) = Inr 1"
proof -
  have plug: "\<not> env_unplugged demo_ops d" for d by (simp add: demo_ops_def)
  have err: "op_is_stale demo_ops e \<or> \<not> is_link_lost e" if "demo_attempt k w = (Inl e, w')" for k w e w'
    using that by (auto simp: demo_attempt_def demo_ops_def split: if_splits)
  have "fst (with_recovery demo_ops demo_attempt demo_fs) = Inr 1"
    by (simp add: with_recovery_def MAX_ATTEMPTS_def MAX_STALE_RETRIES_def numeral_3_eq_3 session_attempts_eqs
        demo_attempt_def is_unplugged_def demo_ops_def)
  then show ?thesis
    using stale_handle_never_reopens [of demo_ops demo_attempt, OF plug err] by simp
qed

text \<open>
  C28. A handle the mount hands to the device is never from an older session: when resolving a
  file succeeds, its entry is fresh and holds exactly the handle returned, and resolving
  renamed, renumbered or dropped nothing.
\<close>

theorem resolved_handle_is_current:
  "case file_handle ops i w of
     (Inr h, w') \<Rightarrow> is_fresh (fs_inodes w') i \<and> map_option ie_kind (entries (fs_inodes w') i) = Some (File h) \<and>
       lookup (fs_inodes w') = lookup (fs_inodes w) \<and> children (fs_inodes w') = children (fs_inodes w)
   | (Inl _, w') \<Rightarrow> lookup (fs_inodes w') = lookup (fs_inodes w) \<and> children (fs_inodes w') = children (fs_inodes w)"
proof -
  obtain r w' where fh: "file_handle ops i w = (r, w')" by fastforce
  have s: "same_mount w w'" using withinD [OF survives.handles(1) fh] .
  note keep = skeletonD(1,2) [OF same_mountD(1) [OF s]]
  show ?thesis
  proof (cases r)
    case (Inr h)
    then show ?thesis using fh keep file_handle_fresh [of ops i w h w'] by auto
  qed (use fh keep in simp)
qed

text \<open>
  The walks up the tree end: in every table the filesystem can build, finding the storage
  of an inode returns, and what it finds is the storage entry above it.
\<close>

theorem storage_walk_returns:
  assumes "tab_step\<^sup>*\<^sup>* it_new t"
  shows "(\<exists>r. storage_walk t i = Some r \<and> (\<forall>sid. r = Some sid \<longrightarrow>
      (\<exists>s e. at_or_below t s i \<and> entries t s = Some e \<and> ie_kind e = Storage sid))) \<and>
    chain_walk t i [] \<noteq> None"
  using storage_walk_ends [of t i] chain_walk_ends [of t i "[]"] tab_reach_acyclic [OF assms]
  unfolding acyclic_tab_def by (metis option.distinct(1))

theorem storage_walk_returns_witness:
  "chain_walk demo_table 3 [] \<noteq> None"
  using storage_walk_returns [OF demo_table_reach, of 3] by blast

end
