(* ===== verification/Fs_Flush.thy ===== *)
theory Fs_Flush
  imports Fs_Session
begin

text \<open>
  \<open>src/src/fs.rs\<close>, uploading a closed write buffer: \<open>flush_to_mtp\<close>, its attempt
  \<open>flush_once\<close>, the upload-delete-rename sequence \<open>flush_safe\<close>, the delete-upload fallback
  \<open>flush_unsafe\<close> and \<open>purge_leftover\<close>. The cloned file handle rewound to the start is the
  file's content; what its reads do while the upload pulls them is the environment's.
\<close>

definition upload_file ::
  "('dev, 's, 'd) mtp_ops \<Rightarrow> nat \<Rightarrow> object_handle option \<Rightarrow> string \<Rightarrow> u64 \<Rightarrow> byte list \<Rightarrow>
   ('dev, 's, 'd, object_handle) fs_op" where
  "upload_file ops idx parent name sz content w =
     (case ask (env_reads ops) w of
        (reads, w) \<Rightarrow> on_storage idx (\<lambda>s. op_upload ops s parent name sz (file_stream reads 0 content)) w)"

text \<open>\<open>if let Some(e) = inner.inodes.get_mut(inode)\<close> with the fields the flush sets.\<close>

definition record_upload ::
  "('dev, 's, 'd) mtp_ops \<Rightarrow> inode \<Rightarrow> object_handle \<Rightarrow> string option \<Rightarrow> u64 \<Rightarrow>
   ('dev, 's, 'd) mtp_fs \<Rightarrow> ('dev, 's, 'd) mtp_fs" where
  "record_upload ops i h new_name sz w =
     (if entries (fs_inodes w) i = None then w
      else
        (case ask (env_now ops) w of
           (now, w) \<Rightarrow>
             upd_inodes (update_entry i (\<lambda>e. e\<lparr>ie_kind := File h,
               ie_name := (case new_name of Some n \<Rightarrow> n | None \<Rightarrow> ie_name e),
               ie_size := sz, ie_mtime := now\<rparr>)) w))"

definition flush_safe ::
  "('dev, 's, 'd) mtp_ops \<Rightarrow> inode \<Rightarrow> object_handle \<Rightarrow> nat \<Rightarrow> object_handle option \<Rightarrow> inode_entry \<Rightarrow>
   u64 \<Rightarrow> byte list \<Rightarrow> ('dev, 's, 'd, unit) fs_op" where
  "flush_safe ops i old_handle idx parent entry sz content w =
     (let temp_name = temp_upload_name (ie_name entry) in
      case upload_file ops idx parent temp_name sz content w of
        (Inl e, w) \<Rightarrow> (Inl e, w)
      | (Inr new_handle, w) \<Rightarrow>
          (case on_storage idx (\<lambda>s. op_delete ops s old_handle) w of
             (Inl e, w) \<Rightarrow> (Inr (), record_upload ops i new_handle (Some temp_name) sz w)
           | (Inr _, w) \<Rightarrow>
               (case on_storage idx (\<lambda>s. op_rename ops s new_handle (ie_name entry)) w of
                  (Inl e, w) \<Rightarrow> (Inr (), record_upload ops i new_handle (Some temp_name) sz w)
                | (Inr _, w) \<Rightarrow> (Inr (), record_upload ops i new_handle None sz w))))"

definition flush_unsafe ::
  "('dev, 's, 'd) mtp_ops \<Rightarrow> inode \<Rightarrow> object_handle \<Rightarrow> nat \<Rightarrow> object_handle option \<Rightarrow> inode_entry \<Rightarrow>
   u64 \<Rightarrow> byte list \<Rightarrow> ('dev, 's, 'd, unit) fs_op" where
  "flush_unsafe ops i old_handle idx parent entry sz content w =
     (case on_storage idx (\<lambda>s. op_delete ops s old_handle) w of
        (Inl e, w) \<Rightarrow> (Inl e, w)
      | (Inr _, w) \<Rightarrow>
          (case upload_file ops idx parent (ie_name entry) sz content w of
             (Inr new_handle, w) \<Rightarrow> (Inr (), record_upload ops i new_handle None sz w)
           | (Inl e, w) \<Rightarrow> (Inl e, w)))"

text \<open>Failures of the clean-up are only logged.\<close>

fun delete_all ::
  "('dev, 's, 'd) mtp_ops \<Rightarrow> nat \<Rightarrow> mtp_object list \<Rightarrow> ('dev, 's, 'd) mtp_fs \<Rightarrow> ('dev, 's, 'd) mtp_fs" where
  "delete_all ops idx [] w = w"
| "delete_all ops idx (ob # obs) w =
     delete_all ops idx obs (snd (on_storage idx (\<lambda>s. op_delete ops s (ob_handle ob)) w))"

definition purge_leftover ::
  "('dev, 's, 'd) mtp_ops \<Rightarrow> nat \<Rightarrow> object_handle option \<Rightarrow> string \<Rightarrow> ('dev, 's, 'd) mtp_fs \<Rightarrow>
   ('dev, 's, 'd) mtp_fs" where
  "purge_leftover ops idx parent name w =
     (case on_storage idx (\<lambda>s. op_list ops s parent) w of
        (Inl e, w) \<Rightarrow> w
      | (Inr objects, w) \<Rightarrow> delete_all ops idx (filter (\<lambda>ob. ob_filename ob = name) objects) w)"

definition flush_once ::
  "('dev, 's, 'd) mtp_ops \<Rightarrow> inode \<Rightarrow> inode_entry \<Rightarrow> u64 \<Rightarrow> byte list \<Rightarrow> bool \<Rightarrow> ('dev, 's, 'd, unit) fs_op" where
  "flush_once ops i entry sz content is_retry =
     bind_op (file_handle ops i) (\<lambda>h.
     bind_op (storage_index i) (\<lambda>idx.
     bind_op (parent_handle ops (ie_parent entry)) (\<lambda>parent. \<lambda>w.
       let supports_rename = op_renames ops (fs_device w);
           w = (if is_retry \<and> supports_rename
                then purge_leftover ops idx parent (temp_upload_name (ie_name entry)) w else w)
       in (if supports_rename then flush_safe ops i h idx parent entry sz content w
           else flush_unsafe ops i h idx parent entry sz content w))))"

text \<open>A step on the spool file (\<open>seek\<close>, \<open>try_clone\<close>), which the system may fail.\<close>

definition file_step :: "('dev, 's, 'd) mtp_ops \<Rightarrow> ('dev, 's, 'd, unit) fs_op" where
  "file_step ops w =
     (case ask (env_disk ops) w of
        (IoOk, w) \<Rightarrow> (Inr (), w)
      | (IoFail _ e, w) \<Rightarrow> (Inl (io_to_mtp e), w))"

text \<open>
  The closure of \<open>flush_to_mtp\<close>: its counter is bumped after the file was cloned and rewound,
  and a failure there is an I/O error that \<open>with_recovery\<close> never retries, so the number of
  earlier runs is the counter.
\<close>

definition flush_attempt ::
  "('dev, 's, 'd) mtp_ops \<Rightarrow> inode \<Rightarrow> inode_entry \<Rightarrow> byte list \<Rightarrow> nat \<Rightarrow> ('dev, 's, 'd, unit) fs_op" where
  "flush_attempt ops i entry content k =
     bind_op (file_step ops) (\<lambda>_. bind_op (file_step ops) (\<lambda>_.
       flush_once ops i entry (of_nat (length content)) content (k > 0)))"

definition flush_to_mtp :: "('dev, 's, 'd) mtp_ops \<Rightarrow> u64 \<Rightarrow> ('dev, 's, 'd, unit) fs_op" where
  "flush_to_mtp ops fh w =
     (case wb_close fh (fs_write_buf w) of
        (None, wb) \<Rightarrow> (Inr (), w\<lparr>fs_write_buf := wb\<rparr>)
      | (Some buf, wb) \<Rightarrow>
          (let w = w\<lparr>fs_write_buf := wb\<rparr> in
           if \<not> fb_dirty buf then (Inr (), w)
           else
             (case file_step ops w of
                (Inl e, w) \<Rightarrow> (Inl e, w)
              | (Inr _, w) \<Rightarrow>
                  (case entries (fs_inodes w) (fb_inode buf) of
                     None \<Rightarrow> (Inl NotFound, w)
                   | Some entry \<Rightarrow>
                       with_recovery ops (flush_attempt ops (fb_inode buf) entry (sf_content (into_file buf))) w))))"

end
