(* ===== verification/Fs_Handlers.thy ===== *)
theory Fs_Handlers
  imports Fs_Flush
begin

text \<open>
  \<open>src/src/fs.rs\<close>, the FUSE callbacks of \<open>impl Filesystem for MtpFs\<close>, the whole-object
  filler's start and recovery, and the device's events. A callback maps the state to its one
  reply and the next state; an \<open>OsStr\<close> name is what \<open>to_str()\<close> answers. The reading callback
  is partial: \<open>None\<close> is a reply that never comes. A spawned task is queued in the state
  (\<open>fs_fillers\<close>, \<open>fs_event_loops\<close>) and run by its own step.
\<close>

datatype errno = ENOENT | EISDIR | ENOTDIR | EROFS | EINVAL | EIO | EFBIG

datatype 'a reply = Reply 'a | ReplyError errno | Panicked

type_synonym ('dev, 's, 'd, 'a) callback = "('dev, 's, 'd) mtp_fs \<Rightarrow> 'a reply \<times> ('dev, 's, 'd) mtp_fs"

section \<open>Start-up\<close>

fun add_storages ::
  "('dev, 's, 'd) mtp_ops \<Rightarrow> 's storage list \<Rightarrow> ('dev, 's, 'd) mtp_fs \<Rightarrow> ('dev, 's, 'd) mtp_fs" where
  "add_storages ops [] w = w"
| "add_storages ops (s # ss) w =
     (case ask (env_now ops) w of
        (now, w) \<Rightarrow> add_storages ops ss (upd_inodes (\<lambda>t. snd (add_storage_at (st_id s) (storage_name s) now t)) w))"

definition fs_init :: "('dev, 's, 'd) mtp_ops \<Rightarrow> ('dev, 's, 'd, unit) fs_op" where
  "fs_init ops w =
     (case call (op_storages ops (fs_device w)) w of
        (Inl e, w) \<Rightarrow> (Inl e, w)
      | (Inr storages, w) \<Rightarrow>
          (let w = add_storages ops storages w in
           (Inr (), w\<lparr>fs_dirs_loaded := (fs_dirs_loaded w)(ROOT_INODE \<mapsto> True), fs_storages := storages,
             fs_event_loops := fs_event_loops w @ [(fs_device w, fs_event_epoch w)]\<rparr>)))"

section \<open>Names and attributes\<close>

text \<open>\<open>inode_to_file_attr\<close>; the process's user and group are taken to be 0.\<close>

definition entry_attr :: "inode_entry \<Rightarrow> file_attr" where
  "entry_attr = inode_to_file_attr 0 0"

definition fs_lookup :: "('dev, 's, 'd) mtp_ops \<Rightarrow> inode \<Rightarrow> string option \<Rightarrow> ('dev, 's, 'd, file_attr) callback" where
  "fs_lookup ops parent name w =
     (case name of
        None \<Rightarrow> (ReplyError ENOENT, w)
      | Some n \<Rightarrow>
          (let w = load_dir ops parent w in
           case lookup (fs_inodes w) parent n of
             None \<Rightarrow> (ReplyError ENOENT, w)
           | Some i \<Rightarrow>
               (case entries (fs_inodes w) i of
                  Some e \<Rightarrow> (Reply (entry_attr e), w)
                | None \<Rightarrow> (Panicked, w))))"

definition sized_attr :: "u64 \<Rightarrow> file_attr \<Rightarrow> file_attr" where
  "sized_attr sz a = a\<lparr>fa_size := sz, fa_blocks := div_ceil sz 512\<rparr>"

text \<open>\<open>order\<close> is the iteration order of \<open>fh_to_inode\<close>: the first descriptor on the inode decides.\<close>

definition fs_getattr :: "u64 list \<Rightarrow> inode \<Rightarrow> ('dev, 's, 'd, file_attr) callback" where
  "fs_getattr order i w =
     (case entries (fs_inodes w) i of
        None \<Rightarrow> (ReplyError ENOENT, w)
      | Some e \<Rightarrow>
          (Reply (case List.find (\<lambda>fh. fs_fh_to_inode w fh = Some i) order of
                    None \<Rightarrow> entry_attr e
                  | Some fh \<Rightarrow>
                      (case wb_size (fs_write_buf w) fh of
                         Some sz \<Rightarrow> sized_attr sz (entry_attr e)
                       | None \<Rightarrow> entry_attr e)), w))"

definition dir_entries :: "inode_table \<Rightarrow> inode \<Rightarrow> (u64 \<times> inode \<times> file_type \<times> string) list" where
  "dir_entries t i =
     (let parent = (case entries t i of Some e \<Rightarrow> ie_parent e | None \<Rightarrow> ROOT_INODE);
          kids = children t i
      in (1, i, FileTypeDirectory, ''.'') # (2, parent, FileTypeDirectory, ''..'') #
         concat (map (\<lambda>(k, c). case entries t c of
             None \<Rightarrow> []
           | Some e \<Rightarrow> [(of_nat k + 3, c, if is_dir e then FileTypeDirectory else FileTypeRegular, ie_name e)])
           (enumerate 0 kids)))"

text \<open>\<open>capacity\<close>: how many entries the kernel's buffer takes before \<open>add\<close> reports it full.\<close>

definition fs_readdir ::
  "('dev, 's, 'd) mtp_ops \<Rightarrow> nat \<Rightarrow> inode \<Rightarrow> u64 \<Rightarrow> ('dev, 's, 'd, (u64 \<times> inode \<times> file_type \<times> string) list) callback" where
  "fs_readdir ops capacity i off w =
     (let w = load_dir ops i w in
      (Reply (take capacity (drop (unat off) (dir_entries (fs_inodes w) i))), w))"

definition fs_opendir :: "inode \<Rightarrow> ('dev, 's, 'd, u64) callback" where
  "fs_opendir i w =
     (case entries (fs_inodes w) i of
        None \<Rightarrow> (ReplyError ENOENT, w)
      | Some e \<Rightarrow>
          (if is_dir e
           then (let (fh, w) = alloc_fh w in
                 (Reply fh, w\<lparr>fs_dirs_loaded := (fs_dirs_loaded w)(i := None)\<rparr>))
           else (ReplyError ENOTDIR, w)))"

definition fs_releasedir :: "('dev, 's, 'd, unit) callback" where
  "fs_releasedir w = (Reply (), w)"

text \<open>Total, free and available blocks, and the block size.\<close>

definition fs_statfs :: "('dev, 's, 'd, u64 \<times> u64 \<times> u64 \<times> u32) callback" where
  "fs_statfs w =
     (let tot = fold (\<lambda>s a. saturating_add a (st_total_capacity s)) (fs_storages w) 0;
          free = fold (\<lambda>s a. saturating_add a (st_free_space s)) (fs_storages w) 0
      in (Reply (tot div 4096, free div 4096, free div 4096, 4096), w))"

section \<open>Opening and reading\<close>

definition fs_open :: "('dev, 's, 'd) mtp_ops \<Rightarrow> bool \<Rightarrow> inode \<Rightarrow> ('dev, 's, 'd, u64) callback" where
  "fs_open ops write_only i w =
     (case entries (fs_inodes w) i of
        None \<Rightarrow> (ReplyError ENOENT, w)
      | Some e \<Rightarrow>
          (if is_dir e then (ReplyError EISDIR, w)
           else if \<not> write_only \<and> read_strategy_for ops w (ie_size e) = TooLargeForSequentialFull
           then (ReplyError EFBIG, w)
           else (let (fh, w) = alloc_fh w in
                 (Reply fh, w\<lparr>fs_fh_to_inode := (fs_fh_to_inode w)(fh \<mapsto> i)\<rparr>))))"

text \<open>The object's download, opened inside \<open>with_recovery\<close>.\<close>

definition on_file ::
  "('dev, 's, 'd) mtp_ops \<Rightarrow> inode \<Rightarrow> ('s storage \<Rightarrow> object_handle \<Rightarrow> 'd \<Rightarrow> (mtp_error + 'a) \<times> 'd) \<Rightarrow>
   ('dev, 's, 'd, 'a) fs_op" where
  "on_file ops i f =
     bind_op (file_handle ops i) (\<lambda>h. bind_op (storage_index i) (\<lambda>idx. on_storage idx (\<lambda>s. f s h)))"

definition upd_cache :: "cache_id \<Rightarrow> (shared_cache \<Rightarrow> shared_cache) \<Rightarrow> ('dev, 's, 'd) mtp_fs \<Rightarrow> ('dev, 's, 'd) mtp_fs" where
  "upd_cache c f w = w\<lparr>fs_heap := (fs_heap w)(c := f (fs_heap w c))\<rparr>"

definition upd_fills :: "(tracker_state \<Rightarrow> tracker_state) \<Rightarrow> ('dev, 's, 'd) mtp_fs \<Rightarrow> ('dev, 's, 'd) mtp_fs" where
  "upd_fills f w = w\<lparr>fs_fills := f (fs_fills w)\<rparr>"

definition ensure_full_fill_running ::
  "('dev, 's, 'd) mtp_ops \<Rightarrow> inode \<Rightarrow> cache_id \<Rightarrow> ('dev, 's, 'd) mtp_fs \<Rightarrow> ('dev, 's, 'd) mtp_fs" where
  "ensure_full_fill_running ops i c w =
     (let (claimed, sc) = start_fill (fs_heap w c);
          w = upd_cache c (\<lambda>_. sc) w in
      if \<not> claimed then w
      else
        (let (registered, t) = register c (fs_fills w);
             w = upd_fills (\<lambda>_. t) w in
         if \<not> registered
         then upd_cache c (\<lambda>s. sh_fail s (fill_failure_new
           ''the mount is going away, so no new whole-object download was started'' False)) w
         else
           (case with_recovery ops (\<lambda>_. on_file ops i (op_download ops)) w of
              (Inl e, w) \<Rightarrow>
                upd_fills (finished c)
                  (upd_cache c (\<lambda>s. sh_fail s (fill_failure_new (op_error_text ops e) (is_link_lost e))) w)
            | (Inr download, w) \<Rightarrow>
                w\<lparr>fs_full_fill_counter := fs_full_fill_counter w + 1,
                  fs_fillers := fs_fillers w @ [(i, c, download)]\<rparr>)))"

text \<open>
  The spawned task: the fill, then its own clean-up. It takes the queued download from its
  start, also after a reader's view has shown a fill at work, so it may end in a failure where
  the code's fill is complete.
\<close>

definition run_filler ::
  "('dev, 's, 'd) mtp_ops \<Rightarrow> inode \<times> cache_id \<times> download \<Rightarrow> ('dev, 's, 'd) mtp_fs \<Rightarrow> ('dev, 's, 'd) mtp_fs" where
  "run_filler ops task w =
     (case task of (i, c, (stopz, turns)) \<Rightarrow>
        (let w = upd_cache c (\<lambda>s. fr_cache (fill_from_stream (op_error_text ops) is_link_lost stopz turns s)) w;
             w = upd_fills (finished c) w
         in (if i \<in> ran (fs_fh_to_inode w) then w
             else w\<lparr>fs_read_cache := (fs_read_cache w)(i := None)\<rparr>)))"

definition recover_full_fill_link :: "('dev, 's, 'd) mtp_ops \<Rightarrow> inode \<Rightarrow> ('dev, 's, 'd, unit) fs_op" where
  "recover_full_fill_link ops i = with_recovery ops (\<lambda>_. on_file ops i (op_get_info ops))"

definition CHUNK :: u64 where
  "CHUNK = 1024 * 1024"

text \<open>
  The loop over one missing range, one capped transfer at a time. The cursor is a \<open>u64\<close> and
  wraps as in a release build.
\<close>

partial_function (option) fetch_range ::
  "('dev, 's, 'd) mtp_ops \<Rightarrow> inode \<Rightarrow> cache_id \<Rightarrow> u64 \<Rightarrow> u64 \<Rightarrow> u64 \<Rightarrow> ('dev, 's, 'd) mtp_fs \<Rightarrow>
   ((errno + unit) \<times> ('dev, 's, 'd) mtp_fs) option" where
  "fetch_range ops i c object_size cursor en w =
     (if \<not> cursor < en then Some (Inr (), w)
      else
        (let chunk_size = ucast (min (en - cursor) CHUNK) :: u32;
             w = w\<lparr>fs_fetch_counter := fs_fetch_counter w + 1\<rparr> in
         case with_recovery ops (\<lambda>_. on_file ops i (\<lambda>s h. op_read_range ops s h cursor chunk_size)) w of
           (Inl e, w) \<Rightarrow> Some (Inl EIO, w)
         | (Inr bs, w) \<Rightarrow>
             (let writable = min (unat (saturating_sub object_size cursor)) (length bs);
                  (out, w) = ask (env_disk ops) w;
                  (stored, sc) = sh_write_at out (fs_heap w c) cursor (take writable bs);
                  w = upd_cache c (\<lambda>_. sc) w
              in (case stored of
                    Inl e \<Rightarrow> Some (Inl EIO, w)
                  | Inr _ \<Rightarrow>
                      (if bs = [] then Some (Inr (), w)
                       else fetch_range ops i c object_size (cursor + of_nat (length bs)) en w)))))"

fun fetch_ranges ::
  "('dev, 's, 'd) mtp_ops \<Rightarrow> inode \<Rightarrow> cache_id \<Rightarrow> u64 \<Rightarrow> range list \<Rightarrow> ('dev, 's, 'd) mtp_fs \<Rightarrow>
   ((errno + unit) \<times> ('dev, 's, 'd) mtp_fs) option" where
  "fetch_ranges ops i c object_size [] w = Some (Inr (), w)"
| "fetch_ranges ops i c object_size (r # rs) w =
     Option.bind (fetch_range ops i c object_size (r_start r) (r_end r) w) (\<lambda>(res, w).
       case res of Inl e \<Rightarrow> Some (Inl e, w) | Inr _ \<Rightarrow> fetch_ranges ops i c object_size rs w)"

definition ranged_read ::
  "('dev, 's, 'd) mtp_ops \<Rightarrow> inode \<Rightarrow> cache_id \<Rightarrow> u64 \<Rightarrow> u64 \<Rightarrow> u64 \<Rightarrow> ('dev, 's, 'd) mtp_fs \<Rightarrow>
   (byte list reply \<times> ('dev, 's, 'd) mtp_fs) option" where
  "ranged_read ops i c object_size off sz w =
     Option.bind (fetch_ranges ops i c object_size (sh_missing_ranges (fs_heap w c) off sz) w) (\<lambda>(res, w).
       case res of
         Inl e \<Rightarrow> Some (ReplyError e, w)
       | Inr _ \<Rightarrow>
           (if sh_missing_ranges (fs_heap w c) off sz \<noteq> [] then Some (ReplyError EIO, w)
            else
              (let (out, w) = ask (env_disk ops) w in
               case sh_read_at out (fs_heap w c) off sz of
                 Inr bs \<Rightarrow> Some (Reply bs, w)
               | Inl e \<Rightarrow> Some (ReplyError EIO, w))))"

text \<open>
  The whole-object loop. \<open>views\<close> are, for each wait, the states of the cache the reader
  finds after its first look, each time it is woken; the one it is answered from stays.
\<close>

fun sequential_read ::
  "('dev, 's, 'd) mtp_ops \<Rightarrow> inode \<Rightarrow> cache_id \<Rightarrow> u64 \<Rightarrow> u64 \<Rightarrow> nat \<Rightarrow> (nat \<Rightarrow> shared_cache list) \<Rightarrow>
   ('dev, 's, 'd) mtp_fs \<Rightarrow> (byte list reply \<times> ('dev, 's, 'd) mtp_fs) option" where
  "sequential_read ops i c off sz retries views w =
     (let w = ensure_full_fill_running ops i c w;
          (out, w) = ask (env_disk ops) w;
          states = fs_heap w c # views retries;
          result = wait_and_read out states off sz;
          w = upd_cache c (\<lambda>_. wait_end out (fs_heap w c) (views retries) off sz) w
      in (case result of
            None \<Rightarrow> None
          | Some (Inr bs) \<Rightarrow> Some (Reply bs, w)
          | Some (Inl failure) \<Rightarrow>
              (if \<not> ff_link_lost failure then Some (ReplyError EIO, w)
               else
                 (case retries of
                    0 \<Rightarrow> Some (ReplyError EIO, w)
                  | Suc n \<Rightarrow>
                      (case recover_full_fill_link ops i w of
                         (Inl e, w) \<Rightarrow> Some (ReplyError EIO, w)
                       | (Inr _, w) \<Rightarrow>
                           (case reset_after_link_loss (fs_heap w c) of
                              (True, sc) \<Rightarrow>
                                sequential_read ops i c off sz n views (upd_cache c (\<lambda>_. sc) w)
                            | (False, sc) \<Rightarrow> Some (ReplyError EIO, w)))))))"

declare sequential_read.simps [simp del]

text \<open>The cache of the inode, created on first use.\<close>

definition read_cache_for ::
  "('dev, 's, 'd) mtp_ops \<Rightarrow> inode \<Rightarrow> u64 \<Rightarrow> ('dev, 's, 'd) mtp_fs \<Rightarrow> (io_error + cache_id) \<times> ('dev, 's, 'd) mtp_fs" where
  "read_cache_for ops i sz w =
     (case fs_read_cache w i of
        Some c \<Rightarrow> (Inr c, w)
      | None \<Rightarrow>
          (let (tempfile, w) = ask (env_disk ops) w;
               (setlen, w) = ask (env_disk ops) w in
           case sh_new tempfile setlen sz of
             Inl e \<Rightarrow> (Inl e, w)
           | Inr sc \<Rightarrow>
               (let c = fs_next_cache w in
                (Inr c, w\<lparr>fs_heap := (fs_heap w)(c := sc), fs_next_cache := Suc c,
                          fs_read_cache := (fs_read_cache w)(i \<mapsto> c)\<rparr>))))"

definition fs_read ::
  "('dev, 's, 'd) mtp_ops \<Rightarrow> (nat \<Rightarrow> shared_cache list) \<Rightarrow> inode \<Rightarrow> u64 \<Rightarrow> u64 \<Rightarrow> u32 \<Rightarrow>
   ('dev, 's, 'd) mtp_fs \<Rightarrow> (byte list reply \<times> ('dev, 's, 'd) mtp_fs) option" where
  "fs_read ops views i fh off sz w =
     (if wb_is_open (fs_write_buf w) fh
      then
        (let (out, w) = ask (env_disk ops) w in
         case wb_read out (fs_write_buf w) fh off sz :: mtp_error mount_error + byte list of
           Inr bs \<Rightarrow> Some (Reply bs, w)
         | Inl e \<Rightarrow> Some (ReplyError EIO, w))
      else
        (case entries (fs_inodes w) i of
           None \<Rightarrow> Some (ReplyError ENOENT, w)
         | Some e \<Rightarrow>
             (if is_dir e then Some (ReplyError EISDIR, w)
              else if sz = 0 \<or> off \<ge> ie_size e then Some (Reply [], w)
              else
                (case read_cache_for ops i (ie_size e) w of
                   (Inl err, w) \<Rightarrow> Some (ReplyError EIO, w)
                 | (Inr c, w) \<Rightarrow>
                     (case read_strategy_for ops w (ie_size e) of
                        TooLargeForSequentialFull \<Rightarrow> Some (ReplyError EFBIG, w)
                      | SequentialFull \<Rightarrow> sequential_read ops i c off (ucast sz) 1 views w
                      | Ranged \<Rightarrow> ranged_read ops i c (ie_size e) off (ucast sz) w)))))"

end
