(* ===== verification/Fs_Changes.thy ===== *)
theory Fs_Changes
  imports Fs_Handlers
begin

text \<open>
  \<open>src/src/fs.rs\<close>, the FUSE callbacks that change something (\<open>release\<close>, \<open>write\<close>, \<open>create\<close>,
  \<open>mkdir\<close>, \<open>unlink\<close>, \<open>rmdir\<close>, \<open>rename\<close>, \<open>setattr\<close>), the mount options, and the device's
  events (\<open>event_loop\<close>, \<open>handle_event\<close>).
\<close>

section \<open>Closing and writing\<close>

definition fs_release :: "('dev, 's, 'd) mtp_ops \<Rightarrow> u64 \<Rightarrow> ('dev, 's, 'd, unit) callback" where
  "fs_release ops fh w =
     (let (flushed, w) = (if wb_is_open (fs_write_buf w) fh then flush_to_mtp ops fh w else (Inr (), w));
          w = (case fs_fh_to_inode w fh of
                 None \<Rightarrow> w
               | Some i \<Rightarrow> drop_read_cache_if_unused i (w\<lparr>fs_fh_to_inode := (fs_fh_to_inode w)(fh := None)\<rparr>))
      in (case flushed of Inr _ \<Rightarrow> (Reply (), w) | Inl e \<Rightarrow> (ReplyError EIO, w)))"

text \<open>\<open>inner.inodes.get(ino).map(|e| e.size).unwrap_or(0)\<close>\<close>

definition known_size :: "inode \<Rightarrow> ('dev, 's, 'd) mtp_fs \<Rightarrow> u64" where
  "known_size i w = (case entries (fs_inodes w) i of Some e \<Rightarrow> ie_size e | None \<Rightarrow> 0)"

definition open_buffer ::
  "('dev, 's, 'd) mtp_ops \<Rightarrow> u64 \<Rightarrow> inode \<Rightarrow> u64 \<Rightarrow> (('dev, 's, 'd) mtp_fs, io_error, unit) op" where
  "open_buffer ops fh i orig w =
     (let (tempfile, w) = ask (env_disk ops) w;
          (r, wb) = wb_open tempfile fh i orig (fs_write_buf w)
      in (map_sum id (\<lambda>_. ()) r, w\<lparr>fs_write_buf := wb\<rparr>))"

text \<open>The buffer of a descriptor that has none yet, as \<open>write\<close> and \<open>setattr\<close> open it.\<close>

definition ensure_buffer ::
  "('dev, 's, 'd) mtp_ops \<Rightarrow> u64 \<Rightarrow> inode \<Rightarrow> (('dev, 's, 'd) mtp_fs, io_error, unit) op" where
  "ensure_buffer ops fh i w =
     (if wb_is_open (fs_write_buf w) fh then (Inr (), w)
      else open_buffer ops fh i (known_size i w) w)"

definition fs_write ::
  "('dev, 's, 'd) mtp_ops \<Rightarrow> inode \<Rightarrow> u64 \<Rightarrow> u64 \<Rightarrow> byte list \<Rightarrow> ('dev, 's, 'd, u32) callback" where
  "fs_write ops i fh off bs w =
     (if fs_read_only w then (ReplyError EROFS, w)
      else
        (case ensure_buffer ops fh i w of
           (Inl e, w) \<Rightarrow> (ReplyError EIO, w)
         | (Inr _, w) \<Rightarrow>
             (let (out, w) = ask (env_disk ops) w in
              case wb_write out fh off bs (fs_write_buf w) :: (mtp_error mount_error + u32) \<times> write_buffer of
                (Inr n, wb) \<Rightarrow> (Reply n, w\<lparr>fs_write_buf := wb\<rparr>)
              | (Inl e, wb) \<Rightarrow> (ReplyError EIO, w\<lparr>fs_write_buf := wb\<rparr>))))"

section \<open>Creating\<close>

definition is_dir_at :: "inode \<Rightarrow> ('dev, 's, 'd) mtp_fs \<Rightarrow> bool" where
  "is_dir_at i w = (case entries (fs_inodes w) i of Some e \<Rightarrow> is_dir e | None \<Rightarrow> False)"

definition add_new ::
  "('dev, 's, 'd) mtp_ops \<Rightarrow> inode \<Rightarrow> object_handle \<Rightarrow> string \<Rightarrow> bool \<Rightarrow> ('dev, 's, 'd) mtp_fs \<Rightarrow>
   inode \<times> ('dev, 's, 'd) mtp_fs" where
  "add_new ops p h n dir w =
     (let (now, w) = ask (env_now ops) w;
          (i, t) = add_object p h n dir 0 now (fs_inodes w)
      in (i, w\<lparr>fs_inodes := t\<rparr>))"

definition create_empty :: "('dev, 's, 'd) mtp_ops \<Rightarrow> inode \<Rightarrow> string \<Rightarrow> ('dev, 's, 'd, object_handle) fs_op" where
  "create_empty ops p n =
     bind_op (parent_handle ops p) (\<lambda>mtp_parent. bind_op (storage_index p) (\<lambda>idx.
       on_storage idx (\<lambda>s. op_upload ops s mtp_parent n 0 (bytes_stream []))))"

definition fs_create ::
  "('dev, 's, 'd) mtp_ops \<Rightarrow> inode \<Rightarrow> string option \<Rightarrow> ('dev, 's, 'd, file_attr \<times> u64) callback" where
  "fs_create ops p name w =
     (if fs_read_only w then (ReplyError EROFS, w)
      else case name of None \<Rightarrow> (ReplyError EINVAL, w)
      | Some n \<Rightarrow>
          (if \<not> is_dir_at p w then (ReplyError ENOTDIR, w)
           else case with_recovery ops (\<lambda>_. create_empty ops p n) w of
             (Inl e, w) \<Rightarrow> (ReplyError EIO, w)
           | (Inr h, w) \<Rightarrow>
               (let (i, w) = add_new ops p h n False w;
                    (fh, w) = alloc_fh w;
                    w = w\<lparr>fs_fh_to_inode := (fs_fh_to_inode w)(fh \<mapsto> i)\<rparr> in
                case open_buffer ops fh i 0 w of
                  (Inl e, w) \<Rightarrow> (ReplyError EIO, w)
                | (Inr _, w) \<Rightarrow>
                    (case entries (fs_inodes w) i of
                       Some e \<Rightarrow> (Reply (entry_attr e, fh), w)
                     | None \<Rightarrow> (Panicked, w)))))"

definition create_dir :: "('dev, 's, 'd) mtp_ops \<Rightarrow> inode \<Rightarrow> string \<Rightarrow> ('dev, 's, 'd, object_handle) fs_op" where
  "create_dir ops p n =
     bind_op (parent_handle ops p) (\<lambda>mtp_parent. bind_op (storage_index p) (\<lambda>idx.
       on_storage idx (\<lambda>s. op_create_folder ops s mtp_parent n)))"

definition fs_mkdir :: "('dev, 's, 'd) mtp_ops \<Rightarrow> inode \<Rightarrow> string option \<Rightarrow> ('dev, 's, 'd, file_attr) callback" where
  "fs_mkdir ops p name w =
     (if fs_read_only w then (ReplyError EROFS, w)
      else case name of None \<Rightarrow> (ReplyError EINVAL, w)
      | Some n \<Rightarrow>
          (if \<not> is_dir_at p w then (ReplyError ENOTDIR, w)
           else case with_recovery ops (\<lambda>_. create_dir ops p n) w of
             (Inl e, w) \<Rightarrow> (ReplyError EIO, w)
           | (Inr h, w) \<Rightarrow>
               (let (i, w) = add_new ops p h n True w in
                case entries (fs_inodes w) i of
                  Some e \<Rightarrow> (Reply (entry_attr e), w)
                | None \<Rightarrow> (Panicked, w))))"

section \<open>Removing\<close>

definition delete_object ::
  "('dev, 's, 'd) mtp_ops \<Rightarrow> ('dev, 's, 'd, object_handle) fs_op \<Rightarrow> inode \<Rightarrow> ('dev, 's, 'd, unit) fs_op" where
  "delete_object ops handle i =
     bind_op handle (\<lambda>h. bind_op (storage_index i) (\<lambda>idx. on_storage idx (\<lambda>s. op_delete ops s h)))"

definition fs_unlink :: "('dev, 's, 'd) mtp_ops \<Rightarrow> inode \<Rightarrow> string option \<Rightarrow> ('dev, 's, 'd, unit) callback" where
  "fs_unlink ops p name w =
     (if fs_read_only w then (ReplyError EROFS, w)
      else case name of None \<Rightarrow> (ReplyError ENOENT, w)
      | Some n \<Rightarrow>
          (case lookup (fs_inodes w) p n of
             None \<Rightarrow> (ReplyError ENOENT, w)
           | Some i \<Rightarrow>
               (if is_dir_at i w then (ReplyError EISDIR, w)
                else case with_recovery ops (\<lambda>_. delete_object ops (file_handle ops i) i) w of
                  (Inl e, w) \<Rightarrow> (ReplyError EIO, w)
                | (Inr _, w) \<Rightarrow> (Reply (), upd_inodes (\<lambda>t. snd (remove_entry i t)) w))))"

definition is_folder_at :: "inode \<Rightarrow> ('dev, 's, 'd) mtp_fs \<Rightarrow> bool" where
  "is_folder_at i w =
     (case map_option ie_kind (entries (fs_inodes w) i) of Some (Directory _) \<Rightarrow> True | _ \<Rightarrow> False)"

definition fs_rmdir :: "('dev, 's, 'd) mtp_ops \<Rightarrow> inode \<Rightarrow> string option \<Rightarrow> ('dev, 's, 'd, unit) callback" where
  "fs_rmdir ops p name w =
     (if fs_read_only w then (ReplyError EROFS, w)
      else case name of None \<Rightarrow> (ReplyError ENOENT, w)
      | Some n \<Rightarrow>
          (case lookup (fs_inodes w) p n of
             None \<Rightarrow> (ReplyError ENOENT, w)
           | Some i \<Rightarrow>
               (if \<not> is_folder_at i w then (ReplyError ENOTDIR, w)
                else case with_recovery ops (\<lambda>_. delete_object ops (any_object_handle ops i) i) w of
                  (Inl e, w) \<Rightarrow> (ReplyError EIO, w)
                | (Inr _, w) \<Rightarrow> (Reply (), upd_inodes (\<lambda>t. snd (remove_entry i t)) w))))"

section \<open>Renaming\<close>

definition is_object_at :: "inode \<Rightarrow> ('dev, 's, 'd) mtp_fs \<Rightarrow> bool" where
  "is_object_at i w =
     (case map_option ie_kind (entries (fs_inodes w) i) of
        Some (File _) \<Rightarrow> True | Some (Directory _) \<Rightarrow> True | _ \<Rightarrow> False)"

definition rename_object :: "('dev, 's, 'd) mtp_ops \<Rightarrow> inode \<Rightarrow> string \<Rightarrow> ('dev, 's, 'd, unit) fs_op" where
  "rename_object ops i n =
     bind_op (any_object_handle ops i) (\<lambda>h. bind_op (storage_index i) (\<lambda>idx.
       on_storage idx (\<lambda>s. op_rename ops s h n)))"

definition relocate_object :: "('dev, 's, 'd) mtp_ops \<Rightarrow> inode \<Rightarrow> inode \<Rightarrow> ('dev, 's, 'd, unit) fs_op" where
  "relocate_object ops i p =
     bind_op (any_object_handle ops i) (\<lambda>h. bind_op (storage_index i) (\<lambda>idx.
     bind_op (parent_handle ops p) (\<lambda>mtp_parent.
       on_storage idx (\<lambda>s. op_move ops s h
         (case mtp_parent of Some ph \<Rightarrow> ph | None \<Rightarrow> op_root_handle ops)))))"

definition fs_rename ::
  "('dev, 's, 'd) mtp_ops \<Rightarrow> inode \<Rightarrow> string option \<Rightarrow> inode \<Rightarrow> string option \<Rightarrow> ('dev, 's, 'd, unit) callback" where
  "fs_rename ops p name newp newname w =
     (if fs_read_only w then (ReplyError EROFS, w)
      else case name of None \<Rightarrow> (ReplyError ENOENT, w)
      | Some n \<Rightarrow>
     (case newname of None \<Rightarrow> (ReplyError EINVAL, w)
      | Some m \<Rightarrow>
     (case lookup (fs_inodes w) p n of None \<Rightarrow> (ReplyError ENOENT, w)
      | Some i \<Rightarrow>
         (if \<not> is_object_at i w then (ReplyError EINVAL, w)
          else if p \<noteq> newp \<and> \<not> is_dir_at newp w then (ReplyError ENOTDIR, w)
          else
            (case (if n \<noteq> m then with_recovery ops (\<lambda>_. rename_object ops i m) w else (Inr (), w)) of
               (Inl e, w) \<Rightarrow> (ReplyError EIO, w)
             | (Inr _, w) \<Rightarrow>
                 (case (if p \<noteq> newp then with_recovery ops (\<lambda>_. relocate_object ops i newp) w else (Inr (), w)) of
                    (Inl e, w) \<Rightarrow> (ReplyError EIO, w)
                  | (Inr _, w) \<Rightarrow> (Reply (), upd_inodes (rename_entry i newp m) w)))))))"

section \<open>Attributes\<close>

text \<open>The truncation of an open descriptor; a new size other than zero changes nothing.\<close>

definition truncate_buffer ::
  "('dev, 's, 'd) mtp_ops \<Rightarrow> u64 \<Rightarrow> inode \<Rightarrow> u64 \<Rightarrow> (('dev, 's, 'd) mtp_fs, io_error, unit) op" where
  "truncate_buffer ops fh i new_size =
     bind_op (ensure_buffer ops fh i) (\<lambda>_. \<lambda>w.
       if new_size = 0
       then open_buffer ops fh i 0 (w\<lparr>fs_write_buf := snd (wb_close fh (fs_write_buf w))\<rparr>)
       else (Inr (), w))"

definition fs_setattr ::
  "('dev, 's, 'd) mtp_ops \<Rightarrow> inode \<Rightarrow> u64 option \<Rightarrow> u64 option \<Rightarrow> ('dev, 's, 'd, file_attr) callback" where
  "fs_setattr ops i new_size fh w =
     (if new_size \<noteq> None \<and> fs_read_only w then (ReplyError EROFS, w)
      else
        (case (case (new_size, fh) of
                 (Some sz, Some h) \<Rightarrow> truncate_buffer ops h i sz w
               | _ \<Rightarrow> (Inr (), w)) of
           (Inl e, w) \<Rightarrow> (ReplyError EIO, w)
         | (Inr _, w) \<Rightarrow>
             (case entries (fs_inodes w) i of
                None \<Rightarrow> (ReplyError ENOENT, w)
              | Some e \<Rightarrow>
                  (Reply (case new_size of Some sz \<Rightarrow> sized_attr sz (entry_attr e) | None \<Rightarrow> entry_attr e), w))))"

section \<open>Mount options\<close>

datatype mount_option = FSName string | Subtype string | DefaultPermissions | NoDev | NoSuid | RO | RW

definition mount_options :: "('dev, 's, 'd) mtp_fs \<Rightarrow> mount_option list" where
  "mount_options w =
     [FSName ''mtp-mount'', Subtype ''mtp'', DefaultPermissions, NoDev, NoSuid] @
     (if fs_read_only w then [RO] else [RW])"

section \<open>Events of the device\<close>

datatype device_event =
  ObjectAdded object_handle | ObjectRemoved object_handle | ObjectInfoChanged object_handle
| StoreAdded | StoreRemoved | StorageInfoChanged | OtherEvent

definition invalidate_all_dirs :: "('dev, 's, 'd) mtp_fs \<Rightarrow> ('dev, 's, 'd) mtp_fs" where
  "invalidate_all_dirs w = w\<lparr>fs_dirs_loaded := fs_dirs_loaded w |` {ROOT_INODE}\<rparr>"

definition forget_dir :: "inode \<Rightarrow> ('dev, 's, 'd) mtp_fs \<Rightarrow> ('dev, 's, 'd) mtp_fs" where
  "forget_dir p w = w\<lparr>fs_dirs_loaded := (fs_dirs_loaded w)(p := None)\<rparr>"

text \<open>The inodes whose entry is a file with this handle: their cached bytes are dropped.\<close>

definition drop_cached_bytes :: "object_handle \<Rightarrow> ('dev, 's, 'd) mtp_fs \<Rightarrow> ('dev, 's, 'd) mtp_fs" where
  "drop_cached_bytes h w =
     w\<lparr>fs_read_cache := (\<lambda>i.
         if map_option ie_kind (entries (fs_inodes w) i) = Some (File h) then None else fs_read_cache w i)\<rparr>"

text \<open>\<open>order\<close> is the order in which \<open>find_parent_by_handle\<close> meets the entries.\<close>

definition handle_event :: "inode list \<Rightarrow> device_event \<Rightarrow> ('dev, 's, 'd) mtp_fs \<Rightarrow> ('dev, 's, 'd) mtp_fs" where
  "handle_event order ev w =
     (case ev of
        ObjectAdded h \<Rightarrow>
          (case find_parent_by_handle order (fs_inodes w) h of
             Some p \<Rightarrow> forget_dir p w | None \<Rightarrow> invalidate_all_dirs w)
      | ObjectRemoved h \<Rightarrow>
          (case find_parent_by_handle order (fs_inodes w) h of
             Some p \<Rightarrow> forget_dir p w | None \<Rightarrow> invalidate_all_dirs w)
      | ObjectInfoChanged h \<Rightarrow>
          drop_cached_bytes h
            (case find_parent_by_handle order (fs_inodes w) h of Some p \<Rightarrow> forget_dir p w | None \<Rightarrow> w)
      | StoreAdded \<Rightarrow> invalidate_all_dirs w
      | StoreRemoved \<Rightarrow> invalidate_all_dirs w
      | StorageInfoChanged \<Rightarrow> invalidate_all_dirs w
      | OtherEvent \<Rightarrow> w)"

text \<open>What one poll of \<open>next_event\<close> answers; \<open>NoAnswer\<close> is the 200 ms limit.\<close>

datatype poll = Event device_event | PollError mtp_error | NoAnswer

text \<open>One turn of the loop: whether it goes on.\<close>

definition event_turn ::
  "inode list \<Rightarrow> u64 \<Rightarrow> poll \<Rightarrow> ('dev, 's, 'd) mtp_fs \<Rightarrow> bool \<times> ('dev, 's, 'd) mtp_fs" where
  "event_turn order epoch p w =
     (if fs_event_epoch w \<noteq> epoch then (False, w)
      else
        (case p of
           Event ev \<Rightarrow> (True, handle_event order ev w)
         | PollError e \<Rightarrow> (e = Timeout, w)
         | NoAnswer \<Rightarrow> (True, w)))"

end
