(* ===== verification/Read_Facts.thy ===== *)
theory Read_Facts
  imports Session_Facts Fs_Handlers
begin

text \<open>
  Reading through the mount: what \<open>fs_read\<close> answers is the object's bytes, on both read
  paths, across reconnects, re-resolved handles and short or failing transfers.
\<close>

section \<open>A device that serves the object\<close>

text \<open>
  The object is known by its name \<open>n\<close>: every listing that shows the name shows one of the
  handles \<open>H\<close>, and a range read of such a handle answers bytes of \<open>obj\<close> from the offset on,
  as many as it likes (\<open>mtp_rs\<close> passes a long answer through) within 64-bit positions.
\<close>

definition lists_as :: "('dev, 's, 'd) mtp_ops \<Rightarrow> object_handle set \<Rightarrow> string \<Rightarrow> bool" where
  "lists_as ops H n \<longleftrightarrow>
     (\<forall>s p d obs d'. op_list ops s p d = (Inr obs, d') \<longrightarrow>
        (\<forall>ob \<in> set obs. ob_filename ob = n \<longrightarrow> ob_handle ob \<in> H))"

definition answers_fit :: "('dev, 's, 'd) mtp_ops \<Rightarrow> bool" where
  "answers_fit ops \<longleftrightarrow>
     (\<forall>s h off k d bs d'. op_read_range ops s h off k d = (Inr bs, d') \<longrightarrow> unat off + length bs < 2 ^ 64)"

definition answers_object :: "('dev, 's, 'd) mtp_ops \<Rightarrow> object_handle set \<Rightarrow> (nat \<Rightarrow> byte) \<Rightarrow> bool" where
  "answers_object ops H obj \<longleftrightarrow>
     (\<forall>s h off k d bs d'. h \<in> H \<longrightarrow> op_read_range ops s h off k d = (Inr bs, d') \<longrightarrow> chunk_of obj (unat off) bs)"

text \<open>The inode is the file of that name, and its cached handle, stale or not, is one of \<open>H\<close>.\<close>

definition known_as :: "object_handle set \<Rightarrow> string \<Rightarrow> inode \<Rightarrow> inode_table \<Rightarrow> bool" where
  "known_as H n i t \<longleftrightarrow>
     (\<forall>e. entries t i = Some e \<longrightarrow> ie_name e = n \<and> (\<forall>h. ie_kind e = File h \<longrightarrow> h \<in> H))"

definition stays_known :: "object_handle set \<Rightarrow> string \<Rightarrow> inode \<Rightarrow> ('dev, 's, 'd) mtp_fs \<Rightarrow> ('dev, 's, 'd) mtp_fs \<Rightarrow> bool" where
  "stays_known H n i w w' \<longleftrightarrow> (known_as H n i (fs_inodes w) \<longrightarrow> known_as H n i (fs_inodes w'))"

lemma known_as_bump [simp]: "known_as H n i (bump_generation t) = known_as H n i t"
  by (simp add: known_as_def)

lemma known_as_update:
  assumes "known_as H n i t" and "\<And>e. ie_name (f e) = ie_name e"
    and "\<And>e h. i = j \<Longrightarrow> ie_kind (f e) = File h \<Longrightarrow> ie_kind e = File h \<or> h \<in> H"
  shows "known_as H n i (update_entry j f t)"
  using assms by (fastforce simp: known_as_def update_entry_def split: option.splits if_splits)

lemma known_as_set_storage_id: "known_as H n i t \<Longrightarrow> known_as H n i (set_storage_id j s t)"
  unfolding set_storage_id_def by (erule known_as_update) (simp_all split: inode_kind.splits)

lemma known_as_remap: "known_as H n i t \<Longrightarrow> known_as H n i (remap_storages ss pos is t)"
proof (induction "is" arbitrary: pos t)
  case (Cons j rest)
  then show ?case by (simp add: known_as_set_storage_id split: option.splits)
qed simp

lemma known_as_set_handle: "known_as H n i t \<Longrightarrow> (j = i \<Longrightarrow> h \<in> H) \<Longrightarrow> known_as H n i (set_handle j h t)"
  unfolding set_handle_def by (erule known_as_update) (simp_all split: inode_kind.splits)

lemma find_SomeD: "List.find P xs = Some x \<Longrightarrow> x \<in> set xs \<and> P x"
  by (induction xs) (auto split: if_splits)

lemma resolve_node_known:
  assumes "lists_as ops H n"
  shows "within (stays_known H n i) (resolve_node ops idx node parent)"
proof (rule withinI)
  fix w r w'
  assume run: "resolve_node ops idx node parent w = (r, w')"
  obtain q v where c: "call (op_list ops (fs_storages w ! idx) parent) w = (q, v)" by fastforce
  then obtain d where v: "v = w\<lparr>fs_env := d\<rparr>" "op_list ops (fs_storages w ! idx) parent (fs_env w) = (q, d)"
    by (auto simp: call_def split: prod.splits)
  consider (same) "fs_inodes w' = fs_inodes w"
    | (set) e objects found where "entries (fs_inodes w) node = Some e" "q = Inr objects"
        "List.find (\<lambda>ob. ob_filename ob = ie_name e) objects = Some found"
        "fs_inodes w' = set_handle node (ob_handle found) (fs_inodes w)"
    using run c v(1)
    by (auto simp: resolve_node_def upd_inodes_def split: option.splits if_splits inode_kind.splits sum.splits)
  then show "stays_known H n i w w'"
  proof cases
    case set
    have "node = i \<Longrightarrow> known_as H n i (fs_inodes w) \<Longrightarrow> ob_handle found \<in> H"
      using set(1) assms v(2) set(2) find_SomeD [OF set(3)] by (fastforce simp: known_as_def lists_as_def)
    then show ?thesis by (auto simp: stays_known_def set(4) intro: known_as_set_handle)
  qed (simp add: stays_known_def)
qed

lemma known_frame:
  fixes ops :: "('dev, 's, 'd) mtp_ops"
  assumes "lists_as ops H n"
  shows "session_frame (stays_known H n i :: ('dev, 's, 'd) mtp_fs \<Rightarrow> ('dev, 's, 'd) mtp_fs \<Rightarrow> bool) ops"
proof
  fix w :: "('dev, 's, 'd) mtp_fs" and idx node parent
  show "within (stays_known H n i) (resolve_node ops idx node parent)"
    by (rule resolve_node_known [OF assms])
qed (auto simp: stays_known_def invalidate_handles_def give_up_def known_as_remap)

section \<open>One transfer\<close>

definition transfer :: "('dev, 's, 'd) mtp_ops \<Rightarrow> inode \<Rightarrow> u64 \<Rightarrow> u32 \<Rightarrow> ('dev, 's, 'd, byte list) fs_op" where
  "transfer ops i off k = with_recovery ops (\<lambda>_. on_file ops i (\<lambda>s h. op_read_range ops s h off k))"

lemma on_file_within:
  assumes "session_frame R ops"
  shows "within R (on_file ops i f)"
  unfolding on_file_def
  by (intro session_frame.session_within [OF assms])

lemma on_file_InrE:
  assumes "on_file ops i f w = (Inr a, w')"
  obtains h v s d where "file_handle ops i w = (Inr h, v)" "f s h (fs_env v) = (Inr a, d)" "w' = v\<lparr>fs_env := d\<rparr>"
proof -
  obtain h v where h: "file_handle ops i w = (Inr h, v)"
      "bind_op (storage_index i) (\<lambda>idx. on_storage idx (\<lambda>s. f s h)) v = (Inr a, w')"
    using assms unfolding on_file_def by (auto elim: bind_op_InrE)
  obtain idx u where u: "storage_index i v = (Inr idx, u)" "on_storage idx (\<lambda>s. f s h) u = (Inr a, w')"
    using h(2) by (auto elim: bind_op_InrE)
  have "u = v" using u(1) by (auto simp: storage_index_def dest: lift_opt_cases)
  with u(2) have "f (fs_storages v ! idx) h (fs_env v) = (Inr a, fs_env w') \<and> w' = v\<lparr>fs_env := fs_env w'\<rparr>"
    by (auto simp: on_storage_def call_def split: prod.splits)
  then show ?thesis using that h(1) by blast
qed

lemma transfer_within: "session_frame R ops \<Longrightarrow> within R (transfer ops i off k)"
  unfolding transfer_def
  by (rule session_frame.with_recoveries) (auto intro: on_file_within)

lemma transfer_known:
  "lists_as ops H n \<Longrightarrow> transfer ops i off k w = (r, w') \<Longrightarrow> known_as H n i (fs_inodes w) \<Longrightarrow>
   known_as H n i (fs_inodes w')"
  using withinD [OF transfer_within [OF known_frame]] by (fastforce simp: stays_known_def)

lemma transfer_same: "transfer ops i off k w = (r, w') \<Longrightarrow> same_mount w w'"
  using withinD [OF transfer_within [OF survives.session_frame_axioms]] .

text \<open>What a call on the file answers, however often it is retried, is an answer for one of \<open>H\<close>.\<close>

lemma recovered_answer:
  assumes laws: "lists_as ops H n" and known: "known_as H n i (fs_inodes w)"
    and run: "with_recovery ops (\<lambda>_. on_file ops i f) w = (Inr a, w')"
  shows "\<exists>s h d d'. h \<in> H \<and> f s h d = (Inr a, d')"
proof -
  note frame = known_frame [OF laws, of i]
  obtain u where u: "stays_known H n i w u" "on_file ops i f u = (Inr a, w')"
    using session_frame.recovered_value [OF frame on_file_within [OF frame] run] by blast
  from u(2) obtain h v s d where h: "file_handle ops i u = (Inr h, v)" "f s h (fs_env v) = (Inr a, d)"
    by (rule on_file_InrE)
  have "known_as H n i (fs_inodes v)"
    using withinD [OF session_frame.session_handles(1) [OF frame] h(1)] u(1) known by (simp add: stays_known_def)
  then have "h \<in> H" using file_handle_fresh [OF h(1)] by (auto simp: known_as_def)
  with h(2) show ?thesis by blast
qed

lemma transfer_answer:
  "lists_as ops H n \<Longrightarrow> known_as H n i (fs_inodes w) \<Longrightarrow> transfer ops i off k w = (Inr bs, w') \<Longrightarrow>
    \<exists>s h d d'. h \<in> H \<and> op_read_range ops s h off k d = (Inr bs, d')"
  unfolding transfer_def by (rule recovered_answer)

lemma transfer_some_answer:
  assumes "transfer ops i off k w = (Inr bs, w')"
  shows "\<exists>s h d d'. op_read_range ops s h off k d = (Inr bs, d')"
proof -
  obtain n where "known_as UNIV n i (fs_inodes w)"
    by (cases "entries (fs_inodes w) i") (auto simp: known_as_def)
  from transfer_answer [OF _ this assms] show ?thesis by (auto simp: lists_as_def)
qed

section \<open>The ranged path\<close>

text \<open>What holds while the mount reads the inode: who it is, and that the cache holds the object.\<close>

definition reading :: "object_handle set \<Rightarrow> string \<Rightarrow> inode \<Rightarrow> (nat \<Rightarrow> byte) \<Rightarrow> u64 \<Rightarrow> cache_id \<Rightarrow> ('dev, 's, 'd) mtp_fs \<Rightarrow> bool" where
  "reading H n i obj tot c w \<longleftrightarrow> known_as H n i (fs_inodes w) \<and> sh_ok obj tot (fs_heap w c) \<and>
     fs_read_cache w i = Some c"

lemma reading_env [simp]: "reading H n i obj tot c (w\<lparr>fs_env := d\<rparr>) = reading H n i obj tot c w"
  by (simp add: reading_def)

lemma ask_cases: "ask f w = (a, w') \<Longrightarrow> \<exists>d. w' = w\<lparr>fs_env := d\<rparr>"
  by (auto simp: ask_def split: prod.splits)

text \<open>One turn of the loop, with the wrap-around of the cursor spelled out by the caller.\<close>

lemma fetch_turn:
  assumes "cursor < en"
  shows "fetch_range ops i c object_size cursor en w =
    (case transfer ops i cursor (ucast (min (en - cursor) CHUNK)) (w\<lparr>fs_fetch_counter := fs_fetch_counter w + 1\<rparr>) of
       (Inl e, w) \<Rightarrow> Some (Inl EIO, w)
     | (Inr bs, w) \<Rightarrow>
         (let writable = min (unat (saturating_sub object_size cursor)) (length bs);
              (out, w) = ask (env_disk ops) w;
              (stored, sc) = sh_write_at out (fs_heap w c) cursor (take writable bs);
              w = upd_cache c (\<lambda>_. sc) w
          in (case stored of
                Inl e \<Rightarrow> Some (Inl EIO, w)
              | Inr _ \<Rightarrow>
                  (if bs = [] then Some (Inr (), w)
                   else fetch_range ops i c object_size (cursor + of_nat (length bs)) en w))))"
  using assms by (subst fetch_range.simps) (simp add: transfer_def Let_def)

lemma fetch_end: "\<not> cursor < en \<Longrightarrow> fetch_range ops i c object_size cursor en w = Some (Inr (), w)"
  by (subst fetch_range.simps) simp

text \<open>Storing the part of an answer that lies inside the object.\<close>

lemma reading_store:
  assumes "reading H n i obj tot c w" and "chunk_of obj (unat off) bs"
    and "sh_write_at out (fs_heap w c) off (take k bs) = (r, sc)"
  shows "reading H n i obj tot c (upd_cache c (\<lambda>_. sc) w)"
  using assms sh_write_at_ok(1) [OF _ chunk_of_take [OF assms(2)] assms(3)]
  by (simp add: reading_def upd_cache_def)

definition object_laws :: "('dev, 's, 'd) mtp_ops \<Rightarrow> object_handle set \<Rightarrow> string \<Rightarrow> (nat \<Rightarrow> byte) \<Rightarrow> bool" where
  "object_laws ops H n obj \<longleftrightarrow> lists_as ops H n \<and> answers_object ops H obj"

lemma reading_transfer:
  assumes laws: "object_laws ops H n obj" and ok: "reading H n i obj tot c w"
    and run: "transfer ops i off k w = (r, w')"
  shows "reading H n i obj tot c w'" and "r = Inr bs \<Longrightarrow> chunk_of obj (unat off) bs"
proof -
  show "reading H n i obj tot c w'"
    using laws ok run transfer_known [of ops H n] same_mountD(3,6) [OF transfer_same [OF run]]
    by (auto simp: reading_def object_laws_def)
  show "chunk_of obj (unat off) bs" if "r = Inr bs"
    using transfer_answer [of ops H n i w off k bs w'] laws ok run that
    unfolding reading_def object_laws_def answers_object_def by blast
qed

lemma fetch_range_ok:
  assumes fit: "answers_fit ops"
  shows "\<exists>r w'. fetch_range ops i c object_size cursor en w = Some (r, w') \<and> r \<in> {Inl EIO, Inr ()} \<and>
    (object_laws ops H n obj \<longrightarrow> reading H n i obj tot c w \<longrightarrow> reading H n i obj tot c w')"
proof (induction "unat en - unat cursor" arbitrary: cursor w rule: less_induct)
  case less
  show ?case
  proof (cases "cursor < en")
    case True
    let ?k = "ucast (min (en - cursor) CHUNK) :: u32"
    let ?w = "w\<lparr>fs_fetch_counter := fs_fetch_counter w + 1\<rparr>"
    obtain r v where t: "transfer ops i cursor ?k ?w = (r, v)" by fastforce
    have ok: "object_laws ops H n obj \<Longrightarrow> reading H n i obj tot c w \<Longrightarrow> reading H n i obj tot c v"
      using reading_transfer(1) [OF _ _ t, of H n obj tot c] by (simp add: reading_def)
    show ?thesis
    proof (cases r)
      case (Inl e)
      then show ?thesis using ok by (simp add: fetch_turn [OF True] t)
    next
      case (Inr bs)
      obtain out u where a: "ask (env_disk ops) v = (out, u)" by fastforce
      let ?off = "min (unat (saturating_sub object_size cursor)) (length bs)"
      obtain q sc where st: "sh_write_at out (fs_heap u c) cursor (take ?off bs) = (q, sc)" by fastforce
      let ?u = "upd_cache c (\<lambda>_. sc) u"
      have ok': "reading H n i obj tot c ?u" if "object_laws ops H n obj" "reading H n i obj tot c w"
      proof -
        have "chunk_of obj (unat cursor) bs"
          using that(2) by (intro reading_transfer(2) [OF that(1) _ t Inr, of tot c]) (simp add: reading_def)
        moreover have "reading H n i obj tot c u" using ok [OF that] ask_cases [OF a] by auto
        ultimately show ?thesis using st by (intro reading_store)
      qed
      have "unat cursor + length bs < 2 ^ 64"
        using transfer_some_answer [OF t [unfolded Inr]] fit unfolding answers_fit_def by blast
      then have shorter: "bs \<noteq> [] \<Longrightarrow> unat en - unat (cursor + of_nat (length bs)) < unat en - unat cursor"
        using True by (simp add: word_less_unat unat_word_ariths unsigned_of_nat take_bit_eq_mod diff_less_mono2
            flip: length_greater_0_conv)
      show ?thesis
      proof (cases "(\<exists>e. q = Inl e) \<or> bs = []")
        case True
        then show ?thesis using ok' by (auto simp: fetch_turn [OF \<open>cursor < en\<close>] t Inr a st Let_def split: sum.splits)
      next
        case False
        from less [OF shorter, of ?u] False obtain r' w' where
          "fetch_range ops i c object_size (cursor + of_nat (length bs)) en ?u = Some (r', w')" "r' \<in> {Inl EIO, Inr ()}"
          "object_laws ops H n obj \<longrightarrow> reading H n i obj tot c ?u \<longrightarrow> reading H n i obj tot c w'" by blast
        then show ?thesis using ok' False by (auto simp: fetch_turn [OF True] t Inr a st Let_def split: sum.splits)
      qed
    qed
  qed (simp add: fetch_end)
qed

lemma fetch_ranges_ok:
  assumes fit: "answers_fit ops"
  shows "\<exists>r w'. fetch_ranges ops i c object_size rs w = Some (r, w') \<and> r \<in> {Inl EIO, Inr ()} \<and>
    (object_laws ops H n obj \<longrightarrow> reading H n i obj tot c w \<longrightarrow> reading H n i obj tot c w')"
proof (induction rs arbitrary: w)
  case (Cons r rs)
  obtain q v where f: "fetch_range ops i c object_size (r_start r) (r_end r) w = Some (q, v)" "q \<in> {Inl EIO, Inr ()}"
      "object_laws ops H n obj \<longrightarrow> reading H n i obj tot c w \<longrightarrow> reading H n i obj tot c v"
    using fetch_range_ok [OF fit] by blast
  show ?case
  proof (cases q)
    case (Inl e)
    then show ?thesis using f by simp
  next
    case (Inr x)
    obtain q' u where "fetch_ranges ops i c object_size rs v = Some (q', u)" "q' \<in> {Inl EIO, Inr ()}"
        "object_laws ops H n obj \<longrightarrow> reading H n i obj tot c v \<longrightarrow> reading H n i obj tot c u"
      using Cons.IH by blast
    then show ?thesis using f Inr by simp
  qed
qed simp

lemma ranged_read_ok:
  assumes fit: "answers_fit ops"
  shows "\<exists>r w'. ranged_read ops i c object_size off sz w = Some (r, w') \<and> (r = ReplyError EIO \<or> r \<in> range Reply) \<and>
    (object_laws ops H n obj \<longrightarrow> reading H n i obj tot c w \<longrightarrow>
       reading H n i obj tot c w' \<and> (\<forall>bs. r = Reply bs \<longrightarrow> bs = obj_slice obj tot off sz))"
proof -
  obtain q v where f: "fetch_ranges ops i c object_size (sh_missing_ranges (fs_heap w c) off sz) w = Some (q, v)" "q \<in> {Inl EIO, Inr ()}"
      "object_laws ops H n obj \<longrightarrow> reading H n i obj tot c w \<longrightarrow> reading H n i obj tot c v"
    using fetch_ranges_ok [OF fit] by blast
  obtain out d where a: "ask (env_disk ops) v = (out, v\<lparr>fs_env := d\<rparr>)"
    by (cases "env_disk ops (fs_env v)") (auto simp: ask_def)
  have right: "bs = obj_slice obj tot off sz"
    if "reading H n i obj tot c v" "sh_missing_ranges (fs_heap v c) off sz = []" "sh_read_at out (fs_heap v c) off sz = Inr bs" for bs
    using that sc_read_object [of "sh_cache (fs_heap v c)" obj off sz out bs]
    by (auto simp: reading_def sh_ok_def total_size_def sh_missing_ranges_def sh_read_at_def)
  show ?thesis
    using f a right by (auto simp: ranged_read_def split: sum.splits)
qed

section \<open>The whole-object path\<close>

lemma upd_cache_same:
  assumes "sh_cache (f (fs_heap w c)) = sh_cache (fs_heap w c)"
  shows "reading H n i obj tot c (upd_cache c f w) = reading H n i obj tot c w"
  using sh_ok_same_cache [OF assms] by (simp add: reading_def upd_cache_def)

lemma on_file_same: "on_file ops i f w = (r, w') \<Longrightarrow> same_mount w w'"
  using withinD [OF on_file_within [OF survives.session_frame_axioms]] .

lemma recovered_file_same: "with_recovery ops (\<lambda>_. on_file ops i f) w = (r, w') \<Longrightarrow> same_mount w w'"
  by (rule withinD [OF survives.with_recoveries [OF on_file_within [OF survives.session_frame_axioms]]])

lemma upd_obs [simp]:
  "fs_heap (upd_cache c f w) c = f (fs_heap w c)" "fs_heap (upd_fills g w) = fs_heap w"
  "fs_fills (upd_cache c f w) = fs_fills w" "fs_inodes (upd_cache c f w) = fs_inodes w"
  "fs_inodes (upd_fills g w) = fs_inodes w" "fs_read_cache (upd_cache c f w) = fs_read_cache w"
  "fs_read_cache (upd_fills g w) = fs_read_cache w"
  by (simp_all add: upd_cache_def upd_fills_def)

text \<open>Starting the filler changes the state of the fill, never the bytes; names stay.\<close>

lemma ensure_fill_reading:
  assumes "lists_as ops H n" and ok: "reading H n i obj tot c w"
  shows "reading H n i obj tot c (ensure_full_fill_running ops i c w)"
proof -
  obtain b sc where s: "start_fill (fs_heap w c) = (b, sc)" by fastforce
  define w1 where "w1 = upd_cache c (\<lambda>_. sc) w"
  have 1: "reading H n i obj tot c w1"
    using ok upd_cache_same [of "\<lambda>_. sc" w c] cache_unchanged(1) [OF s] by (simp add: w1_def)
  obtain g t where r: "register c (fs_fills w1) = (g, t)" by fastforce
  define w2 where "w2 = upd_fills (\<lambda>_. t) w1"
  obtain q v where v: "with_recovery ops (\<lambda>_. on_file ops i (op_download ops)) w2 = (q, v)" by fastforce
  have "stays_known H n i w2 v"
    by (rule withinD [OF session_frame.with_recoveries [OF known_frame [OF assms(1)]] v])
      (rule on_file_within [OF known_frame [OF assms(1)]])
  moreover have 2: "reading H n i obj tot c w2" using 1 by (simp add: reading_def w2_def)
  ultimately have 3: "reading H n i obj tot c v"
    using same_mountD(3,6) [OF recovered_file_same [OF v]] by (simp add: reading_def stays_known_def)
  have run: "ensure_full_fill_running ops i c w =
      (if \<not> b then w1
       else if \<not> g then upd_cache c (\<lambda>s. sh_fail s (fill_failure_new
           ''the mount is going away, so no new whole-object download was started'' False)) w2
       else case q of
         Inl e \<Rightarrow> upd_fills (finished c) (upd_cache c (\<lambda>s. sh_fail s (fill_failure_new (op_error_text ops e) (is_link_lost e))) v)
       | Inr download \<Rightarrow> v\<lparr>fs_full_fill_counter := fs_full_fill_counter v + 1,
           fs_fillers := fs_fillers v @ [(i, c, download)]\<rparr>)"
    unfolding ensure_full_fill_running_def s Let_def prod.case w1_def [symmetric] r w2_def [symmetric] v
    by (simp split: sum.splits)
  have failed: "reading H n i obj tot c (upd_cache c (\<lambda>s. sh_fail s f) u)" if "reading H n i obj tot c u"
    for f and u :: "('a, 'b, 'c) mtp_fs"
    using that upd_cache_same [of "\<lambda>s. sh_fail s f" u c] cache_unchanged(4) by blast
  show ?thesis
    unfolding run using 1 failed [OF 2] failed [OF 3] 3 by (auto simp: reading_def split: sum.splits)
qed

lemma wait_and_read_sound:
  "list_all (sh_ok obj tot) ss \<Longrightarrow> wait_and_read out ss off sz = Some (Inr ys) \<Longrightarrow> ys = obj_slice obj tot off sz"
  by (induction out ss off sz rule: wait_and_read.induct) (auto dest: wait_poll_sound split: option.splits)

lemma reading_recover:
  assumes "lists_as ops H n" and "reading H n i obj tot c w" and "recover_full_fill_link ops i w = (r, w')"
  shows "reading H n i obj tot c w'"
proof -
  have run: "with_recovery ops (\<lambda>_. on_file ops i (op_get_info ops)) w = (r, w')"
    using assms(3) by (simp add: recover_full_fill_link_def)
  have "stays_known H n i w w'"
    by (rule withinD [OF session_frame.with_recoveries [OF known_frame [OF assms(1)]] run])
      (rule on_file_within [OF known_frame [OF assms(1)]])
  then show ?thesis
    using assms(2) same_mountD(3,6) [OF recovered_file_same [OF run]] by (simp add: reading_def stays_known_def)
qed

definition views_ok :: "(nat \<Rightarrow> byte) \<Rightarrow> u64 \<Rightarrow> (nat \<Rightarrow> shared_cache list) \<Rightarrow> bool" where
  "views_ok obj tot views \<longleftrightarrow> (\<forall>k. list_all (sh_ok obj tot) (views k))"

text \<open>One turn of the loop: an answer, an error, or another turn after a recovery.\<close>

lemma sequential_turn:
  assumes laws: "lists_as ops H n" and views: "views_ok obj tot views"
    and run: "sequential_read ops i c off sz retries views w = Some (r, w')" and ok: "reading H n i obj tot c w"
  obtains (answer) bs where "r = Reply bs" "bs = obj_slice obj tot off sz" "reading H n i obj tot c w'"
  | (failed) "r = ReplyError EIO" "reading H n i obj tot c w'"
  | (again) k u where "retries = Suc k" "reading H n i obj tot c u"
      "sequential_read ops i c off sz k views u = Some (r, w')"
proof -
  define w1 where "w1 = ensure_full_fill_running ops i c w"
  obtain out w2 where a: "ask (env_disk ops) w1 = (out, w2)" by fastforce
  have 2: "reading H n i obj tot c w2"
    using ensure_fill_reading [OF laws ok] ask_cases [OF a] by (auto simp: w1_def)
  define ss where "ss = fs_heap w2 c # views retries"
  define w3 where "w3 = upd_cache c (\<lambda>_. wait_end out (fs_heap w2 c) (views retries) off sz) w2"
  have ss: "list_all (sh_ok obj tot) ss" using views 2 by (auto simp: views_ok_def ss_def reading_def)
  then have "sh_ok obj tot (wait_end out (fs_heap w2 c) (views retries) off sz)"
    using wait_end_member [of out "fs_heap w2 c" "views retries" off sz] by (auto simp: ss_def list_all_iff)
  then have 3: "reading H n i obj tot c w3" using 2 by (simp add: w3_def reading_def)
  note run = run [unfolded sequential_read.simps [of ops i c off sz retries views w], folded w1_def,
      unfolded Let_def a prod.case, folded ss_def, folded w3_def]
  obtain res where res: "wait_and_read out ss off sz = Some res" using run by (cases "wait_and_read out ss off sz") auto
  show ?thesis
  proof (cases res)
    case (Inr bs)
    then show ?thesis
      using run res 3 wait_and_read_sound [OF ss] by (intro answer [of bs]) auto
  next
    case (Inl failure)
    consider (stop) "r = ReplyError EIO" "w' = w3"
      | (more) k where "retries = Suc k" "ff_link_lost failure"
      using run res Inl by (auto split: if_splits nat.splits)
    then show ?thesis
    proof cases
      case (more k)
      obtain q v where q: "recover_full_fill_link ops i w3 = (q, v)" by fastforce
      have 4: "reading H n i obj tot c v" by (rule reading_recover [OF laws 3 q])
      obtain b sc where b: "reset_after_link_loss (fs_heap v c) = (b, sc)" by fastforce
      have 5: "reading H n i obj tot c (upd_cache c (\<lambda>_. sc) v)"
        using upd_cache_same [of "\<lambda>_. sc" v c] cache_unchanged(2) [OF b] 4 by blast
      show ?thesis
        using run res Inl more q b 4 5 failed again by (auto split: sum.splits bool.splits)
    qed (use failed 3 in blast)
  qed
qed

lemma sequential_read_ok:
  assumes laws: "lists_as ops H n" and views: "views_ok obj tot views"
  shows "sequential_read ops i c off sz retries views w = Some (r, w') \<Longrightarrow> reading H n i obj tot c w \<Longrightarrow>
    reading H n i obj tot c w' \<and> (\<forall>bs. r = Reply bs \<longrightarrow> bs = obj_slice obj tot off sz)"
proof (induction retries arbitrary: w)
  case 0
  from laws views 0 show ?case by (cases rule: sequential_turn) auto
next
  case (Suc retries)
  from laws views Suc.prems show ?case by (cases rule: sequential_turn) (use Suc.IH in auto)
qed

section \<open>The read callback\<close>

definition cached_right :: "(nat \<Rightarrow> byte) \<Rightarrow> u64 \<Rightarrow> inode \<Rightarrow> ('dev, 's, 'd) mtp_fs \<Rightarrow> bool" where
  "cached_right obj tot i w \<longleftrightarrow> (\<forall>c. fs_read_cache w i = Some c \<longrightarrow> sh_ok obj tot (fs_heap w c))"

lemma sh_new_ok: "sh_new t l tot = Inr sc \<Longrightarrow> sh_ok obj tot sc"
  by (rule cache_reach_ok) (rule cache_reach.created)

lemma read_cache_for_reading:
  assumes "known_as H n i (fs_inodes w)" and "cached_right obj tot i w"
    and "read_cache_for ops i tot w = (Inr c, w')"
  shows "reading H n i obj tot c w'"
proof (cases "fs_read_cache w i")
  case None
  obtain t d1 where 1: "ask (env_disk ops) w = (t, w\<lparr>fs_env := d1\<rparr>)"
    by (cases "env_disk ops (fs_env w)") (auto simp: ask_def)
  obtain l d2 where 2: "ask (env_disk ops) (w\<lparr>fs_env := d1\<rparr>) = (l, w\<lparr>fs_env := d2\<rparr>)"
    by (cases "env_disk ops d1") (auto simp: ask_def)
  show ?thesis
    using assms None 1 2
    by (auto simp: read_cache_for_def reading_def Let_def intro: sh_new_ok split: sum.splits)
qed (use assms in \<open>auto simp: read_cache_for_def reading_def cached_right_def\<close>)

lemma read_strategy_env [simp]: "read_strategy_for ops (w\<lparr>fs_env := d\<rparr>) sz = read_strategy_for ops w sz"
  by (simp add: read_strategy_for_def)

lemma obj_slice_end: "tot \<le> off \<or> sz = 0 \<Longrightarrow> obj_slice obj tot off sz = []"
  by (auto simp: obj_slice_def word_le_unat)

lemma reading_cached: "reading H n i obj tot c w \<Longrightarrow> cached_right obj tot i w"
  by (simp add: reading_def cached_right_def)

text \<open>
  C1. A read never returns a wrong byte: if every listing shows the file's name with a handle
  of the object and the device answers its bytes, then whatever data a read replies, on either
  read path, from the cache or after any number of transfers, failures, stale handles and
  reconnects, is exactly the object's bytes of the window cut at its size, and the cache it
  leaves holds only bytes of the object.
\<close>

theorem read_returns_object_bytes:
  assumes laws: "object_laws ops H n obj" "answers_fit ops" "views_ok obj (ie_size e) views"
    and entry: "entries (fs_inodes w) i = Some e" "known_as H n i (fs_inodes w)"
    and cached: "cached_right obj (ie_size e) i w"
    and plain: "\<not> wb_is_open (fs_write_buf w) fh"
    and run: "fs_read ops views i fh off sz w = Some (Reply bs, w')"
  shows "bs = obj_slice obj (ie_size e) off (ucast sz) \<and> cached_right obj (ie_size e) i w'"
proof (cases "sz = 0 \<or> off \<ge> ie_size e")
  case True
  then show ?thesis
    using run entry(1) plain cached by (auto simp: fs_read_def obj_slice_end split: if_splits)
next
  case False
  obtain q v where c: "read_cache_for ops i (ie_size e) w = (q, v)" by fastforce
  have "\<not> is_dir e" using run entry(1) plain by (auto simp: fs_read_def split: if_splits)
  note run = run [unfolded fs_read_def, simplified plain entry(1) False c this option.case if_False]
  obtain c where q: "q = Inr c" using run by (cases q) auto
  have ok: "reading H n i obj (ie_size e) c v"
    by (rule read_cache_for_reading [OF entry(2) cached]) (use c q in simp)
  show ?thesis
  proof (cases "read_strategy_for ops v (ie_size e)")
    case Ranged
    then show ?thesis
      using run q ok laws(1) ranged_read_ok [OF laws(2), of i c "ie_size e" off "ucast sz" v H n obj "ie_size e"]
      by (auto dest: reading_cached)
  next
    case SequentialFull
    then have "sequential_read ops i c off (ucast sz) 1 views v = Some (Reply bs, w')" using run q by simp
    with sequential_read_ok [OF _ laws(3) this ok] show ?thesis
      using laws(1) by (auto simp: object_laws_def dest: reading_cached)
  qed (use run q in simp)
qed

text \<open>
  C32. On a device with partial reads a read always gets its reply: the loops over the missing
  ranges and their transfers end, however short, long or empty the device's answers are, and
  the reply is data or one of three errors, \<open>EIO\<close>, \<open>ENOENT\<close> and \<open>EISDIR\<close>.
\<close>

theorem ranged_read_replies:
  assumes "answers_fit ops" and "op_partial ops (fs_device w)"
  shows "\<exists>r w'. fs_read ops views i fh off sz w = Some (r, w') \<and>
    (r \<in> range Reply \<or> r \<in> {ReplyError EIO, ReplyError ENOENT, ReplyError EISDIR})"
proof (cases "wb_is_open (fs_write_buf w) fh")
  case True
  then show ?thesis by (auto simp: fs_read_def split: prod.splits sum.splits)
next
  case plain: False
  show ?thesis
  proof (cases "entries (fs_inodes w) i")
    case (Some e)
    obtain q v where c: "read_cache_for ops i (ie_size e) w = (q, v)" by fastforce
    have "fs_device v = fs_device w"
      using c by (auto simp: read_cache_for_def ask_def Let_def split: option.splits sum.splits prod.splits)
    then have "read_strategy_for ops v (ie_size e) = Ranged"
      using assms(2) by (simp add: read_strategy_for_def read_strategy_def)
    then have run: "fs_read ops views i fh off sz w =
        (if is_dir e then Some (ReplyError EISDIR, w)
         else if sz = 0 \<or> off \<ge> ie_size e then Some (Reply [], w)
         else case q of Inl err \<Rightarrow> Some (ReplyError EIO, v)
           | Inr b \<Rightarrow> ranged_read ops i b (ie_size e) off (ucast sz) v)"
      using plain Some c by (simp add: fs_read_def split: sum.splits)
    show ?thesis
    proof (cases q)
      case (Inr b)
      obtain r w' where "ranged_read ops i b (ie_size e) off (ucast sz) v = Some (r, w')"
          "r = ReplyError EIO \<or> r \<in> range Reply"
        using ranged_read_ok [OF assms(1)] by blast
      then show ?thesis using run Inr by auto
    qed (use run in auto)
  qed (use plain in \<open>simp add: fs_read_def\<close>)
qed

text \<open>The small device with its one file, whose answers do not depend on its state.\<close>

definition demo_bytes :: "nat \<Rightarrow> byte" where
  "demo_bytes k = of_nat (k + 1)"

definition demo_reader :: "(unit, unit, demo_env) mtp_ops" where
  "demo_reader = demo_ops
     \<lparr>op_list := (\<lambda>s p. plugged (Pair (Inr [demo_object (5, ''a.txt'', [1, 2, 3])]))),
      op_read_range := (\<lambda>s h off k. plugged (Pair (Inr (pread [1, 2, 3] (unat off) (unat k))))),
      op_download := (\<lambda>s h. plugged (Pair (Inr (False, [(False, IoOk, Inr [1, 2, 3])]))))\<rparr>"

lemma plugged_Inr: "plugged (Pair (Inr a)) d = (Inr b, d') \<Longrightarrow> b = a"
  by (simp add: plugged_def split: if_splits)

lemma demo_reader_laws: "object_laws demo_reader {5} ''a.txt'' demo_bytes" "answers_fit demo_reader"
proof -
  have "unat off + min (unat k) (3 - unat off) < 2 ^ 64" for off :: u64 and k :: u32
    using unat_u64_less [of off] by simp
  then show "answers_fit demo_reader"
    by (auto simp: answers_fit_def demo_reader_def bytes_simps numeral_3_eq_3 dest!: plugged_Inr)
  have "[1, 2, 3] ! k = demo_bytes k" if "k < 3" for k
    using that by (auto simp: demo_bytes_def less_Suc_eq numeral_3_eq_3)
  then show "object_laws demo_reader {5} ''a.txt'' demo_bytes"
    by (auto simp: object_laws_def lists_as_def answers_object_def chunk_of_def demo_reader_def demo_object_def
        bytes_simps dest!: plugged_Inr)
qed

lemma demo_reader_sel [simp]:
  "op_partial demo_reader = (\<lambda>_. True)" "env_unplugged demo_reader = (\<lambda>_. False)" "env_disk demo_reader = Pair IoOk"
  by (simp_all add: demo_reader_def demo_ops_def)

theorem ranged_read_replies_witness:
  "\<exists>r w'. fs_read demo_reader (\<lambda>_. []) 3 7 1 10 demo_mount = Some (r, w')"
  using ranged_read_replies [OF demo_reader_laws(2), of demo_mount] by fastforce

text \<open>The demo file's storage and handle resolve at once.\<close>

lemma demo_on_file:
  assumes "fs_inodes w = demo_tree" and "fs_storages w = [demo_storage]"
  shows "on_file ops 3 f w = call (f demo_storage 5) w"
proof -
  have "file_handle ops 3 w = (Inr 5, w)"
    using assms by (simp add: file_handle_def ensure_fresh_def demo_tree_entries demo_file_def lift_opt_apply)
  moreover have "storage_index 3 w = (Inr 0, w)"
    using assms by (simp add: storage_index_def find_storage_index_def demo_walk position_def demo_storage_def lift_opt_apply)
  ultimately show ?thesis using assms by (simp add: on_file_def on_storage_def)
qed

lemma demo_transfer:
  assumes "fs_inodes w = demo_tree" "fs_storages w = [demo_storage]" "fs_env w = demo_phone"
  shows "transfer demo_reader 3 off k w = (Inr (pread [1, 2, 3] (unat off) (unat k)), w)"
proof -
  have "on_file demo_reader 3 (\<lambda>s h. op_read_range demo_reader s h off k) w = (Inr (pread [1, 2, 3] (unat off) (unat k)), w)"
    using assms by (simp add: demo_on_file call_def demo_reader_def plugged_def demo_phone_def)
  then show ?thesis
    unfolding transfer_def by (intro with_recovery_first) (simp_all add: is_unplugged_def)
qed

lemma demo_chunk: "unat (ucast (min 2 CHUNK) :: u32) = 2" "pread [1, 2, 3] (Suc 0) 2 = [2, 3]" "\<not> 3 \<le> (1 :: u64)"
  by (simp_all add: CHUNK_def pread_def word_le_nat_alt min_def)

lemma demo_stored:
  fixes cache :: shared_cache
  defines "cache \<equiv> \<lparr>sh_cache = \<lparr>sc_file = sf_put (sf_set_len 3 sf_new) (Suc 0) [2, 3],
     sc_ranges = insert_range \<lparr>rs_ranges = []\<rparr> (Range 1 3), sc_total = 3\<rparr>, sh_fill = FIdle, sh_stop = False\<rparr>"
  shows "sh_missing_ranges cache 1 10 = []" and "sh_read_at IoOk cache 1 10 = Inr [2, 3]"
  by (simp_all add: cache_def sh_missing_ranges_def sc_missing_ranges_def missing_def insert_range_def range_is_empty_def
      insertion_point_def insert_at_def saturating_add_def word_le_nat_alt min_def
      sh_read_at_def sc_read_at_def sf_put_def sf_set_len_def sf_new_def upt_conv_Cons)

lemmas read_eval = fs_read_def wb_is_open_def wb_new_def demo_tree_entries
  read_cache_for_def ask_def sh_new_def sc_new_def Let_def read_strategy_for_def read_strategy_def ranged_read_def
  demo_file_def is_dir_def sh_missing_ranges_def sc_missing_ranges_def missing_def rs_new_def saturating_add_def

lemma demo_read_at:
  assumes "fs_inodes w = demo_tree" "fs_storages w = [demo_storage]" "fs_env w = demo_phone" "fs_write_buf w = wb_new"
    "fs_read_cache w = Map.empty"
  shows "\<exists>w'. fs_read demo_reader (\<lambda>_. []) 3 fh 1 10 w = Some (Reply [2, 3], w')"
  apply (simp add: read_eval assms)
  apply (subst fetch_turn, simp)
  apply (simp add: demo_transfer assms ask_def upd_cache_def sh_write_at_def sc_write_at_def
      saturating_sub_def checked_add_def fetch_end demo_chunk demo_stored)
  done

lemma demo_read: "\<exists>w'. fs_read demo_reader (\<lambda>_. []) 3 7 1 10 demo_mount = Some (Reply [2, 3], w')"
  by (rule demo_read_at) (simp_all add: demo_mount_def demo_fs_def fs_new_def)

theorem read_returns_object_bytes_witness:
  "[2, 3] = obj_slice demo_bytes 3 1 10"
proof -
  obtain w' where run: "fs_read demo_reader (\<lambda>_. []) 3 7 1 10 demo_mount = Some (Reply [2, 3], w')"
    using demo_read by blast
  have e: "entries (fs_inodes demo_mount) 3 = Some demo_file" by (simp add: demo_mount_def demo_tree_entries)
  have "[2, 3] = obj_slice demo_bytes (ie_size demo_file) 1 (ucast (10 :: u32)) \<and>
      cached_right demo_bytes (ie_size demo_file) 3 w'"
    by (rule read_returns_object_bytes [OF demo_reader_laws _ e _ _ _ run])
      (simp_all add: views_ok_def known_as_def demo_mount_def demo_fs_def fs_new_def demo_tree_entries demo_file_def
        cached_right_def wb_is_open_def wb_new_def)
  then show ?thesis by (simp add: demo_file_def)
qed

end
