(* ===== verification/Flush_Facts.thy ===== *)
theory Flush_Facts
  imports Session_Facts Fs_Changes
begin

text \<open>
  Uploading a closed buffer: what a successful \<open>close\<close> has sent to the device and that the
  device still holds it when the close returns, whatever was retried and reconnected on the
  way, and that the upload-delete-rename sequence never leaves the device without a full copy
  of the file.
\<close>

section \<open>What is assumed of an upload\<close>

text \<open>
  An upload that succeeds has consumed its stream without an error from it, and reading the
  spool file makes progress until its end (a read of zero bytes means the end of the file).
\<close>

definition uploads_whole :: "('dev, 's, 'd) mtp_ops \<Rightarrow> bool" where
  "uploads_whole ops \<longleftrightarrow>
     (\<forall>s p n sz stream d h d'. op_upload ops s p n sz stream d = (Inr h, d') \<longrightarrow> (\<exists>bs. stream_bytes stream = Inr bs)) \<and>
     (\<forall>d j. fst (env_reads ops d) j \<noteq> ReadUpTo 0)"

lemma file_stream_whole:
  assumes "\<And>j. reads j \<noteq> ReadUpTo 0"
  shows "stream_bytes (file_stream reads i rest) = Inr bs \<Longrightarrow> bs = rest"
proof (induction "length rest" arbitrary: i rest bs rule: less_induct)
  case less
  show ?case
  proof (cases "reads i")
    case (ReadUpTo k)
    define n where "n = min k (min UPLOAD_CHUNK (length rest))"
    have fs: "file_stream reads i rest =
        (if n = 0 then [] else Inr (take n rest) # file_stream reads (Suc i) (drop n rest))"
      using ReadUpTo by (simp add: file_stream.simps [of reads i rest] n_def [symmetric] Let_def)
    show ?thesis
    proof (cases "n = 0")
      case True
      have "k \<noteq> 0" using assms [of i] ReadUpTo by auto
      then have "rest = []" using True by (cases rest) (auto simp: n_def UPLOAD_CHUNK_def)
      then show ?thesis using less.prems fs True by simp
    next
      case False
      then obtain cs where "stream_bytes (file_stream reads (Suc i) (drop n rest)) = Inr cs" "bs = take n rest @ cs"
        using less.prems fs by (auto split: sum.splits)
      then show ?thesis using less.hyps [of "drop n rest" "Suc i" cs] False by (auto simp: n_def)
    qed
  qed (use less.prems in \<open>simp add: file_stream.simps [of reads i rest]\<close>)
qed

text \<open>Some upload of exactly these bytes succeeded with this handle.\<close>

definition uploaded :: "('dev, 's, 'd) mtp_ops \<Rightarrow> object_handle \<Rightarrow> byte list \<Rightarrow> bool" where
  "uploaded ops h xs \<longleftrightarrow>
     (\<exists>s p n stream d d'. op_upload ops s p n (of_nat (length xs)) stream d = (Inr h, d') \<and> stream_bytes stream = Inr xs)"

lemma upload_file_InrE:
  assumes "upload_file ops idx p n sz content w = (Inr h, w')"
  obtains s reads d where "op_upload ops s p n sz (file_stream reads 0 content) d = (Inr h, fs_env w')"
    "w' = w\<lparr>fs_env := fs_env w'\<rparr>" "\<exists>d. reads = fst (env_reads ops d)"
proof -
  obtain reads d where r: "env_reads ops (fs_env w) = (reads, d)" by fastforce
  then have "op_upload ops (fs_storages w ! idx) p n sz (file_stream reads 0 content) d = (Inr h, fs_env w') \<and>
      w' = w\<lparr>fs_env := fs_env w'\<rparr>"
    using assms by (auto simp: upload_file_def ask_def on_storage_def call_def split: prod.splits)
  moreover have "reads = fst (env_reads ops (fs_env w))" by (simp add: r)
  ultimately show ?thesis using that by blast
qed

lemma upload_file_uploaded:
  assumes "uploads_whole ops" and "upload_file ops idx p n (of_nat (length xs)) xs w = (Inr h, w')"
  shows "uploaded ops h xs"
proof -
  obtain s reads d where u: "op_upload ops s p n (of_nat (length xs)) (file_stream reads 0 xs) d = (Inr h, fs_env w')"
      "\<exists>d. reads = fst (env_reads ops d)"
    using assms(2) by (rule upload_file_InrE) blast
  obtain bs where bs: "stream_bytes (file_stream reads 0 xs) = Inr bs"
    using assms(1) u(1) unfolding uploads_whole_def by blast
  have "bs = xs"
    using file_stream_whole [OF _ bs] assms(1) u(2) unfolding uploads_whole_def by blast
  then show ?thesis using u(1) bs unfolding uploaded_def by blast
qed

text \<open>The entry that a flush leaves.\<close>

definition points_at :: "inode \<Rightarrow> object_handle \<Rightarrow> u64 \<Rightarrow> ('dev, 's, 'd) mtp_fs \<Rightarrow> bool" where
  "points_at i h sz w \<longleftrightarrow>
     (\<forall>e. entries (fs_inodes w) i = Some e \<longrightarrow> ie_kind e = File h \<and> ie_size e = sz)"

lemma record_upload_points: "points_at i h sz (record_upload ops i h n sz w)"
  by (cases "env_now ops (fs_env w)") (auto simp: points_at_def record_upload_def ask_def upd_inodes_def)

lemma flush_safe_uploaded:
  assumes "uploads_whole ops"
    and "flush_safe ops i old idx p entry (of_nat (length xs)) xs w = (Inr x, w')"
  shows "\<exists>h. uploaded ops h xs \<and> points_at i h (of_nat (length xs)) w'"
  using assms(2) upload_file_uploaded [OF assms(1)] record_upload_points
  by (fastforce simp: flush_safe_def Let_def split: prod.splits sum.splits)

lemma flush_unsafe_uploaded:
  assumes "uploads_whole ops"
    and "flush_unsafe ops i old idx p entry (of_nat (length xs)) xs w = (Inr x, w')"
  shows "\<exists>h. uploaded ops h xs \<and> points_at i h (of_nat (length xs)) w'"
  using assms(2) upload_file_uploaded [OF assms(1)] record_upload_points
  by (fastforce simp: flush_unsafe_def split: prod.splits sum.splits)

lemma flush_attempt_uploaded:
  assumes "uploads_whole ops" and "flush_attempt ops i entry xs k w = (Inr x, w')"
  shows "\<exists>h. uploaded ops h xs \<and> points_at i h (of_nat (length xs)) w'"
  using assms(2) flush_safe_uploaded [OF assms(1)] flush_unsafe_uploaded [OF assms(1)]
  unfolding flush_attempt_def flush_once_def Let_def
  by (elim bind_op_InrE) (auto split: if_splits)

section \<open>A close that succeeds\<close>

lemma any_frame: "session_frame (\<lambda>_ _. True) ops"
  by unfold_locales (simp_all add: within_def)

lemma recovered_any:
  assumes "with_recovery ops attempt w = (Inr v, w')"
  shows "\<exists>k u. attempt k u = (Inr v, w')"
  using session_frame.recovered [OF any_frame _ assms] by simp

lemma wb_close_obs:
  "fst (wb_close fh wb) = wb_buffers wb fh" "\<not> wb_is_open (snd (wb_close fh wb)) fh"
  by (simp_all add: wb_close_def wb_flush_def wb_is_open_def)

lemma flush_to_mtp_uploaded:
  assumes "uploads_whole ops" and "wb_buffers (fs_write_buf w) fh = Some b" "fb_dirty b"
    and "flush_to_mtp ops fh w = (Inr x, w')"
  shows "\<exists>h. uploaded ops h (sf_content (fb_file b)) \<and>
    points_at (fb_inode b) h (of_nat (length (sf_content (fb_file b)))) w'"
proof -
  obtain wb where c: "wb_close fh (fs_write_buf w) = (Some b, wb)"
    using wb_close_obs(1) [of fh "fs_write_buf w"] assms(2) by (metis prod.collapse)
  obtain entry u where u: "with_recovery ops (flush_attempt ops (fb_inode b) entry (sf_content (into_file b))) u = (Inr x, w')"
    using assms(3,4) by (auto simp: flush_to_mtp_def c Let_def split: prod.splits sum.splits option.splits)
  obtain k v where "flush_attempt ops (fb_inode b) entry (sf_content (into_file b)) k v = (Inr x, w')"
    using recovered_any [OF u] by blast
  from flush_attempt_uploaded [OF assms(1) this] show ?thesis by (simp add: into_file_def)
qed

lemma drop_read_cache_obs [simp]:
  "fs_inodes (drop_read_cache_if_unused i w) = fs_inodes w"
  "fs_write_buf (drop_read_cache_if_unused i w) = fs_write_buf w"
  by (simp_all add: drop_read_cache_if_unused_def)

lemma release_uploads:
  assumes "uploads_whole ops" and "wb_exact (fs_write_buf w)"
    and "wb_buffers (fs_write_buf w) fh = Some b" and "fb_dirty b"
    and "wb_bytes (fs_write_buf w) fh = Some xs"
    and "fs_release ops fh w = (r, w')"
  shows "r = ReplyError EIO \<or>
    r = Reply () \<and> (\<exists>h. uploaded ops h xs \<and> points_at (fb_inode b) h (of_nat (length xs)) w')"
proof -
  have xs: "xs = sf_content (fb_file b)"
    using assms(3,5) all_buffersD [OF assms(2,3)] by (auto simp: wb_bytes_def fb_bytes_def exact_len_def)
  obtain q v where f: "flush_to_mtp ops fh w = (q, v)" by fastforce
  have "wb_is_open (fs_write_buf w) fh" using assms(3) by (simp add: wb_is_open_def)
  then have r: "r = (case q of Inr _ \<Rightarrow> Reply () | Inl e \<Rightarrow> ReplyError EIO)" and i: "fs_inodes w' = fs_inodes v"
    using assms(6) by (auto simp: fs_release_def f Let_def split: sum.splits option.splits)
  show ?thesis
  proof (cases q)
    case (Inr x)
    then show ?thesis
      using flush_to_mtp_uploaded [OF assms(1,3,4) f [unfolded Inr]] r i by (simp add: xs points_at_def)
  qed (use r in simp)
qed

text \<open>The small device, its file open for writing with two bytes in the buffer.\<close>

definition demo_open :: "(unit, unit, demo_env) mtp_fs" where
  "demo_open = demo_mount\<lparr>fs_write_buf :=
     snd (wb_write IoOk 7 0 [7, 8] (snd (wb_open IoOk 7 3 0 wb_new)) :: (string mount_error + u32) \<times> write_buffer),
     fs_fh_to_inode := [7 \<mapsto> 3]\<rparr>"

lemma demo_uploads: "uploads_whole demo_ops"
  by (auto simp: uploads_whole_def demo_ops_def demo_upload_def plugged_def split: sum.splits if_splits)

lemma demo_open_buffer:
  "\<exists>b. wb_buffers (fs_write_buf demo_open) 7 = Some b \<and> fb_dirty b \<and> fb_inode b = 3 \<and> fb_bytes sf_content b = [7, 8]"
  "wb_exact (fs_write_buf demo_open)"
  by (simp_all add: demo_open_def demo_buffer_defs fb_bytes_def sf_content_def sf_put_def sf_new_def upt_conv_Cons
      all_buffers_def exact_len_def sf_wf_def)

section \<open>The safe sequence\<close>

text \<open>
  \<open>stored d h xs\<close>: the device holds the bytes \<open>xs\<close> under the handle \<open>h\<close>. An upload adds an
  object under an unused handle, a delete may only touch its object, and nothing else the
  flush calls loses an object.
\<close>

definition upload_adds :: "('dev, 's, 'd) mtp_ops \<Rightarrow> ('d \<Rightarrow> object_handle \<Rightarrow> byte list \<Rightarrow> bool) \<Rightarrow> bool" where
  "upload_adds ops stored \<longleftrightarrow>
     (\<forall>s p n sz stream d. case op_upload ops s p n sz stream d of (r, d') \<Rightarrow>
        (\<forall>g xs. stored d g xs \<longrightarrow> stored d' g xs \<and> r \<noteq> Inr g) \<and>
        (\<forall>h xs. r = Inr h \<longrightarrow> stream_bytes stream = Inr xs \<longrightarrow> stored d' h xs))"

definition delete_is_local :: "('dev, 's, 'd) mtp_ops \<Rightarrow> ('d \<Rightarrow> object_handle \<Rightarrow> byte list \<Rightarrow> bool) \<Rightarrow> bool" where
  "delete_is_local ops stored \<longleftrightarrow>
     (\<forall>s h d g xs. stored d g xs \<longrightarrow> g \<noteq> h \<longrightarrow> stored (snd (op_delete ops s h d)) g xs)"

definition others_keep :: "('dev, 's, 'd) mtp_ops \<Rightarrow> ('d \<Rightarrow> object_handle \<Rightarrow> byte list \<Rightarrow> bool) \<Rightarrow> bool" where
  "others_keep ops stored \<longleftrightarrow>
     (\<forall>d g xs. stored d g xs \<longrightarrow> stored (snd (env_now ops d)) g xs \<and> stored (snd (env_reads ops d)) g xs \<and>
        (\<forall>s h n. stored (snd (op_rename ops s h n d)) g xs))"

definition keeps_objects :: "('dev, 's, 'd) mtp_ops \<Rightarrow> ('d \<Rightarrow> object_handle \<Rightarrow> byte list \<Rightarrow> bool) \<Rightarrow> bool" where
  "keeps_objects ops stored \<longleftrightarrow> upload_adds ops stored \<and> delete_is_local ops stored \<and> others_keep ops stored"

lemma keeps_upload:
  "keeps_objects ops stored \<Longrightarrow> op_upload ops s p n sz stream d = (r, d') \<Longrightarrow> stored d g xs \<Longrightarrow>
   stored d' g xs \<and> r \<noteq> Inr g"
  by (auto simp: keeps_objects_def upload_adds_def split_def) (metis fst_conv snd_conv)+

lemma keeps_new:
  "keeps_objects ops stored \<Longrightarrow> op_upload ops s p n sz stream d = (Inr h, d') \<Longrightarrow>
   stream_bytes stream = Inr xs \<Longrightarrow> stored d' h xs"
  by (auto simp: keeps_objects_def upload_adds_def split_def) (metis fst_conv snd_conv)

lemma keeps_delete:
  "keeps_objects ops stored \<Longrightarrow> op_delete ops s h d = (q, d') \<Longrightarrow> stored d g xs \<Longrightarrow> g \<noteq> h \<Longrightarrow> stored d' g xs"
  unfolding keeps_objects_def delete_is_local_def by (metis snd_conv)

lemma keeps_others:
  assumes "keeps_objects ops stored" and "stored d g xs"
  shows "op_rename ops s h n d = (q, d') \<Longrightarrow> stored d' g xs" and "stored (snd (env_now ops d)) g xs"
    and "stored (snd (env_reads ops d)) g xs"
  using assms unfolding keeps_objects_def others_keep_def by (metis snd_conv)+

lemma record_upload_env:
  assumes "keeps_objects ops stored" and "stored (fs_env w) h xs"
  shows "stored (fs_env (record_upload ops i g n sz w)) h xs"
  using keeps_others(2) [OF assms] assms(2)
  by (cases "env_now ops (fs_env w)") (simp add: record_upload_def ask_def upd_inodes_def)

lemma reads_whole:
  assumes "uploads_whole ops" and "env_reads ops d = (reads, d')" and "op_upload ops s p n sz (file_stream reads 0 ys) d' = (Inr h, d'')"
  shows "stream_bytes (file_stream reads 0 ys) = Inr ys"
proof -
  obtain bs where bs: "stream_bytes (file_stream reads 0 ys) = Inr bs"
    using assms(1,3) unfolding uploads_whole_def by blast
  moreover have "reads j \<noteq> ReadUpTo 0" for j
    using assms(1,2) unfolding uploads_whole_def by (metis fst_conv)
  ultimately show ?thesis using file_stream_whole by blast
qed

lemma upload_file_stored:
  assumes "keeps_objects ops stored" and "uploads_whole ops"
    and "upload_file ops idx p n (of_nat (length ys)) ys w = (Inr h, v)"
  shows "stored (fs_env v) h ys"
proof -
  obtain reads d where rd: "env_reads ops (fs_env w) = (reads, d)" by fastforce
  then obtain s where up: "op_upload ops s p n (of_nat (length ys)) (file_stream reads 0 ys) d = (Inr h, fs_env v)"
    using assms(3) by (auto simp: upload_file_def ask_def on_storage_def call_def split: prod.splits)
  show ?thesis by (rule keeps_new [OF assms(1) up reads_whole [OF assms(2) rd up]])
qed

lemma on_storage_inodes: "on_storage idx f w = (q, v) \<Longrightarrow> fs_inodes v = fs_inodes w"
  by (auto simp: on_storage_def call_def split: prod.splits)

text \<open>Once uploaded under a handle of its own, the new object stays, whatever step fails.\<close>

lemma flush_safe_keeps_new:
  assumes "keeps_objects ops stored" and "flush_safe ops i old idx p entry (of_nat (length ys)) ys w = (r, w')"
    and "upload_file ops idx p (temp_upload_name (ie_name entry)) (of_nat (length ys)) ys w = (Inr h, v)"
    and "stored (fs_env v) h ys" and "h \<noteq> old"
  shows "\<exists>n u. r = Inr () \<and> w' = record_upload ops i h n (of_nat (length ys)) u \<and> stored (fs_env u) h ys \<and>
    fs_inodes u = fs_inodes v"
proof -
  obtain q2 v2 where del: "on_storage idx (\<lambda>s. op_delete ops s old) v = (q2, v2)" by fastforce
  then have new2: "stored (fs_env v2) h ys"
    using keeps_delete [OF assms(1) _ assms(4,5)] by (auto simp: on_storage_def call_def split: prod.splits)
  obtain q3 v3 where ren: "on_storage idx (\<lambda>s. op_rename ops s h (ie_name entry)) v2 = (q3, v3)" by fastforce
  then have new3: "stored (fs_env v3) h ys"
    using keeps_others(1) [OF assms(1) new2] by (auto simp: on_storage_def call_def split: prod.splits)
  have "fs_inodes v2 = fs_inodes v" "fs_inodes v3 = fs_inodes v"
    using on_storage_inodes [OF del] on_storage_inodes [OF ren] by simp_all
  then show ?thesis
    using assms(2,3) del ren new2 new3 by (cases q2; cases q3) (simp_all add: flush_safe_def Let_def, blast+)
qed

text \<open>
  C5. The safe sequence never leaves the device without a full copy: if it fails, the old
  object is still there untouched; if it reports success, whichever of its later steps failed,
  the new bytes are on the device under the handle the entry now holds.
\<close>

theorem safe_flush_keeps_a_copy:
  assumes "keeps_objects ops stored" and "uploads_whole ops" and "stored (fs_env w) old xs"
    and "flush_safe ops i old idx p entry (of_nat (length ys)) ys w = (r, w')"
  shows "case r of
      Inl _ \<Rightarrow> stored (fs_env w') old xs
    | Inr _ \<Rightarrow> \<exists>h. stored (fs_env w') h ys \<and> points_at i h (of_nat (length ys)) w'"
proof -
  note laws = assms(1)
  let ?temp = "temp_upload_name (ie_name entry)"
  obtain q v where u: "upload_file ops idx p ?temp (of_nat (length ys)) ys w = (q, v)" by fastforce
  obtain reads d0 where rd: "env_reads ops (fs_env w) = (reads, d0)" by fastforce
  have old0: "stored d0 old xs" using keeps_others(3) [OF laws assms(3)] rd by simp
  obtain s where up: "op_upload ops s p ?temp (of_nat (length ys)) (file_stream reads 0 ys) d0 = (q, fs_env v)"
    using u rd by (auto simp: upload_file_def ask_def on_storage_def call_def split: prod.splits)
  have old1: "stored (fs_env v) old xs" and fresh: "q \<noteq> Inr old"
    using keeps_upload [OF laws up old0] by simp_all
  show ?thesis
  proof (cases q)
    case (Inl e)
    then show ?thesis using assms(4) u old1 by (auto simp: flush_safe_def)
  next
    case (Inr h)
    have "\<exists>n u. r = Inr () \<and> w' = record_upload ops i h n (of_nat (length ys)) u \<and> stored (fs_env u) h ys \<and>
        fs_inodes u = fs_inodes v"
      using flush_safe_keeps_new [OF laws assms(4) u [unfolded Inr]] upload_file_stored [OF laws assms(2) u [unfolded Inr]]
        fresh Inr by blast
    then show ?thesis using record_upload_env [OF laws] record_upload_points by fastforce
  qed
qed

definition demo_stored_at :: "demo_env \<Rightarrow> object_handle \<Rightarrow> byte list \<Rightarrow> bool" where
  "demo_stored_at d h xs \<longleftrightarrow> h < dd_next d \<and> (\<exists>n. map_of (dd_objects d) h = Some (n, xs))"

lemma next_handle:
  assumes "(x :: object_handle) \<noteq> - 1"
  shows "y < x + 1 \<longleftrightarrow> y < x \<or> y = x"
proof -
  have "unat (x + 1) \<noteq> 0" using assms max_word_wrap [of x] by (auto simp: unat_eq_zero)
  moreover have "unat x < 2 ^ 64" using unsigned_less [of x] by simp
  ultimately have "unat (x + 1) = unat x + 1"
    by (cases "unat x + 1 = 2 ^ 64") (simp_all add: unat_word_ariths)
  then show ?thesis by (auto simp: word_less_nat_alt word_unat_eq_iff less_Suc_eq)
qed

lemma map_of_others: "g \<noteq> h \<Longrightarrow> map_of (filter (\<lambda>ob. fst ob \<noteq> h) obs) g = map_of obs g"
  by (induction obs) auto

lemma map_of_relabel:
  "map_of (map (\<lambda>(k, m, bs). (k, if k = h then n else m, bs)) obs) g =
   map_option (\<lambda>(m, bs). (if g = h then n else m, bs)) (map_of obs g)"
  by (induction obs) auto

lemma demo_keeps: "keeps_objects demo_ops demo_stored_at"
proof -
  have "upload_adds demo_ops demo_stored_at"
    by (auto simp: upload_adds_def demo_ops_def demo_upload_def plugged_def demo_store_def demo_stored_at_def
        next_handle split: sum.splits prod.splits if_splits)
  moreover have "delete_is_local demo_ops demo_stored_at"
    by (auto simp: delete_is_local_def demo_ops_def on_object_def plugged_def demo_drop_def demo_stored_at_def
        map_of_others split: option.splits)
  moreover have "others_keep demo_ops demo_stored_at"
    by (auto simp: others_keep_def demo_ops_def on_object_def plugged_def demo_relabel_def demo_stored_at_def
        map_of_relabel split: option.splits)
  ultimately show ?thesis by (simp add: keeps_objects_def)
qed

theorem safe_flush_keeps_a_copy_witness:
  "case flush_safe demo_ops 3 5 0 None demo_file (of_nat (length [7, 8 :: byte])) [7, 8] demo_mount of
     (Inl _, w') \<Rightarrow> demo_stored_at (fs_env w') 5 [1, 2, 3]
   | (Inr _, w') \<Rightarrow> \<exists>h. demo_stored_at (fs_env w') h [7, 8]"
proof -
  have old: "demo_stored_at (fs_env demo_mount) 5 [1, 2, 3]"
    by (simp add: demo_stored_at_def demo_mount_def demo_fs_def fs_new_def demo_phone_def)
  obtain r w' where run: "flush_safe demo_ops 3 5 0 None demo_file (of_nat (length [7, 8 :: byte])) [7, 8] demo_mount = (r, w')"
    by fastforce
  show ?thesis
    using safe_flush_keeps_a_copy [OF demo_keeps demo_uploads old run] unfolding run by (auto split: sum.splits)
qed

section \<open>Handles of the session\<close>

text \<open>
  \<open>used d h\<close>: the device has given out the handle \<open>h\<close> in this session. A listing gives out the
  handles it reports, an upload one that was not given out before, and no call but reopening
  the device, of which nothing is asked, takes one back.
\<close>

definition keeps_used :: "('d \<Rightarrow> object_handle \<Rightarrow> bool) \<Rightarrow> 'd \<Rightarrow> 'd \<Rightarrow> bool" where
  "keeps_used used d d' \<longleftrightarrow> (\<forall>h. used d h \<longrightarrow> used d' h)"

definition handles_are_new :: "('dev, 's, 'd) mtp_ops \<Rightarrow> ('d \<Rightarrow> object_handle \<Rightarrow> bool) \<Rightarrow> bool" where
  "handles_are_new ops used \<longleftrightarrow>
     (\<forall>d. (\<forall>s p. case op_list ops s p d of (r, d') \<Rightarrow>
            keeps_used used d d' \<and> (\<forall>obs. r = Inr obs \<longrightarrow> (\<forall>ob \<in> set obs. used d' (ob_handle ob)))) \<and>
          (\<forall>s p n sz stream. case op_upload ops s p n sz stream d of (r, d') \<Rightarrow>
            keeps_used used d d' \<and> (\<forall>h. r = Inr h \<longrightarrow> \<not> used d h \<and> used d' h)) \<and>
          (\<forall>s h. keeps_used used d (snd (op_delete ops s h d))) \<and>
          keeps_used used d (snd (env_reads ops d)) \<and> keeps_used used d (snd (env_disk ops d)) \<and>
          keeps_used used d (snd (env_now ops d)))"

lemma handles_are_newD:
  assumes "handles_are_new ops used"
  shows "op_list ops s p d = (r, d') \<Longrightarrow> keeps_used used d d'"
    and "op_list ops s p d = (Inr obs, d') \<Longrightarrow> ob \<in> set obs \<Longrightarrow> used d' (ob_handle ob)"
    and "op_upload ops s p n sz stream d = (q, d') \<Longrightarrow> keeps_used used d d'"
    and "op_upload ops s p n sz stream d = (Inr h, d') \<Longrightarrow> \<not> used d h"
    and "op_delete ops s g d = (x, d') \<Longrightarrow> keeps_used used d d'"
    and "env_reads ops d = (y, d') \<Longrightarrow> keeps_used used d d'"
    and "env_disk ops d = (z, d') \<Longrightarrow> keeps_used used d d'"
    and "op_upload ops s p n sz stream d = (Inr h, d') \<Longrightarrow> used d' h"
    and "keeps_used used d (snd (env_now ops d))"
proof -
  note d = spec [OF assms [unfolded handles_are_new_def], of d]
  note l = conjunct1 [OF d, THEN spec, of s, THEN spec, of p]
  note u = conjunct1 [OF conjunct2 [OF d], THEN spec, of s, THEN spec, of p, THEN spec, of n, THEN spec, of sz, THEN spec, of stream]
  note others = conjunct2 [OF conjunct2 [OF d]]
  note x = conjunct1 [OF others, THEN spec, of s, THEN spec, of g]
  show "op_list ops s p d = (r, d') \<Longrightarrow> keeps_used used d d'"
    and "op_list ops s p d = (Inr obs, d') \<Longrightarrow> ob \<in> set obs \<Longrightarrow> used d' (ob_handle ob)" using l by simp_all
  show "op_upload ops s p n sz stream d = (q, d') \<Longrightarrow> keeps_used used d d'"
    and "op_upload ops s p n sz stream d = (Inr h, d') \<Longrightarrow> \<not> used d h"
    and "op_upload ops s p n sz stream d = (Inr h, d') \<Longrightarrow> used d' h" using u by simp_all
  show "op_delete ops s g d = (x, d') \<Longrightarrow> keeps_used used d d'" using x by simp
  show "env_reads ops d = (y, d') \<Longrightarrow> keeps_used used d d'" and "env_disk ops d = (z, d') \<Longrightarrow> keeps_used used d d'"
    and "keeps_used used d (snd (env_now ops d))"
    using conjunct2 [OF others] by simp_all
qed

text \<open>
  What the mount knows of a file's handle: if it is of the current generation the session gave
  it out, and none of the next \<open>m\<close> generations is the one it was recorded in.
\<close>

definition handle_known :: "('d \<Rightarrow> object_handle \<Rightarrow> bool) \<Rightarrow> inode \<Rightarrow> nat \<Rightarrow> ('dev, 's, 'd) mtp_fs \<Rightarrow> bool" where
  "handle_known used i m w \<longleftrightarrow>
     (\<forall>e h. entries (fs_inodes w) i = Some e \<longrightarrow> ie_kind e = File h \<longrightarrow>
        (ie_generation e = generation (fs_inodes w) \<longrightarrow> used (fs_env w) h) \<and>
        (\<forall>k. 0 < k \<and> k \<le> m \<longrightarrow> ie_generation e \<noteq> generation (fs_inodes w) + of_nat k))"

lemma handle_known_less: "handle_known used i (Suc m) w \<Longrightarrow> handle_known used i m w"
  by (simp add: handle_known_def)

text \<open>
  An entry recorded in this session is known: a listing records each file it reports with the
  handle it reports, a creation the handle its upload got.
\<close>

lemma recorded_known:
  assumes "\<And>e h. entries (fs_inodes w) i = Some e \<Longrightarrow> ie_kind e = File h \<Longrightarrow>
      ie_generation e = generation (fs_inodes w) \<and> used (fs_env w) h"
    and "m < 2 ^ 64"
  shows "handle_known used i m w"
proof -
  have "of_nat k \<noteq> (0 :: u64)" if "0 < k" "k \<le> m" for k :: nat
    using that assms(2) by (auto simp: word_of_nat_eq_0_iff dest: dvd_imp_le)
  then show ?thesis using assms(1) by (auto simp: handle_known_def)
qed

lemma listed_known:
  assumes laws: "handles_are_new ops used" and run: "on_storage idx (\<lambda>s. op_list ops s q) w = (Inr obs, v)"
    and wf: "tab_wf (fs_inodes w)" "room (length obs) (fs_inodes w)" "entries (fs_inodes w) p \<noteq> None"
      "\<not> child_of (fs_inodes w) p p"
    and i: "lookup (sync_children p (map child_of_object obs) (fs_inodes w)) p n = Some i" and m: "m < 2 ^ 64"
  shows "handle_known used i m (upd_inodes (sync_children p (map child_of_object obs)) v)"
proof -
  let ?cs = "map child_of_object obs"
  have v: "fs_inodes v = fs_inodes w" by (rule on_storage_inodes [OF run])
  note f = sync_children_facts [OF wf(1) _ wf(3,4), of ?cs]
  have rm: "room (length ?cs) (fs_inodes w)" using wf(2) by simp
  have "n \<in> ci_name ` set ?cs" using f(2) [OF rm, of n] i by auto
  then have "last_named n ?cs \<noteq> None" unfolding last_named_def find_None_iff by auto
  then obtain c where c: "last_named n ?cs = Some c" by blast
  then have "c \<in> set ?cs" by (auto simp: last_named_def find_Some_iff rev_nth)
  then obtain ob where ob: "ob \<in> set obs" "c = child_of_object ob" by auto
  obtain e where e: "entries (sync_children p ?cs (fs_inodes w)) i = Some e" "reported c (generation (fs_inodes w)) e"
    using f(3) [OF rm c] i by auto
  have "op_list ops (fs_storages w ! idx) q (fs_env w) = (Inr obs, fs_env v)"
    using run by (auto simp: on_storage_def call_def split: prod.splits)
  from handles_are_newD(2) [OF laws this ob(1)] have "used (fs_env v) (ob_handle ob)" .
  then show ?thesis
    using e f(7) [OF rm] ob(2) m
    by (intro recorded_known) (auto simp: upd_inodes_def v reported_def child_of_object_def split: if_splits)
qed

lemma created_known:
  assumes laws: "handles_are_new ops used" and "used (fs_env w) h" and "add_new ops p h n False w = (i, w')" and "m < 2 ^ 64"
  shows "handle_known used i m w'"
proof -
  have "used (snd (env_now ops (fs_env w))) h"
    using handles_are_newD(9) [OF laws, of "fs_env w"] assms(2) by (simp add: keeps_used_def)
  then show ?thesis
    using assms(3,4)
    by (intro recorded_known)
      (auto simp: add_new_def ask_def add_object_def alloc_inode_def insert_entry_def Let_def evict_name_def
        remove_entry_def push_child_def split: prod.splits option.splits if_splits)
qed

text \<open>A bumped generation makes the entry stale; the session it was of no longer matters.\<close>

lemma handle_known_bump:
  assumes "handle_known used i (Suc m) w" and "generation (fs_inodes v) = generation (fs_inodes w) + 1"
    and "\<And>e h. entries (fs_inodes v) i = Some e \<Longrightarrow> ie_kind e = File h \<Longrightarrow> entries (fs_inodes w) i = Some e"
  shows "handle_known used i m v"
proof -
  have "ie_generation e \<noteq> generation (fs_inodes v) + of_nat k"
    if "k \<le> m" "entries (fs_inodes v) i = Some e" "ie_kind e = File h" for k e h
    using assms(1) assms(3) [OF that(2,3)] that(1,3) unfolding handle_known_def assms(2)
    by (metis Suc_le_mono add.assoc of_nat_Suc zero_less_Suc)
  from this [of 0] this show ?thesis unfolding handle_known_def by fastforce
qed

text \<open>What every step of a flush leaves of the session, until it records the new object.\<close>

definition same_session :: "('d \<Rightarrow> object_handle \<Rightarrow> bool) \<Rightarrow> ('dev, 's, 'd) mtp_fs \<Rightarrow> ('dev, 's, 'd) mtp_fs \<Rightarrow> bool" where
  "same_session used w w' \<longleftrightarrow> keeps_used used (fs_env w) (fs_env w') \<and>
     (\<forall>i. entries (fs_inodes w) i \<noteq> None \<longrightarrow> entries (fs_inodes w') i \<noteq> None) \<and>
     (\<forall>i m. m < 2 ^ 64 \<longrightarrow> handle_known used i m w \<longrightarrow> handle_known used i m w')"

lemma same_session_env: "keeps_used used (fs_env w) d \<Longrightarrow> same_session used w (w\<lparr>fs_env := d\<rparr>)"
  by (simp add: same_session_def handle_known_def keeps_used_def)

lemma same_session_frame: "frame (same_session used)"
  by unfold_locales (auto simp: same_session_def keeps_used_def)

lemma same_session_call:
  "(\<And>d r d'. f d = (r, d') \<Longrightarrow> keeps_used used d d') \<Longrightarrow> within (same_session used) (call f)"
  by (rule withinI) (auto simp: call_def intro!: same_session_env split: prod.splits)

lemma same_session_resolved:
  assumes "used (fs_env w) h"
  shows "same_session used w (upd_inodes (set_handle j h) w)"
proof -
  have gone: "of_nat k \<noteq> (0 :: u64)" if "0 < k" "k \<le> m" "m < 2 ^ 64" for k m :: nat
    using that by (auto simp: word_of_nat_eq_0_iff dest: dvd_imp_le)
  have "handle_known used i m (upd_inodes (set_handle j h) w)" if "handle_known used i m w" "m < 2 ^ 64" for i m
    using that assms gone [of _ m]
    by (auto simp: handle_known_def set_handle_def update_entry_def upd_inodes_def split: option.splits inode_kind.splits if_splits)
  then show ?thesis
    by (auto simp: same_session_def keeps_used_def upd_inodes_def set_handle_def update_entry_def split: option.splits)
qed

lemma same_session_nodes:
  assumes laws: "handles_are_new ops used"
  shows "node_frame (same_session used) ops"
proof (intro node_frame.intro node_frame_axioms.intro same_session_frame withinI)
  fix idx node parent w r w'
  assume run: "resolve_node ops idx node parent w = (r, w')"
  note same = frame.same [OF same_session_frame, of used] and chain = frame.chain [OF same_session_frame, of used]
  obtain q v where c: "call (op_list ops (fs_storages w ! idx) parent) w = (q, v)" by fastforce
  then have l: "op_list ops (fs_storages w ! idx) parent (fs_env w) = (q, fs_env v)"
    by (auto simp: call_def split: prod.splits)
  have v: "same_session used w v"
    by (rule withinD [OF same_session_call c]) (rule handles_are_newD(1) [OF laws])
  have found: "used (fs_env v) (ob_handle ob)" if "q = Inr obs" "List.find P obs = Some ob" for obs P ob
    using handles_are_newD(2) [OF laws l [unfolded that(1)]] that(2) by (auto simp: find_Some_iff)
  have new: "same_session used w (upd_inodes (set_handle node (ob_handle ob)) v)"
    if "q = Inr obs" "List.find P obs = Some ob" for obs P ob
    by (rule chain [OF v same_session_resolved]) (rule found [OF that])
  show "same_session used w w'"
    using run c same v new
    by (auto simp: resolve_node_def split: option.splits if_splits inode_kind.splits sum.splits)
qed

section \<open>A recovery that counts its sessions\<close>

text \<open>
  \<open>J m\<close> holds as long as at most \<open>m\<close> generations are yet to come: a stale answer and a
  reconnection use one each, so six are enough for a whole operation.
\<close>

lemma session_attempts_budget:
  assumes err: "\<And>m k s e s'. attempt k s = (Inl e, s') \<Longrightarrow> J m s \<Longrightarrow> J m s'"
    and forget: "\<And>m s. J (Suc m) s \<Longrightarrow> J m (invalidate_handles s)"
    and less: "\<And>m s. J (Suc m) s \<Longrightarrow> J m s"
  shows "session_attempts ops attempt n k w = (q, k', w') \<Longrightarrow> J (n + m) w \<Longrightarrow>
    (case q of Done v \<Rightarrow> \<exists>j u. J m u \<and> attempt j u = (Inr v, w') | Failed _ \<Rightarrow> True | LinkLost \<Rightarrow> J m w')"
proof (induction n arbitrary: k w)
  case 0
  then show ?case
    using err [of k w] by (cases "attempt k w") (auto simp: session_attempts_0 intro!: exI [of _ k] exI [of _ w] split: if_splits sum.splits)
next
  case (Suc n)
  have m: "J m v" if "J (a + m) v" for a v using that less by (induction a) auto
  obtain r v where a: "attempt k w = (r, v)" by fastforce
  show ?case
  proof (cases r)
    case (Inl e)
    then have v: "J (Suc n + m) v" using err a Suc.prems(2) by blast
    then show ?thesis
      using Suc a Inl m [OF v] m [OF Suc.prems(2)] forget [of "n + m" v]
      by (auto simp: session_attempts_Suc split: if_splits)
  next
    case (Inr x)
    then show ?thesis
      using Suc.prems a m [OF Suc.prems(2)]
      by (auto simp: session_attempts_Suc intro!: exI [of _ k] exI [of _ w] split: if_splits)
  qed
qed

lemma recovery_loop_budget:
  assumes err: "\<And>m k s e s'. attempt k s = (Inl e, s') \<Longrightarrow> J m s \<Longrightarrow> J m s'"
    and forget: "\<And>m s. J (Suc m) s \<Longrightarrow> J m (invalidate_handles s)"
    and less: "\<And>m s. J (Suc m) s \<Longrightarrow> J m s"
    and again: "\<And>m s s'. reconnect ops s = (Inr (), s') \<Longrightarrow> J (Suc m) s \<Longrightarrow> J m s'"
  shows "recovery_loop ops attempt n k w = (Inr x, w') \<Longrightarrow> J (Suc MAX_STALE_RETRIES * n) w \<Longrightarrow>
    \<exists>j u. J 0 u \<and> attempt j u = (Inr x, w')"
proof (induction n arbitrary: k w)
  case (Suc n)
  have z: "J 0 v" if "J a v" for a v using that less by (induction a) auto
  obtain q k' v where s: "session_attempts ops attempt MAX_STALE_RETRIES k w = (q, k', v)"
    by (metis prod_cases3)
  have "J (MAX_STALE_RETRIES + Suc (Suc MAX_STALE_RETRIES * n)) w" using Suc.prems(2) by (simp add: add.commute)
  from session_attempts_budget [where J = J, OF err forget less s this]
  have b: "case q of Done y \<Rightarrow> \<exists>j u. J (Suc (Suc MAX_STALE_RETRIES * n)) u \<and> attempt j u = (Inr y, v)
      | Failed _ \<Rightarrow> True | LinkLost \<Rightarrow> J (Suc (Suc MAX_STALE_RETRIES * n)) v" .
  show ?case
  proof (cases q)
    case LinkLost
    obtain p u where r: "reconnect ops v = (p, u)" by fastforce
    then show ?thesis using Suc s LinkLost b again by (cases p) auto
  qed (use Suc.prems s b z in auto)
qed simp

lemma handle_known_reconnect:
  assumes "reconnect ops w = (Inr (), w')" and "handle_known used i (Suc m) w"
  shows "handle_known used i m w'"
proof -
  from assms(1) obtain d ss dev where w': "w' = adopted_state ss dev (w\<lparr>fs_env := d\<rparr>)"
    by (rule reconnect_cases) auto
  let ?t = "fs_inodes w"
  let ?r = "remap_storages ss 0 (children ?t ROOT_INODE) ?t"
  have "entries ?t i = Some e" if r: "entries ?r i = Some e" "ie_kind e = File h" for e h
  proof -
    have "skeleton ?r = skeleton ?t" by (rule skeleton_remap)
    then obtain e' where e': "entries ?t i = Some e'" "identity e' = identity e"
      using skeleton_entry [of ?t ?r i e] r(1) by metis
    then have "shape (ie_kind e') = File 0" using identity_sel [of e' e] r(2) by simp
    then have "\<not> (\<exists>s. ie_kind e' = Storage s)" by auto
    from remap_object [OF e'(1) this] r(1) have "e' = e" by (metis option.inject)
    with e'(1) show ?thesis by simp
  qed
  then show ?thesis
    by (intro handle_known_bump [OF assms(2)]) (auto simp: w' adopted_state_def bump_generation_def)
qed

section \<open>A flush in one session\<close>

context node_frame
begin

lemmas resolving = handles storage_indices

end

text \<open>The new object is on the device and the file's entry names it.\<close>

definition holds :: "('d \<Rightarrow> object_handle \<Rightarrow> byte list \<Rightarrow> bool) \<Rightarrow> inode \<Rightarrow> byte list \<Rightarrow> ('dev, 's, 'd) mtp_fs \<Rightarrow> bool" where
  "holds stored i xs w \<longleftrightarrow>
     (\<exists>h e. stored (fs_env w) h xs \<and> entries (fs_inodes w) i = Some e \<and> ie_kind e = File h \<and>
        ie_size e = of_nat (length xs))"

lemma record_upload_holds:
  assumes "keeps_objects ops stored" and "stored (fs_env w) h xs" and "entries (fs_inodes w) i \<noteq> None"
  shows "holds stored i xs (record_upload ops i h n (of_nat (length xs)) w)"
proof -
  have "\<exists>e. entries (fs_inodes (record_upload ops i h n (of_nat (length xs)) w)) i = Some e \<and> ie_kind e = File h \<and>
      ie_size e = of_nat (length xs)"
    using assms(3) by (cases "env_now ops (fs_env w)")
      (auto simp: record_upload_def ask_def upd_inodes_def update_entry_def)
  then show ?thesis using record_upload_env [OF assms(1,2)] unfolding holds_def by blast
qed

lemma on_storage_session:
  assumes "on_storage idx f w = (r, w')" and "\<And>s d q d'. f s d = (q, d') \<Longrightarrow> keeps_used used d d'"
  shows "same_session used w w'"
  using withinD [OF same_session_call assms(1) [unfolded on_storage_def]] assms(2) by blast

lemma upload_file_session:
  assumes laws: "handles_are_new ops used" and run: "upload_file ops idx p n sz xs w = (r, w')"
  shows "same_session used w w'" and "r = Inr h \<Longrightarrow> \<not> used (fs_env w) h"
proof -
  obtain reads d where rd: "env_reads ops (fs_env w) = (reads, d)" by fastforce
  then have r: "on_storage idx (\<lambda>s. op_upload ops s p n sz (file_stream reads 0 xs)) (w\<lparr>fs_env := d\<rparr>) = (r, w')"
    using run by (simp add: upload_file_def ask_def)
  have k: "keeps_used used (fs_env w) d" by (rule handles_are_newD(6) [OF laws rd])
  have "same_session used (w\<lparr>fs_env := d\<rparr>) w'"
    by (rule on_storage_session [OF r]) (rule handles_are_newD(3) [OF laws])
  then show "same_session used w w'"
    by (rule frame.chain [OF same_session_frame same_session_env [OF k]])
  show "\<not> used (fs_env w) h" if "r = Inr h"
  proof -
    have "op_upload ops (fs_storages w ! idx) p n sz (file_stream reads 0 xs) d = (Inr h, fs_env w')"
      using r that by (auto simp: on_storage_def call_def split: prod.splits)
    from handles_are_newD(4) [OF laws this] k show ?thesis by (auto simp: keeps_used_def)
  qed
qed

lemma purge_session:
  assumes laws: "handles_are_new ops used"
  shows "same_session used w (purge_leftover ops idx p n w)"
proof -
  note chain = frame.chain [OF same_session_frame, of used]
  have del: "same_session used w (delete_all ops idx obs w)" for obs w
  proof (induction obs arbitrary: w)
    case (Cons ob obs)
    obtain q v where d: "on_storage idx (\<lambda>s. op_delete ops s (ob_handle ob)) w = (q, v)" by fastforce
    have "same_session used w v" by (rule on_storage_session [OF d]) (rule handles_are_newD(5) [OF laws])
    from chain [OF this Cons.IH] show ?case by (simp add: d)
  qed (simp add: frame.same [OF same_session_frame])
  obtain q v where l: "on_storage idx (\<lambda>s. op_list ops s p) w = (q, v)" by fastforce
  have "same_session used w v" by (rule on_storage_session [OF l]) (rule handles_are_newD(1) [OF laws])
  from this chain [OF this del] show ?thesis by (auto simp: purge_leftover_def l split: sum.split)
qed

lemma file_step_session:
  assumes laws: "handles_are_new ops used" and run: "file_step ops w = (r, w')"
  shows "same_session used w w'"
proof -
  obtain q d where d: "env_disk ops (fs_env w) = (q, d)" by fastforce
  have "w' = w\<lparr>fs_env := d\<rparr>" using run d by (cases q) (auto simp: file_step_def ask_def)
  then show ?thesis using same_session_env [OF handles_are_newD(7) [OF laws d]] by simp
qed

text \<open>Both sequences: an error leaves the session as it was, a success the new object stored.\<close>

lemma flush_safe_fails:
  assumes "handles_are_new ops used" and "flush_safe ops i old idx p entry sz xs w = (Inl e, w')"
  shows "same_session used w w'"
  using assms(2) upload_file_session(1) [OF assms(1)]
  by (cases "upload_file ops idx p (temp_upload_name (ie_name entry)) sz xs w")
    (auto simp: flush_safe_def Let_def split: prod.splits sum.splits)

lemma flush_safe_holds:
  assumes "keeps_objects ops stored" and "uploads_whole ops" and laws: "handles_are_new ops used"
    and "used (fs_env w) old" and "entries (fs_inodes w) i \<noteq> None"
    and run: "flush_safe ops i old idx p entry (of_nat (length xs)) xs w = (r, w')"
    and r: "r = Inr x"
  shows "holds stored i xs w'"
proof -
  obtain q v where u: "upload_file ops idx p (temp_upload_name (ie_name entry)) (of_nat (length xs)) xs w = (q, v)"
    by fastforce
  note same = upload_file_session(1) [OF laws u]
  show ?thesis
  proof (cases q)
    case (Inl e)
    then show ?thesis using run r u by (simp add: flush_safe_def)
  next
    case (Inr h)
    have "h \<noteq> old" using upload_file_session(2) [OF laws u Inr] assms(4) by auto
    from flush_safe_keeps_new [OF assms(1) run u [unfolded Inr] upload_file_stored [OF assms(1,2) u [unfolded Inr]] this]
    obtain n x where x: "r = Inr ()" "w' = record_upload ops i h n (of_nat (length xs)) x" "stored (fs_env x) h xs"
        "fs_inodes x = fs_inodes v"
      by blast
    have "entries (fs_inodes x) i \<noteq> None" using same assms(5) unfolding x(4) same_session_def by blast
    then show ?thesis using record_upload_holds [OF assms(1) x(3)] x(1,2) by simp
  qed
qed

lemma flush_unsafe_holds:
  assumes "keeps_objects ops stored" and "uploads_whole ops" and laws: "handles_are_new ops used"
    and "entries (fs_inodes w) i \<noteq> None"
    and run: "flush_unsafe ops i old idx p entry (of_nat (length xs)) xs w = (r, w')"
  shows "case r of Inl _ \<Rightarrow> same_session used w w' | Inr _ \<Rightarrow> holds stored i xs w'"
proof -
  obtain q v where d: "on_storage idx (\<lambda>s. op_delete ops s old) w = (q, v)" by fastforce
  have 1: "same_session used w v" by (rule on_storage_session [OF d]) (rule handles_are_newD(5) [OF laws])
  obtain q2 v2 where u: "upload_file ops idx p (ie_name entry) (of_nat (length xs)) xs v = (q2, v2)" by fastforce
  have 2: "same_session used w v2"
    by (rule frame.chain [OF same_session_frame 1 upload_file_session(1) [OF laws u]])
  then have e: "entries (fs_inodes v2) i \<noteq> None" using assms(4) unfolding same_session_def by blast
  show ?thesis
    using run d u 1 2 record_upload_holds [OF assms(1) upload_file_stored [OF assms(1,2), of idx p "ie_name entry" xs v] e]
    by (cases q; cases q2) (auto simp: flush_unsafe_def)
qed

lemma flush_once_holds:
  assumes "keeps_objects ops stored" and "uploads_whole ops" and laws: "handles_are_new ops used"
    and run: "flush_once ops i entry (of_nat (length xs)) xs b w = (r, w')"
  shows "case r of Inl _ \<Rightarrow> same_session used w w' | Inr _ \<Rightarrow> handle_known used i 0 w \<longrightarrow> holds stored i xs w'"
proof -
  note chain = frame.chain [OF same_session_frame, of used]
  note nodes = node_frame.resolving [OF same_session_nodes [OF laws]]
  from run [unfolded flush_once_def] show ?thesis
  proof (cases rule: bind_op_cases)
    case (err e)
    then show ?thesis using withinD [OF nodes(1)] by auto
  next
    case h: (ok old w1)
    have 1: "same_session used w w1" by (rule withinD [OF nodes(1) h(1)])
    obtain e where e: "entries (fs_inodes w1) i = Some e" "ie_kind e = File old" "is_fresh (fs_inodes w1) i"
      using file_handle_fresh [OF h(1)] by blast
    have known: "used (fs_env w1) old" if "handle_known used i 0 w"
    proof -
      have "handle_known used i 0 w1" using 1 that unfolding same_session_def by simp
      then show ?thesis using e by (auto simp: handle_known_def is_fresh_def)
    qed
    from h(2) show ?thesis
    proof (cases rule: bind_op_cases)
      case (err e)
      then show ?thesis using chain [OF 1 withinD [OF nodes(4)]] by auto
    next
      case s: (ok idx w2)
      have 2: "same_session used w1 w2" by (rule withinD [OF nodes(4) s(1)])
      from s(2) show ?thesis
      proof (cases rule: bind_op_cases)
        case (err e)
        then show ?thesis using chain [OF 1 chain [OF 2 withinD [OF nodes(3)]]] by auto
      next
        case p: (ok p w3)
        let ?v = "if b \<and> op_renames ops (fs_device w3)
          then purge_leftover ops idx p (temp_upload_name (ie_name entry)) w3 else w3"
        have 3: "same_session used w1 w3" by (rule chain [OF 2 withinD [OF nodes(3) p(1)]])
        then have 4: "same_session used w1 ?v" using chain [OF 3 purge_session [OF laws]] by simp
        have there: "entries (fs_inodes ?v) i \<noteq> None" using 4 e(1) unfolding same_session_def by blast
        have old: "used (fs_env ?v) old" if "handle_known used i 0 w"
          using known [OF that] 4 unfolding same_session_def keeps_used_def by blast
        show ?thesis
        proof (cases "op_renames ops (fs_device w3)")
          case True
          then have f: "flush_safe ops i old idx p entry (of_nat (length xs)) xs ?v = (r, w')"
            using p(2) by simp
          show ?thesis
          proof (cases r)
            case (Inl x)
            then show ?thesis using chain [OF chain [OF 1 4] flush_safe_fails [OF laws f [unfolded Inl]]] by simp
          next
            case (Inr x)
            then show ?thesis using flush_safe_holds [OF assms(1,2) laws old there f Inr] by simp
          qed
        next
          case False
          then have "flush_unsafe ops i old idx p entry (of_nat (length xs)) xs ?v = (r, w')" using p(2) by simp
          from flush_unsafe_holds [OF assms(1,2) laws there this] show ?thesis
            using chain [OF chain [OF 1 4]] by (cases r) simp_all
        qed
      qed
    qed
  qed
qed

lemma flush_attempt_holds:
  assumes laws: "keeps_objects ops stored" "uploads_whole ops" "handles_are_new ops used"
    and run: "flush_attempt ops i entry xs k w = (r, w')"
  shows "case r of Inl _ \<Rightarrow> same_session used w w' | Inr _ \<Rightarrow> handle_known used i 0 w \<longrightarrow> holds stored i xs w'"
proof -
  note chain = frame.chain [OF same_session_frame, of used] and disk = file_step_session [OF laws(3)]
  from run [unfolded flush_attempt_def] show ?thesis
  proof (cases rule: bind_op_cases)
    case (err e)
    then show ?thesis using disk by simp
  next
    case 1: (ok a u)
    from 1(2) show ?thesis
    proof (cases rule: bind_op_cases)
      case (err e)
      then show ?thesis using chain [OF disk [OF 1(1)] disk] by simp
    next
      case 2: (ok b v)
      have s: "same_session used w v" by (rule chain [OF disk [OF 1(1)] disk [OF 2(1)]])
      then have "handle_known used i 0 w \<longrightarrow> handle_known used i 0 v" unfolding same_session_def by simp
      then show ?thesis using flush_once_holds [OF laws 2(2)] chain [OF s] by (cases r) auto
    qed
  qed
qed

lemma flush_to_mtp_holds:
  assumes laws: "keeps_objects ops stored" "uploads_whole ops" "handles_are_new ops used"
    and "wb_buffers (fs_write_buf w) fh = Some b" "fb_dirty b"
    and known: "handle_known used (fb_inode b) (Suc MAX_STALE_RETRIES * MAX_ATTEMPTS) w"
    and run: "flush_to_mtp ops fh w = (Inr x, w')"
  shows "holds stored (fb_inode b) (sf_content (fb_file b)) w'"
proof -
  let ?i = "fb_inode b" and ?xs = "sf_content (fb_file b)"
  obtain wb where c: "wb_close fh (fs_write_buf w) = (Some b, wb)"
    using wb_close_obs(1) [of fh "fs_write_buf w"] assms(4) by (metis prod.collapse)
  obtain entry u where u: "with_recovery ops (flush_attempt ops ?i entry ?xs) u = (Inr x, w')"
      and s: "file_step ops (w\<lparr>fs_write_buf := wb\<rparr>) = (Inr (), u)"
    using run assms(5) by (auto simp: flush_to_mtp_def c Let_def into_file_def split: prod.splits sum.splits option.splits)
  define J where "J m v \<longleftrightarrow> m < 2 ^ 64 \<and> handle_known used ?i m v" for m and v :: "('a, 'b, 'c) mtp_fs"
  have start: "J (Suc MAX_STALE_RETRIES * MAX_ATTEMPTS) u"
  proof -
    have "handle_known used ?i (Suc MAX_STALE_RETRIES * MAX_ATTEMPTS) (w\<lparr>fs_write_buf := wb\<rparr>)"
      using known by (simp add: handle_known_def)
    then show ?thesis
      using file_step_session [OF laws(3) s] unfolding J_def same_session_def
      by (auto simp: MAX_STALE_RETRIES_def MAX_ATTEMPTS_def)
  qed
  have "\<exists>j v. J 0 v \<and> flush_attempt ops ?i entry ?xs j v = (Inr x, w')"
  proof (rule recovery_loop_budget [where J = J, OF _ _ _ _ u [unfolded with_recovery_def] start])
    show "J m s'" if "flush_attempt ops ?i entry ?xs k s = (Inl e, s')" "J m s" for m k s e s'
      using flush_attempt_holds [OF laws that(1)] that(2) by (auto simp: J_def same_session_def)
    show "J m (invalidate_handles s)" if "J (Suc m) s" for m s
      using that handle_known_bump [of used ?i m s "invalidate_handles s"]
      by (auto simp: J_def invalidate_handles_def bump_generation_def)
    show "J m s" if "J (Suc m) s" for m s using that by (auto simp: J_def dest: handle_known_less)
    show "J m s'" if "reconnect ops s = (Inr (), s')" "J (Suc m) s" for m s s'
      using that handle_known_reconnect by (auto simp: J_def)
  qed
  then obtain j v where v: "handle_known used ?i 0 v" "flush_attempt ops ?i entry ?xs j v = (Inr x, w')"
    by (auto simp: J_def)
  from flush_attempt_holds [OF laws v(2)] v(1) show ?thesis by simp
qed

text \<open>
  C3. Closing a file is honest: if the close of a written descriptor replies success, then in
  the state it returns the device holds an object with exactly the bytes of the descriptor's
  spool file, and the file's entry names that object and its length; any other outcome is
  \<open>EIO\<close>. The device keeps what is stored but for deletes of the object itself, numbers a new
  object unlike every handle it gave out in the session, and the mount knows the handle of the
  file from this session or knows it to be stale, for the generations one close can use up
  (\<open>listed_known\<close> and \<open>created_known\<close>: what a listing and a creation record).
  (The spool file is what the descriptor reads, followed by what a failed write left behind.)
\<close>

theorem close_ok_means_uploaded:
  assumes "keeps_objects ops stored" and "uploads_whole ops" and "handles_are_new ops used"
    and "wb_buffers (fs_write_buf w) fh = Some b" and "fb_dirty b" and "xs = sf_content (fb_file b)"
    and "handle_known used (fb_inode b) (Suc MAX_STALE_RETRIES * MAX_ATTEMPTS) w"
    and "fs_release ops fh w = (r, w')"
  shows "r = ReplyError EIO \<or>
    r = Reply () \<and> (\<exists>h e. stored (fs_env w') h xs \<and> entries (fs_inodes w') (fb_inode b) = Some e \<and>
      ie_kind e = File h \<and> ie_size e = of_nat (length xs))"
proof -
  obtain q v where f: "flush_to_mtp ops fh w = (q, v)" by fastforce
  have "wb_is_open (fs_write_buf w) fh" using assms(4) by (simp add: wb_is_open_def)
  then have "r = (case q of Inr _ \<Rightarrow> Reply () | Inl e \<Rightarrow> ReplyError EIO)"
      "fs_inodes w' = fs_inodes v \<and> fs_env w' = fs_env v"
    using assms(8) by (auto simp: fs_release_def f Let_def drop_read_cache_if_unused_def split: sum.splits option.splits)
  then show ?thesis
    using flush_to_mtp_holds [OF assms(1-5,7), of "()" v] f unfolding holds_def assms(6) by (cases q) auto
qed

text \<open>
  The small device, listing only what it has numbered, has given out the handles below the
  next one.
\<close>

definition session_ops :: "(unit, unit, demo_env) mtp_ops" where
  "session_ops = demo_ops\<lparr>op_list := (\<lambda>s p. plugged (\<lambda>d.
     (Inr (map demo_object (filter (\<lambda>ob. fst ob < dd_next d) (dd_objects d))), d)))\<rparr>"

lemma session_laws:
  "keeps_objects session_ops demo_stored_at" "uploads_whole session_ops"
  "handles_are_new session_ops (\<lambda>d h. h < dd_next d)"
proof -
  show "keeps_objects session_ops demo_stored_at"
    using demo_keeps by (simp add: session_ops_def keeps_objects_def upload_adds_def delete_is_local_def others_keep_def)
  show "uploads_whole session_ops" using demo_uploads by (simp add: session_ops_def uploads_whole_def)
  show "handles_are_new session_ops (\<lambda>d h. h < dd_next d)"
    by (auto simp: handles_are_new_def keeps_used_def session_ops_def demo_ops_def demo_upload_def plugged_def
        demo_store_def on_object_def demo_drop_def demo_object_def next_handle split: sum.splits option.splits)
qed

lemma session_stream: "stream_bytes (file_stream (\<lambda>_. ReadUpTo 4096) 0 [7, 8]) = Inr [7, 8]"
  by (simp add: file_stream.simps [of _ 0] file_stream.simps [of _ "Suc 0"] UPLOAD_CHUNK_def)

lemma session_ops_sel:
  "op_renames session_ops dev" "env_reads session_ops d = (\<lambda>_. ReadUpTo 4096, d)"
  "op_upload session_ops s p n sz stream = demo_upload n stream"
  "op_delete session_ops s h = on_object h (\<lambda>ob d. (Inr (), demo_drop h d))"
  "op_rename session_ops s h n = on_object h (\<lambda>ob d. (Inr (), demo_relabel h n d))"
  by (simp_all add: session_ops_def demo_ops_def)

lemma demo_attempt_uploads:
  assumes "fs_inodes w = demo_tree" "fs_storages w = [demo_storage]" "fs_env w = demo_phone"
  shows "\<exists>w'. flush_attempt session_ops 3 demo_file [7, 8] 0 w = (Inr (), w')"
proof -
  have 1: "file_step session_ops w = (Inr (), w)"
    by (simp add: file_step_def ask_def session_ops_def demo_ops_def)
  have 2: "file_handle session_ops 3 w = (Inr 5, w)"
    by (simp add: file_handle_def bind_op_def ensure_fresh_def lift_opt_def assms demo_tree_entries demo_file_def)
  have 3: "storage_index 3 w = (Inr 0, w)"
    by (simp add: storage_index_def lift_opt_def find_storage_index_def assms demo_walk position_def demo_storage_def)
  have 4: "parent_handle session_ops 2 w = (Inr None, w)"
    by (simp add: parent_handle_def bind_op_def ensure_fresh_def lift_opt_def assms demo_tree_storage is_fresh_def)
  have "flush_attempt session_ops 3 demo_file [7, 8] 0 w =
      flush_safe session_ops 3 5 0 None demo_file (of_nat (length [7, 8 :: byte])) [7, 8] w"
    using 1 2 3 4 by (simp add: flush_attempt_def bind_op_def flush_once_def session_ops_sel demo_file_def)
  moreover have "fst (flush_safe session_ops 3 5 0 None demo_file (of_nat (length [7, 8 :: byte])) [7, 8] w) = Inr ()"
    by (simp add: flush_safe_def upload_file_def ask_def on_storage_def call_def session_ops_sel demo_upload_def
        session_stream plugged_def demo_store_def assms demo_phone_def Let_def split: prod.split sum.split)
  ultimately show ?thesis by (metis prod.collapse)
qed

lemma demo_close_replies: "fst (fs_release session_ops 7 demo_open) = Reply ()"
proof -
  obtain b where b: "wb_buffers (fs_write_buf demo_open) 7 = Some b" "fb_dirty b" "fb_inode b = 3"
      "sf_content (fb_file b) = [7, 8]"
    using demo_open_buffer by (fastforce simp: fb_bytes_def all_buffers_def exact_len_def ran_def)
  obtain wb where c: "wb_close 7 (fs_write_buf demo_open) = (Some b, wb)"
    using wb_close_obs(1) [of 7 "fs_write_buf demo_open"] b(1) by (metis prod.collapse)
  let ?w = "demo_open\<lparr>fs_write_buf := wb\<rparr>"
  have i: "fs_inodes ?w = demo_tree" "fs_storages ?w = [demo_storage]" "fs_env ?w = demo_phone"
    by (simp_all add: demo_open_def demo_mount_def demo_fs_def fs_new_def)
  obtain v where "flush_attempt session_ops 3 demo_file [7, 8] 0 ?w = (Inr (), v)"
    using demo_attempt_uploads [OF i] by blast
  then have "with_recovery session_ops (flush_attempt session_ops 3 demo_file [7, 8]) ?w = (Inr (), v)"
    by (intro with_recovery_first) (simp add: is_unplugged_def session_ops_def demo_ops_def)
  moreover have "file_step session_ops ?w = (Inr (), ?w)"
    by (simp add: file_step_def ask_def session_ops_def demo_ops_def)
  ultimately have "flush_to_mtp session_ops 7 demo_open = (Inr (), v)"
    using c b i(1) by (simp add: flush_to_mtp_def into_file_def demo_tree_entries)
  then show ?thesis using b(1) by (simp add: fs_release_def wb_is_open_def Let_def)
qed

theorem close_ok_means_uploaded_witness:
  "\<exists>w'. fs_release session_ops 7 demo_open = (Reply (), w') \<and> (\<exists>h. demo_stored_at (fs_env w') h [7, 8])"
proof -
  obtain b where b: "wb_buffers (fs_write_buf demo_open) 7 = Some b" "fb_dirty b" "fb_inode b = 3"
      "sf_content (fb_file b) = [7, 8]"
    using demo_open_buffer by (fastforce simp: fb_bytes_def all_buffers_def exact_len_def ran_def)
  obtain r w' where run: "fs_release session_ops 7 demo_open = (r, w')" by fastforce
  have known: "handle_known (\<lambda>d h. h < dd_next d) (fb_inode b) (Suc MAX_STALE_RETRIES * MAX_ATTEMPTS) demo_open"
    using b(3) by (auto simp: handle_known_def demo_open_def demo_mount_def demo_fs_def fs_new_def demo_tree_entries
        demo_file_def demo_phone_def MAX_STALE_RETRIES_def MAX_ATTEMPTS_def word_of_nat_eq_0_iff dest: dvd_imp_le)
  have "r = Reply ()" using demo_close_replies run by simp
  then show ?thesis
    using close_ok_means_uploaded [OF session_laws b(1,2) _ known run] run b(3,4) by auto
qed

end
