(* ===== verification/Write_Facts.thy ===== *)
theory Write_Facts
  imports Flush_Facts
begin

text \<open>
  A descriptor from its first write to its close: what the device holds afterwards is what the
  writes say, applied to an empty file.
\<close>

section \<open>A run of writes\<close>

type_synonym write_request = "u64 \<times> byte list"

text \<open>The requests in order, as long as each is answered; \<open>None\<close>: one was refused.\<close>

fun write_all ::
  "('dev, 's, 'd) mtp_ops \<Rightarrow> inode \<Rightarrow> u64 \<Rightarrow> write_request list \<Rightarrow> ('dev, 's, 'd) mtp_fs \<Rightarrow> ('dev, 's, 'd) mtp_fs option" where
  "write_all ops i fh [] w = Some w"
| "write_all ops i fh ((off, bs) # ws) w =
     (case fs_write ops i fh off bs w of
        (Reply _, w) \<Rightarrow> write_all ops i fh ws w
      | (_, w) \<Rightarrow> None)"

definition written :: "write_request list \<Rightarrow> byte list \<Rightarrow> byte list" where
  "written ws xs = fold (\<lambda>(off, bs) xs. pwrite xs (unat off) bs) ws xs"

lemma written_simps [simp]:
  "written [] xs = xs" "written ((off, bs) # ws) xs = written ws (pwrite xs (unat off) bs)"
  by (simp_all add: written_def)

text \<open>The descriptor's buffer: whose it is, what is in it, and whether it has to be uploaded.\<close>

definition buffered :: "u64 \<Rightarrow> inode \<Rightarrow> bool \<Rightarrow> byte list \<Rightarrow> ('dev, 's, 'd) mtp_fs \<Rightarrow> bool" where
  "buffered fh i dirty xs w \<longleftrightarrow> wb_exact (fs_write_buf w) \<and>
     (\<exists>b. wb_buffers (fs_write_buf w) fh = Some b \<and> fb_inode b = i \<and> fb_dirty b = dirty \<and> fb_bytes sf_content b = xs)"

lemma buffer_write:
  assumes "buffered fh i dirty xs w" and "wb_write out fh off bs (fs_write_buf w) = (Inr n, wb)"
  shows "buffered fh i (dirty \<or> bs \<noteq> []) (pwrite xs (unat off) bs) (w\<lparr>fs_write_buf := wb\<rparr>)"
proof -
  from assms(1) have exact: "wb_exact (fs_write_buf w)" by (simp add: buffered_def)
  show ?thesis
    using assms(2)
  proof (cases rule: wb_write_InrE)
    case (1 b b')
    note b = all_buffersD [OF exact 1(1)]
    have "fb_bytes sf_content b' = pwrite (fb_bytes sf_content b) (unat off) bs"
      using b spool.fb_write_exact(1) [OF _ _ 1(2)] by blast
    moreover have "fb_inode b' = fb_inode b \<and> fb_dirty b' = (fb_dirty b \<or> bs \<noteq> [])"
      using 1(2) by (cases rule: fb_write_at_cases) auto
    ultimately show ?thesis
      using assms(1) 1(1,3) wb_write_exact [OF exact assms(2)] by (auto simp: buffered_def)
  qed
qed

lemma ask_obs [simp]: "fs_write_buf (snd (ask f w)) = fs_write_buf w"
  by (simp add: ask_def split: prod.splits)

lemma fresh_buffer:
  assumes "wb_exact (fs_write_buf w)" and "\<not> wb_is_open (fs_write_buf w) fh"
    and "ensure_buffer ops fh i w = (Inr u, w')"
  shows "buffered fh i False [] w'"
proof -
  obtain t d where a: "ask (env_disk ops) w = (t, d)" by fastforce
  then have d: "fs_write_buf d = fs_write_buf w" by (metis ask_obs snd_conv)
  obtain r wb where o: "wb_open t fh i (known_size i w) (fs_write_buf w) = (r, wb)" by fastforce
  have w': "w' = d\<lparr>fs_write_buf := wb\<rparr>" and r: "r \<in> range Inr"
    using assms(2,3) by (auto simp: ensure_buffer_def open_buffer_def a d o split: sum.splits) (cases r, auto)
  have "wb_exact wb"
    by (rule wb_open_all [OF o assms(1)]) (simp add: exact_len_def with_storage_def)
  moreover have "wb_buffers wb fh = Some (with_storage i (known_size i w) sf_new)"
    using o r assms(2) by (auto simp: wb_open_def fb_new_def wb_is_open_def split: io_outcome.splits)
  ultimately show ?thesis
    by (simp add: w' buffered_def with_storage_def fb_bytes_def)
qed

lemma fs_write_reply:
  assumes "fs_write ops i fh off bs w = (Reply n, w')"
    and "wb_exact (fs_write_buf w)" and "\<not> wb_is_open (fs_write_buf w) fh \<and> xs = [] \<and> \<not> dirty \<or> buffered fh i dirty xs w"
  shows "buffered fh i (dirty \<or> bs \<noteq> []) (pwrite xs (unat off) bs) w'"
proof -
  obtain u v where e: "ensure_buffer ops fh i w = (u, v)" by fastforce
  then obtain q where u: "u = Inr q"
    using assms(1) by (cases u) (auto simp: fs_write_def split: if_splits)
  have v: "buffered fh i dirty xs v"
    using assms(3)
  proof
    assume "buffered fh i dirty xs w"
    moreover from this have "v = w" using e by (auto simp: ensure_buffer_def buffered_def wb_is_open_def)
    ultimately show ?thesis by simp
  next
    assume "\<not> wb_is_open (fs_write_buf w) fh \<and> xs = [] \<and> \<not> dirty"
    then show ?thesis using fresh_buffer [OF assms(2) _ e [unfolded u]] by simp
  qed
  obtain out d where a: "ask (env_disk ops) v = (out, d)" by fastforce
  then have d: "fs_write_buf d = fs_write_buf v" by (metis ask_obs snd_conv)
  obtain r wb where wr: "(wb_write out fh off bs (fs_write_buf v) :: (mtp_error mount_error + u32) \<times> write_buffer) = (r, wb)"
    by fastforce
  obtain m where "r = Inr m" "w' = d\<lparr>fs_write_buf := wb\<rparr>"
    using assms(1) by (cases r) (auto simp: fs_write_def e u a d wr split: if_splits)
  moreover have "buffered fh i dirty xs d" using v by (simp add: buffered_def d)
  ultimately show ?thesis using buffer_write [of fh i dirty xs d] wr d by simp
qed

lemma write_all_buffered:
  "buffered fh i dirty xs w \<Longrightarrow> write_all ops i fh ws w = Some v \<Longrightarrow>
     buffered fh i (dirty \<or> (\<exists>p \<in> set ws. snd p \<noteq> [])) (written ws xs) v"
proof (induction ws arbitrary: w dirty xs)
  case (Cons p ws)
  obtain off bs where p: "p = (off, bs)" by fastforce
  obtain n w1 where 1: "fs_write ops i fh off bs w = (Reply n, w1)" "write_all ops i fh ws w1 = Some v"
    using Cons.prems(2) by (auto simp: p split: prod.splits reply.splits)
  have "buffered fh i (dirty \<or> bs \<noteq> []) (pwrite xs (unat off) bs) w1"
    using fs_write_reply [OF 1(1) _ disjI2 [OF Cons.prems(1)]] Cons.prems(1) buffered_def by blast
  from Cons.IH [OF this 1(2)] show ?case by (simp add: p disj_assoc)
qed simp

text \<open>From a descriptor without a buffer: the first write opens an empty one.\<close>

lemma write_all_from_scratch:
  assumes "wb_exact (fs_write_buf w)" and "\<not> wb_is_open (fs_write_buf w) fh"
    and "ws \<noteq> []" and "write_all ops i fh ws w = Some v"
  shows "buffered fh i (\<exists>p \<in> set ws. snd p \<noteq> []) (written ws []) v"
proof -
  obtain off bs ws' where ws: "ws = (off, bs) # ws'" using assms(3) by (cases ws) auto
  obtain n w1 where 1: "fs_write ops i fh off bs w = (Reply n, w1)" "write_all ops i fh ws' w1 = Some v"
    using assms(4) by (auto simp: ws split: prod.splits reply.splits)
  have "buffered fh i (False \<or> bs \<noteq> []) (pwrite [] (unat off) bs) w1"
    by (rule fs_write_reply [OF 1(1) assms(1)]) (simp add: assms(2))
  from write_all_buffered [OF this 1(2)] show ?thesis by (simp add: ws)
qed

lemma buffered_release:
  assumes "uploads_whole ops" and "buffered fh i True xs w" and "fs_release ops fh w = (r, w')"
  shows "r = ReplyError EIO \<or>
    r = Reply () \<and> (\<exists>h. uploaded ops h xs \<and> points_at i h (of_nat (length xs)) w')"
proof -
  from assms(2) obtain b where b: "wb_exact (fs_write_buf w)" "wb_buffers (fs_write_buf w) fh = Some b" "fb_dirty b"
      "fb_inode b = i" "fb_bytes sf_content b = xs"
    by (auto simp: buffered_def)
  then have "wb_bytes (fs_write_buf w) fh = Some xs" by (simp add: wb_bytes_def)
  from release_uploads [OF assms(1) b(1-3) this assms(3)] show ?thesis by (simp add: b(4))
qed

text \<open>An append to a file of \<open>n\<close> bytes is one write at offset \<open>n\<close>.\<close>

lemma append_is_zeros: "written [(off, bs)] [] = (if bs = [] then [] else replicate (unat off) 0 @ bs)"
  by (auto simp: pwrite_def nth_append intro!: nth_equalityI)

section \<open>Properties\<close>

text \<open>
  C4. What is written is what is uploaded, and all that is uploaded: when every write on a
  descriptor is answered and its close replies success, the device has accepted one object
  whose bytes are the writes applied in order to the \<^emph>\<open>empty\<close> file, and the entry
  has its handle and its length. In particular the old content of a file is never part of
  it: appending \<open>bs\<close> to a file of \<open>n\<close> bytes uploads \<open>n\<close> zeros and then \<open>bs\<close>.
\<close>

theorem writes_are_what_is_uploaded:
  assumes "uploads_whole ops" and "wb_exact (fs_write_buf w)" and "\<not> wb_is_open (fs_write_buf w) fh"
    and "write_all ops i fh ws w = Some v" and "\<exists>p \<in> set ws. snd p \<noteq> []"
    and "fs_release ops fh v = (r, w')"
  shows "r = ReplyError EIO \<or>
    r = Reply () \<and> (\<exists>h. uploaded ops h (written ws []) \<and> points_at i h (of_nat (length (written ws []))) w' \<and>
      (\<forall>off bs. ws = [(off, bs)] \<longrightarrow> uploaded ops h (replicate (unat off) 0 @ bs)))"
proof -
  have "ws \<noteq> []" using assms(5) by auto
  from write_all_from_scratch [OF assms(2,3) this assms(4)] assms(5)
  have "buffered fh i True (written ws []) v" by simp
  from buffered_release [OF assms(1) this assms(6)] show ?thesis
    using assms(5) append_is_zeros by fastforce
qed

text \<open>Appending to the demonstration device's file of three bytes.\<close>

definition demo_appended :: "(unit, unit, demo_env) mtp_fs option" where
  "demo_appended = write_all demo_ops 3 7 [(3, [8])] demo_mount"

lemma demo_appended_works: "demo_appended \<noteq> None"
  by (simp add: demo_appended_def fs_write_def ensure_buffer_def open_buffer_def ask_def demo_mount_def demo_fs_def
      fs_new_def demo_ops_def wb_is_open_def demo_buffer_defs)

theorem writes_are_what_is_uploaded_witness:
  "\<exists>v r w'. demo_appended = Some v \<and> fs_release demo_ops 7 v = (r, w') \<and>
     (r = ReplyError EIO \<or> r = Reply () \<and> (\<exists>h. uploaded demo_ops h [0, 0, 0, 8]))"
proof -
  obtain v where v: "write_all demo_ops 3 7 [(3, [8])] demo_mount = Some v"
    using demo_appended_works by (auto simp: demo_appended_def)
  obtain r w' where r: "fs_release demo_ops 7 v = (r, w')" by fastforce
  have "wb_exact (fs_write_buf demo_mount)" "\<not> wb_is_open (fs_write_buf demo_mount) 7"
    by (simp_all add: demo_mount_def demo_fs_def fs_new_def wb_new_def all_buffers_def wb_is_open_def)
  from writes_are_what_is_uploaded [OF demo_uploads this v _ r]
  have "r = ReplyError EIO \<or> r = Reply () \<and> (\<exists>h. uploaded demo_ops h (replicate (unat (3 :: u64)) 0 @ [8]))"
    by auto
  moreover have "replicate (unat (3 :: u64)) 0 @ [8] = [0, 0, 0, 8 :: byte]"
  proof -
    have "unat (3 :: u64) = Suc (Suc (Suc 0))" by simp
    then show ?thesis by (simp only: replicate_Suc replicate_0 append.simps)
  qed
  ultimately show ?thesis using v r by (auto simp only: demo_appended_def)
qed

end
