(* ===== verification/Mount_Facts.thy ===== *)
theory Mount_Facts
  imports Session_Facts Demo_Device Fs_Changes
begin

text \<open>
  The mount as a machine that serves requests: every callback, event and filler task as one
  request. A read-only mount is equivalent to one whose device could not be written at all;
  and what the changing callbacks leave in the table.
\<close>

section \<open>The device operations that change an object\<close>

text \<open>\<open>ops\<close> with the writing operations of \<open>other\<close>.\<close>

definition writing_with :: "('dev, 's, 'd) mtp_ops \<Rightarrow> ('dev, 's, 'd) mtp_ops \<Rightarrow> ('dev, 's, 'd) mtp_ops" where
  "writing_with other ops =
     ops\<lparr>op_upload := op_upload other, op_delete := op_delete other, op_rename := op_rename other,
       op_move := op_move other, op_create_folder := op_create_folder other\<rparr>"

named_theorems blind

lemma writing_with_simps [blind]:
  "op_is_stale (writing_with other ops) = op_is_stale ops" "op_error_text (writing_with other ops) = op_error_text ops"
  "op_partial (writing_with other ops) = op_partial ops" "op_describe (writing_with other ops) = op_describe ops"
  "op_open (writing_with other ops) = op_open ops" "op_storages (writing_with other ops) = op_storages ops"
  "op_list (writing_with other ops) = op_list ops" "op_get_info (writing_with other ops) = op_get_info ops"
  "op_read_range (writing_with other ops) = op_read_range ops" "op_download (writing_with other ops) = op_download ops"
  "env_now (writing_with other ops) = env_now ops" "env_sleep (writing_with other ops) = env_sleep ops"
  "env_unplugged (writing_with other ops) = env_unplugged ops" "env_disk (writing_with other ops) = env_disk ops"
  by (simp_all add: writing_with_def)

lemma writing_back: "writing_with ops (writing_with other ops) = ops"
  by (simp add: writing_with_def)

text \<open>
  Nothing that recovers, resolves, lists or reads looks at them. The equations are used with
  \<open>simp only\<close>, which rewrites inside the branches of a case too.
\<close>

lemma unplugged_blind [blind]: "is_unplugged (writing_with other ops) = is_unplugged ops"
  by (rule ext) (simp only: is_unplugged_def blind)

lemma adopt_blind [blind]: "adopt (writing_with other ops) dev = adopt ops dev"
  by (simp only: adopt_def blind)

lemma reopen_blind [blind]: "reopen_loop (writing_with other ops) ds w = reopen_loop ops ds w"
  by (induction ds arbitrary: w) (simp_all only: reopen_loop.simps blind)

lemma reconnect_blind [blind]: "reconnect (writing_with other ops) = reconnect ops"
  by (rule ext) (simp only: reconnect_def blind)

lemma session_blind [blind]:
  "session_attempts (writing_with other ops) attempt n k w = session_attempts ops attempt n k w"
proof (induction n arbitrary: k w)
  case 0
  show ?case by (subst (1 2) session_attempts.simps) (simp only: blind nat.case)
next
  case (Suc n)
  show ?case by (subst (1 2) session_attempts.simps) (simp only: blind nat.case Suc)
qed

lemma recovery_blind [blind]: "with_recovery (writing_with other ops) attempt = with_recovery ops attempt"
proof -
  have "recovery_loop (writing_with other ops) attempt n k w = recovery_loop ops attempt n k w" for n k w
    by (induction n arbitrary: k w) (simp_all only: recovery_loop.simps blind)
  then show ?thesis by (intro ext) (simp only: with_recovery_def blind)
qed

lemma node_blind [blind]: "resolve_node (writing_with other ops) idx node = resolve_node ops idx node"
  by (intro ext) (simp only: resolve_node_def blind)

lemma chain_blind [blind]: "resolve_chain (writing_with other ops) idx chain = resolve_chain ops idx chain"
  by (induction chain) (rule ext, simp only: resolve_chain.simps blind)+

lemma fresh_blind [blind]: "ensure_fresh (writing_with other ops) i = ensure_fresh ops i"
  by (rule ext) (simp only: ensure_fresh_def blind)

lemma handles_blind [blind]:
  "file_handle (writing_with other ops) i = file_handle ops i"
  "parent_handle (writing_with other ops) i = parent_handle ops i"
  by (simp_all only: file_handle_def parent_handle_def blind)

lemma listing_blind [blind]: "list_into_table (writing_with other ops) p = list_into_table ops p"
  by (simp only: list_into_table_def blind)

lemma load_blind [blind]: "load_dir (writing_with other ops) p = load_dir ops p"
  by (rule ext) (simp only: load_dir_def blind)

lemma on_file_blind [blind]: "on_file (writing_with other ops) i f = on_file ops i f"
  by (simp only: on_file_def blind)

lemma start_blind [blind]: "ensure_full_fill_running (writing_with other ops) i c = ensure_full_fill_running ops i c"
  by (rule ext) (simp only: ensure_full_fill_running_def blind)

lemma filler_blind [blind]: "run_filler (writing_with other ops) task = run_filler ops task"
  by (rule ext) (simp only: run_filler_def blind)

lemma strategy_blind [blind]: "read_strategy_for (writing_with other ops) = read_strategy_for ops"
  by (intro ext) (simp only: read_strategy_for_def blind)

lemma cache_blind [blind]: "read_cache_for (writing_with other ops) i sz = read_cache_for ops i sz"
  by (intro ext) (simp only: read_cache_for_def blind)

lemma fetch_blind_le:
  "fetch_range ops i c osz cursor en w = Some y \<Longrightarrow> fetch_range (writing_with other ops) i c osz cursor en w = Some y"
proof (induction rule: fetch_range.raw_induct [rotated, consumes 1, case_names step])
  case (step f ops i c osz cursor en w y)
  then show ?case
    by (cases y, subst fetch_range.simps) (auto simp: blind Let_def split: if_splits prod.splits sum.splits)
qed

lemma fetch_blind [blind]: "fetch_range (writing_with other ops) = fetch_range ops"
proof -
  have "fetch_range (writing_with other ops) i c osz cursor en w = fetch_range ops i c osz cursor en w" for i c osz cursor en w
    using fetch_blind_le [of ops i c osz cursor en w _ other]
      fetch_blind_le [of "writing_with other ops" i c osz cursor en w _ ops]
    by (cases "fetch_range ops i c osz cursor en w"; cases "fetch_range (writing_with other ops) i c osz cursor en w")
      (simp_all add: writing_back)
  then show ?thesis by (intro ext)
qed

lemma fetches_blind [blind]: "fetch_ranges (writing_with other ops) i c osz rs w = fetch_ranges ops i c osz rs w"
  by (induction rs arbitrary: w) (simp_all only: fetch_ranges.simps blind)

lemma ranged_blind [blind]: "ranged_read (writing_with other ops) i c osz off sz = ranged_read ops i c osz off sz"
  by (rule ext) (simp only: ranged_read_def blind)

lemma sequential_blind [blind]:
  "sequential_read (writing_with other ops) i c off sz n views w = sequential_read ops i c off sz n views w"
proof (induction n arbitrary: w)
  case 0
  show ?case by (subst (1 2) sequential_read.simps) (simp only: blind recover_full_fill_link_def nat.case)
next
  case (Suc n)
  show ?case by (subst (1 2) sequential_read.simps) (simp only: blind recover_full_fill_link_def nat.case Suc)
qed

lemma read_blind [blind]: "fs_read (writing_with other ops) views i fh off sz = fs_read ops views i fh off sz"
  by (rule ext) (simp only: fs_read_def blind)

section \<open>The mount as a server\<close>

text \<open>
  One request: a callback of \<open>impl Filesystem for MtpFs\<close>, an event of the device, or the next
  queued filler task. A request that never gets a reply is \<open>None\<close>.
\<close>

datatype request =
  RqLookup inode "string option"
| RqGetattr "u64 list" inode
| RqSetattr inode "u64 option" "u64 option"
| RqReaddir nat inode u64
| RqOpendir inode
| RqStatfs
| RqOpen bool inode
| RqRead "nat \<Rightarrow> shared_cache list" inode u64 u64 u32
| RqWrite inode u64 u64 "byte list"
| RqRelease u64
| RqCreate inode "string option"
| RqMkdir inode "string option"
| RqUnlink inode "string option"
| RqRmdir inode "string option"
| RqRename inode "string option" inode "string option"
| RqEvent "inode list" u64 poll
| RqFiller

definition next_filler :: "('dev, 's, 'd) mtp_ops \<Rightarrow> ('dev, 's, 'd) mtp_fs \<Rightarrow> ('dev, 's, 'd) mtp_fs" where
  "next_filler ops w =
     (case fs_fillers w of [] \<Rightarrow> w | task # tasks \<Rightarrow> run_filler ops task (w\<lparr>fs_fillers := tasks\<rparr>))"

fun serve :: "('dev, 's, 'd) mtp_ops \<Rightarrow> request \<Rightarrow> ('dev, 's, 'd) mtp_fs \<Rightarrow> ('dev, 's, 'd) mtp_fs option" where
  "serve ops (RqLookup p n) w = Some (snd (fs_lookup ops p n w))"
| "serve ops (RqGetattr order i) w = Some (snd (fs_getattr order i w))"
| "serve ops (RqSetattr i sz fh) w = Some (snd (fs_setattr ops i sz fh w))"
| "serve ops (RqReaddir cap i off) w = Some (snd (fs_readdir ops cap i off w))"
| "serve ops (RqOpendir i) w = Some (snd (fs_opendir i w))"
| "serve ops RqStatfs w = Some (snd (fs_statfs w))"
| "serve ops (RqOpen write_only i) w = Some (snd (fs_open ops write_only i w))"
| "serve ops (RqRead views i fh off sz) w = map_option snd (fs_read ops views i fh off sz w)"
| "serve ops (RqWrite i fh off bs) w = Some (snd (fs_write ops i fh off bs w))"
| "serve ops (RqRelease fh) w = Some (snd (fs_release ops fh w))"
| "serve ops (RqCreate p n) w = Some (snd (fs_create ops p n w))"
| "serve ops (RqMkdir p n) w = Some (snd (fs_mkdir ops p n w))"
| "serve ops (RqUnlink p n) w = Some (snd (fs_unlink ops p n w))"
| "serve ops (RqRmdir p n) w = Some (snd (fs_rmdir ops p n w))"
| "serve ops (RqRename p n q m) w = Some (snd (fs_rename ops p n q m w))"
| "serve ops (RqEvent order epoch ev) w = Some (snd (event_turn order epoch ev w))"
| "serve ops RqFiller w = Some (next_filler ops w)"

fun serve_all :: "('dev, 's, 'd) mtp_ops \<Rightarrow> request list \<Rightarrow> ('dev, 's, 'd) mtp_fs \<Rightarrow> ('dev, 's, 'd) mtp_fs option" where
  "serve_all ops [] w = Some w"
| "serve_all ops (r # rs) w = Option.bind (serve ops r w) (serve_all ops rs)"

section \<open>What reading leaves alone\<close>

text \<open>
  A relation that sees of the state only the table, the write buffers and the mode: the
  counters, caches and tasks of the read path do not show.
\<close>

definition quiet :: "('dev, 's, 'd) mtp_fs \<Rightarrow> ('dev, 's, 'd) mtp_fs \<Rightarrow> bool" where
  "quiet w w' \<longleftrightarrow> fs_inodes w' = fs_inodes w \<and> fs_write_buf w' = fs_write_buf w \<and> fs_read_only w' = fs_read_only w"

lemma quiet_simps [simp]:
  "quiet w w" "quiet w (upd_cache c f v) = quiet w v" "quiet w (upd_fills g v) = quiet w v"
  "quiet w (v\<lparr>fs_fetch_counter := n\<rparr>) = quiet w v" "quiet w (v\<lparr>fs_read_cache := rc\<rparr>) = quiet w v"
  "quiet w (v\<lparr>fs_fillers := q\<rparr>) = quiet w v" "quiet w (v\<lparr>fs_full_fill_counter := n\<rparr>) = quiet w v"
  "quiet w (v\<lparr>fs_dirs_loaded := dl\<rparr>) = quiet w v"
  "quiet w (v\<lparr>fs_full_fill_counter := n, fs_fillers := q\<rparr>) = quiet w v"
  "quiet w (v\<lparr>fs_fh_to_inode := fhs\<rparr>) = quiet w v" "quiet w (v\<lparr>fs_next_fh := n\<rparr>) = quiet w v"
  by (simp_all add: quiet_def upd_cache_def upd_fills_def)

lemma quiet_sym: "quiet w w' \<Longrightarrow> quiet w' w"
  by (simp add: quiet_def)

lemma quiet_cache: "read_cache_for ops i sz w = (r, w') \<Longrightarrow> quiet w w'"
  by (auto simp: read_cache_for_def Let_def ask_def quiet_def split: option.splits prod.splits sum.splits)

lemma quiet_filler: "quiet w (run_filler ops task w)"
  by (simp add: run_filler_def Let_def split: prod.split)

text \<open>
  Relations that reading through the cache \<open>c\<close> of an inode \<open>i\<close> satisfies. The first locale is
  what fetching missing ranges asks of a relation, the second what waiting for a whole-object
  download asks on top.
\<close>

lemma sh_write_fill: "sh_write_at out s off bs = (r, s') \<Longrightarrow> sh_fill s' = sh_fill s"
  by (auto simp: sh_write_at_def split: prod.splits)

context session_frame
begin

lemma reads_on_file: "within R (on_file ops i f)"
  unfolding on_file_def by (intro session_within)

lemma asks: "ask f w = (a, w') \<Longrightarrow> R w w'"
  by (auto simp: ask_def env split: prod.splits)

end

locale fetching_frame = session_frame R ops
  for R :: "('dev, 's, 'd) mtp_fs \<Rightarrow> ('dev, 's, 'd) mtp_fs \<Rightarrow> bool" and ops :: "('dev, 's, 'd) mtp_ops" +
  fixes c :: cache_id
  assumes counted: "R w (w\<lparr>fs_fetch_counter := k\<rparr>)"
    and stored: "sh_fill s = sh_fill (fs_heap w c) \<Longrightarrow> R w (upd_cache c (\<lambda>_. s) w)"
begin

lemma reads_range_from:
  "fetch_range ops' i c' osz cursor en w = Some y \<Longrightarrow> ops' = ops \<Longrightarrow> c' = c \<Longrightarrow> R w (snd y)"
proof (induction rule: fetch_range.raw_induct [rotated, consumes 1, case_names step])
  case (step f ops' i c' osz cursor en w y)
  obtain q v where r: "with_recovery ops (\<lambda>_. on_file ops i (\<lambda>s h. op_read_range ops s h cursor
      (ucast (min (en - cursor) CHUNK)))) (w\<lparr>fs_fetch_counter := fs_fetch_counter w + 1\<rparr>) = (q, v)" by fastforce
  obtain out u where a: "ask (env_disk ops) v = (out, u)" by fastforce
  have v: "R w v" using counted withinD [OF with_recoveries [OF reads_on_file] r] by (rule chain)
  then have u: "R w u" using asks [OF a] by (rule chain)
  have put: "R w (upd_cache c (\<lambda>_. sc) u)" if "sh_write_at out (fs_heap u c) k bs = (x, sc)" for k bs x sc
    using u stored [OF sh_write_fill [OF that]] by (rule chain)
  have later: "R w b"
    if "sh_write_at out (fs_heap u c) k bs = (x, sc)" and "f ops i c osz cur en (upd_cache c (\<lambda>_. sc) u) = Some (p, b)"
    for cur k bs x sc p b
    using put [OF that(1)] step(1) [OF that(2) refl refl] by (auto intro: chain)
  show ?case
    using step(2-4) r a v put
    by (cases y) (auto simp: Let_def same dest: later split: if_splits sum.splits prod.splits)
qed

lemmas reads_range = reads_range_from [OF _ refl refl]

lemma reads_ranges: "fetch_ranges ops i c osz rs w = Some (r, w') \<Longrightarrow> R w w'"
proof (induction rs arbitrary: w)
  case (Cons x rs)
  then obtain q v where f: "fetch_range ops i c osz (r_start x) (r_end x) w = Some (q, v)"
    and rest: "(case q of Inl e \<Rightarrow> Some (Inl e, v) | Inr _ \<Rightarrow> fetch_ranges ops i c osz rs v) = Some (r, w')"
    by (auto simp: bind_eq_Some_conv)
  have "R w v" using reads_range [OF f] by simp
  with rest Cons.IH [of v] show ?case by (cases q) (auto intro: chain)
qed (simp add: same)

lemma reads_ranged:
  assumes "ranged_read ops i c osz off sz w = Some (r, w')"
  shows "R w w'"
proof -
  obtain q v where f: "fetch_ranges ops i c osz (sh_missing_ranges (fs_heap w c) off sz) w = Some (q, v)"
    using assms by (auto simp: ranged_read_def bind_eq_Some_conv)
  obtain out u where a: "ask (env_disk ops) v = (out, u)" by fastforce
  have "R w v" "R w u"
    using reads_ranges [OF f] asks [OF a] by (auto intro: chain)
  then show ?thesis
    using assms f a by (cases q) (auto simp: ranged_read_def split: if_splits sum.splits)
qed

end

locale caching_frame = fetching_frame R ops c
  for R :: "('dev, 's, 'd) mtp_fs \<Rightarrow> ('dev, 's, 'd) mtp_fs \<Rightarrow> bool" and ops :: "('dev, 's, 'd) mtp_ops"
    and c :: cache_id +
  fixes i :: inode
  assumes begun: "R w (ensure_full_fill_running ops i c w)"
    and waited: "R w (upd_cache c (\<lambda>_. wait_end out (fs_heap w c) ts off sz) w)"
    and restarted: "reset_after_link_loss (fs_heap w c) = (b, s) \<Longrightarrow> R w (upd_cache c (\<lambda>_. s) w)"
begin

lemma reads_recover: "recover_full_fill_link ops i w = (r, w') \<Longrightarrow> R w w'"
  unfolding recover_full_fill_link_def by (rule withinD [OF with_recoveries [OF reads_on_file]])

lemma reads_sequential: "sequential_read ops i c off sz n views w = Some (r, w') \<Longrightarrow> R w w'"
proof (induction n arbitrary: w)
  case (0 w)
  obtain out v where a: "ask (env_disk ops) (ensure_full_fill_running ops i c w) = (out, v)" by fastforce
  have v: "R w v" using begun asks [OF a] by (rule chain)
  show ?case
    using 0 a chain [OF v waited]
    by (subst (asm) sequential_read.simps) (auto simp: Let_def split: option.splits sum.splits if_splits)
next
  case (Suc n w)
  obtain out v where a: "ask (env_disk ops) (ensure_full_fill_running ops i c w) = (out, v)" by fastforce
  have v: "R w v" using begun asks [OF a] by (rule chain)
  define u where "u = upd_cache c (\<lambda>_. wait_end out (fs_heap v c) (views (Suc n)) off sz) v"
  have u: "R w u" unfolding u_def using v waited by (rule chain)
  obtain q x where r: "recover_full_fill_link ops i u = (q, x)" by fastforce
  have x: "R w x" using u reads_recover [OF r] by (rule chain)
  obtain b sc where z: "reset_after_link_loss (fs_heap x c) = (b, sc)" by fastforce
  have y: "R w (upd_cache c (\<lambda>_. sc) x)" using x restarted [OF z] by (rule chain)
  have later: "R w w'" if "sequential_read ops i c off sz n views (upd_cache c (\<lambda>_. sc) x) = Some (r, w')"
    using y Suc.IH [OF that] by (rule chain)
  show ?case
    using Suc.prems a u x r z later
    by (subst (asm) sequential_read.simps)
      (auto simp: Let_def u_def [symmetric] simp del: wait_and_read.simps wait_end.simps
        split: option.splits sum.splits if_splits prod.splits bool.splits)
qed

end

locale reading_frame = resolving_frame R ops
  for R :: "('dev, 's, 'd) mtp_fs \<Rightarrow> ('dev, 's, 'd) mtp_fs \<Rightarrow> bool" and ops :: "('dev, 's, 'd) mtp_ops" +
  assumes unseen: "quiet w w' \<Longrightarrow> R w w'"
begin

text \<open>Rewriting a state the relation cannot tell from another.\<close>

lemma quiet_left: "quiet w w' \<Longrightarrow> R w' v = R w v"
  using chain unseen quiet_sym by blast

lemma quiet_right: "quiet w w' \<Longrightarrow> R u w' = R u w"
  using chain unseen quiet_sym by blast

lemma reads_upd:
  "R u (upd_cache c f w) = R u w" "R (upd_cache c f w) v = R w v" "R u (upd_fills g w) = R u w"
  "R (upd_fills g w) v = R w v" "R u (w\<lparr>fs_full_fill_counter := n, fs_fillers := q\<rparr>) = R u w"
  by (rule quiet_left quiet_right; simp)+

lemma reads_start: "R w (ensure_full_fill_running ops i c w)"
proof -
  have rec: "R u v" if "with_recovery ops (\<lambda>_. on_file ops i (op_download ops)) u = (r, v)" for u v r
    by (rule withinD [OF with_recoveries [OF reads_on_file] that])
  show ?thesis
    by (auto simp: ensure_full_fill_running_def Let_def reads_upd same split: prod.splits sum.splits dest!: rec)
qed

end

sublocale reading_frame \<subseteq> through: caching_frame R ops c i for c i
  by unfold_locales (simp_all add: unseen reads_start)

context reading_frame
begin

lemma reads_cache: "read_cache_for ops i sz w = (r, w') \<Longrightarrow> R w w'"
  by (rule unseen) (rule quiet_cache)

lemma reads_read:
  assumes "fs_read ops views i fh off sz w = Some (r, w')"
  shows "R w w'"
proof -
  have cached: "R w w'"
    if "read_cache_for ops i n w = (q, v)"
      and "sequential_read ops i c off m k views v = Some (r, w') \<or> ranged_read ops i c l off m v = Some (r, w')"
    for n q v c m k l
    using reads_cache [OF that(1)] that(2) by (auto dest: through.reads_sequential through.reads_ranged intro: chain)
  show ?thesis
    using assms
    by (auto simp: fs_read_def Let_def same dest: asks reads_cache cached
        split: if_splits prod.splits sum.splits option.splits read_strategy_kind.splits)
qed

end

section \<open>A read-only mount\<close>

text \<open>Read-only, and nothing buffered.\<close>

definition reads_only :: "('dev, 's, 'd) mtp_fs \<Rightarrow> bool" where
  "reads_only w \<longleftrightarrow> fs_read_only w \<and> fs_write_buf w = wb_new"

definition same_mode :: "('dev, 's, 'd) mtp_fs \<Rightarrow> ('dev, 's, 'd) mtp_fs \<Rightarrow> bool" where
  "same_mode w w' \<longleftrightarrow> fs_read_only w' = fs_read_only w \<and> fs_write_buf w' = fs_write_buf w"

interpretation mode: reading_frame same_mode ops for ops
  by unfold_locales
    (auto simp: same_mode_def invalidate_handles_def give_up_def upd_inodes_def quiet_def)

lemma wb_new_closed [simp]: "\<not> wb_is_open wb_new fh"
  by (simp add: wb_is_open_def wb_new_def)

lemma mode_listing: "within same_mode (list_into_table ops p)"
  unfolding list_into_table_def
  by (intro mode.session_within mode.modify) (simp add: same_mode_def upd_inodes_def)

lemma mode_load: "same_mode w (load_dir ops p w)"
proof -
  obtain r v where r: "with_recovery ops (\<lambda>_. list_into_table ops p) w = (r, v)" by fastforce
  have "same_mode w v" by (rule withinD [OF mode.with_recoveries [OF mode_listing] r])
  then show ?thesis using r by (auto simp: load_dir_def same_mode_def split: sum.splits)
qed

lemma reads_only_mode: "same_mode w w' \<Longrightarrow> reads_only w \<Longrightarrow> reads_only w'"
  by (simp add: reads_only_def same_mode_def)

lemma reads_onlyD: "reads_only w \<Longrightarrow> fs_read_only w" "reads_only w \<Longrightarrow> \<not> wb_is_open (fs_write_buf w) fh"
  by (simp_all add: reads_only_def)

lemma mode_event: "same_mode w (snd (event_turn order epoch p w))"
  by (auto simp: event_turn_def handle_event_def forget_dir_def invalidate_all_dirs_def drop_cached_bytes_def
      same_mode_def split: poll.split device_event.split option.split)

text \<open>No request of a read-only mount changes the mode.\<close>

lemma serve_mode:
  assumes "reads_only w" and "serve ops rq w = Some w'"
  shows "same_mode w w'"
proof (cases rq)
  case (RqLookup p n)
  then show ?thesis
    using assms(2) mode_load [of w ops p]
    by (auto simp: fs_lookup_def Let_def mode.same split: option.splits)
next
  case (RqReaddir cap i off)
  then show ?thesis using assms(2) mode_load [of w ops i] by (auto simp: fs_readdir_def Let_def)
next
  case (RqRead views i fh off sz)
  then show ?thesis using assms(2) by (auto dest: mode.reads_read)
next
  case (RqRelease fh)
  then show ?thesis
    using assms reads_onlyD(2) [OF assms(1), of fh]
    by (auto simp: fs_release_def drop_read_cache_if_unused_def same_mode_def Let_def split: option.splits if_splits)
next
  case (RqEvent order epoch p)
  then show ?thesis using assms(2) mode_event [of w order epoch p] by auto
next
  case RqFiller
  then show ?thesis
    using assms(2) quiet_filler [of "w\<lparr>fs_fillers := t\<rparr>" ops for t]
    by (auto simp: next_filler_def same_mode_def quiet_def split: list.splits)
qed (use assms reads_onlyD(1) [OF assms(1)] in \<open>auto simp: fs_getattr_def fs_setattr_def fs_opendir_def fs_statfs_def
    fs_open_def fs_write_def fs_create_def fs_mkdir_def fs_unlink_def fs_rmdir_def fs_rename_def Let_def
    alloc_fh_def same_mode_def split: option.splits if_splits\<close>)

text \<open>Nor does it reach a writing operation of the device.\<close>

lemma serve_blind:
  assumes "reads_only w"
  shows "serve (writing_with other ops) rq w = serve ops rq w"
proof (cases rq)
  case (RqRelease fh)
  then show ?thesis using reads_onlyD(2) [OF assms, of fh] by (simp add: fs_release_def)
next
  case RqFiller
  then show ?thesis by (simp add: next_filler_def blind split: list.split)
next
  case (RqLookup p n)
  then show ?thesis by (simp only: serve.simps fs_lookup_def blind)
next
  case (RqOpen write_only i)
  then show ?thesis by (simp only: serve.simps fs_open_def blind)
qed (use reads_onlyD(1) [OF assms] in \<open>simp_all add: fs_readdir_def fs_setattr_def fs_write_def
    fs_create_def fs_mkdir_def fs_unlink_def fs_rmdir_def fs_rename_def blind\<close>)

section \<open>Properties\<close>

text \<open>
  C6. A read-only mount cannot change the device: whatever requests, events and downloads come,
  in any order, serving them is equivalent to serving them on a device whose upload, delete,
  rename, move and create-folder operations are anything else.
\<close>

theorem read_only_mount_never_writes:
  assumes "fs_read_only w" and "fs_write_buf w = wb_new"
  shows "serve_all (writing_with other ops) rqs w = serve_all ops rqs w"
proof -
  have "reads_only w \<Longrightarrow> serve_all (writing_with other ops) rqs w = serve_all ops rqs w" for w
  proof (induction rqs arbitrary: w)
    case (Cons rq rqs)
    have "reads_only v" if "serve ops rq w = Some v" for v
      using reads_only_mode [OF serve_mode [OF Cons.prems that] Cons.prems] .
    then show ?case by (cases "serve ops rq w") (simp_all add: serve_blind [OF Cons.prems] Cons.IH)
  qed simp
  then show ?thesis using assms by (simp add: reads_only_def)
qed

theorem read_only_mount_never_writes_witness:
  "let wiping = demo_ops\<lparr>op_delete := (\<lambda>s h d. (Inr (), d\<lparr>dd_objects := []\<rparr>))\<rparr>;
       w = demo_mount\<lparr>fs_read_only := True\<rparr>
   in serve_all (writing_with wiping demo_ops) [RqLookup 2 (Some ''a.txt''), RqUnlink 2 (Some ''a.txt'')] w =
      serve_all demo_ops [RqLookup 2 (Some ''a.txt''), RqUnlink 2 (Some ''a.txt'')] w"
  unfolding Let_def
  by (rule read_only_mount_never_writes) (simp_all add: demo_mount_def demo_fs_def fs_new_def)

text \<open>
  Truncating an open descriptor to nothing and closing it: both calls succeed and nothing is
  sent to the device, because the buffer is replaced by a clean one.
\<close>

theorem truncated_close_uploads_nothing:
  assumes "fs_setattr ops i (Some 0) (Some fh) w = (Reply a, v)"
  shows "fst (fs_release ops fh v) = Reply () \<and> fs_env (snd (fs_release ops fh v)) = fs_env v \<and> fa_size a = 0"
proof -
  obtain r u where t: "truncate_buffer ops fh i 0 w = (r, u)" by fastforce
  with assms have r: "r = Inr ()" "v = u" "fa_size a = 0"
    by (auto simp: fs_setattr_def sized_attr_def split: sum.splits option.splits if_splits)
  have "wb_buffers (snd (wb_close fh wb)) fh = None" for wb
    by (simp add: wb_close_def wb_flush_def)
  then obtain x where x: "open_buffer ops fh i 0 x = (Inr (), u)" "wb_buffers (fs_write_buf x) fh = None"
    using t r(1) by (auto simp: truncate_buffer_def elim!: bind_op_InrE)
  obtain out y where a: "ask (env_disk ops) x = (out, y)" by fastforce
  then have "fs_write_buf y = fs_write_buf x" by (auto simp: ask_def split: prod.splits)
  with x a have b: "\<exists>b. wb_buffers (fs_write_buf u) fh = Some b \<and> \<not> fb_dirty b"
    by (cases out) (auto simp: open_buffer_def wb_open_def fb_new_def with_storage_def)
  then show ?thesis
    using r(2,3)
    by (auto simp: fs_release_def wb_is_open_def flush_to_mtp_def wb_close_def wb_flush_def drop_read_cache_if_unused_def Let_def
        split: option.split)
qed

end
