(* ===== verification/Tree_Facts.thy ===== *)
theory Tree_Facts
  imports Mount_Facts
begin

text \<open>
  The mount drives its inode table by the table's own steps (\<open>tab_step\<close> of \<open>Inode\<close>),
  with one exception: a close whose safe upload is cut short after the upload writes the
  temporary name into the entry past the table (\<open>left_over\<close>). So what is proved of the tables
  those steps reach holds of a mount that serves requests until such a close.
\<close>

section \<open>Requests as steps of the table\<close>

definition steps :: "inode_table \<Rightarrow> inode_table \<Rightarrow> bool" where
  "steps t t' \<longleftrightarrow> tab_step\<^sup>*\<^sup>* t t'"

lemma steps_refl [simp]: "steps t t"
  by (simp add: steps_def)

lemma steps_trans: "steps t u \<Longrightarrow> steps u v \<Longrightarrow> steps t v"
  by (simp add: steps_def)

lemma steps_one: "tab_step t t' \<Longrightarrow> steps t t'"
  by (simp add: steps_def)

definition tree_moves :: "('dev, 's, 'd) mtp_fs \<Rightarrow> ('dev, 's, 'd) mtp_fs \<Rightarrow> bool" where
  "tree_moves w w' \<longleftrightarrow> same_mount w w' \<and> steps (fs_inodes w) (fs_inodes w')"

lemma remap_steps: "steps t (remap_storages ss pos is t)"
  by (induction ss pos "is" t rule: remap_storages.induct)
    (auto split: option.splits intro: steps_trans [OF steps_one [OF remapped]])

definition tree_grows :: "('dev, 's, 'd) mtp_fs \<Rightarrow> ('dev, 's, 'd) mtp_fs \<Rightarrow> bool" where
  "tree_grows w w' \<longleftrightarrow> steps (fs_inodes w) (fs_inodes w')"

lemma adopted_steps: "steps t (bump_generation (remap_storages ss 0 is t))"
  using remap_steps steps_one [OF new_session] by (rule steps_trans)

interpretation grows: reading_frame tree_grows ops for ops
  by unfold_locales
    (auto simp: tree_grows_def adopted_steps invalidate_handles_def give_up_def upd_inodes_def quiet_def
      intro: steps_trans steps_one [OF new_session] steps_one [OF resolved])

interpretation tracks: resolving_frame tree_moves ops for ops
  by unfold_locales
    (auto simp: tree_moves_def survives.same survives.env survives.any_forget survives.any_quit survives.any_adopted
      survives.resolved [unfolded upd_inodes_def] adopted_steps upd_inodes_def
      intro: survives.chain steps_trans grows.any_forget [unfolded tree_grows_def] grows.any_quit [unfolded tree_grows_def]
        steps_one [OF resolved])

text \<open>The files of a folder fit the numbers left.\<close>

definition folders_within :: "nat \<Rightarrow> ('dev, 's, 'd) mtp_ops \<Rightarrow> bool" where
  "folders_within n ops \<longleftrightarrow>
     (\<forall>s p d obs d'. op_list ops s p d = (Inr obs, d') \<longrightarrow> length obs \<le> n)"

lemma tree_next: "tree_moves w w' \<Longrightarrow> next_inode (fs_inodes w') = next_inode (fs_inodes w)"
  by (auto simp: tree_moves_def same_mount_def mount_view_def skeleton_def)

lemma reach_steps: "tab_step\<^sup>*\<^sup>* it_new t \<Longrightarrow> steps t t' \<Longrightarrow> tab_step\<^sup>*\<^sup>* it_new t'"
  by (simp add: steps_def)

text \<open>No directory is its own child.\<close>

definition loopless :: "inode_table \<Rightarrow> bool" where
  "loopless t \<longleftrightarrow> (\<forall>p n. \<not> sits t p n p)"

lemma loopless_placed:
  assumes "placed i e t t'" and "i \<noteq> ROOT_INODE" and "loopless t" and "ie_parent e \<noteq> i"
  shows "loopless t'"
  using assms(3,4) unfolding loopless_def by (auto simp: placed_sits [OF assms(1,2)])

lemma loopless_step: "tab_step t t' \<Longrightarrow> tab_wf t \<Longrightarrow> loopless t \<Longrightarrow> loopless t'"
proof (induction rule: tab_step.induct)
  case (object_added t p h n dir sz mtime)
  let ?c = "\<lparr>ci_handle = h, ci_name = n, ci_is_dir = dir, ci_size = sz, ci_mtime = mtime\<rparr>"
  have "placed (next_inode t) (child_entry p ?c (next_inode t) (generation t))
      (t\<lparr>next_inode := next_inode t + 1\<rparr>) (add_child p ?c t)"
    using object_added by (intro add_child_wf(2))
  then have "loopless (add_child p ?c t)"
    by (rule loopless_placed) (use object_added next_fresh(3) in \<open>auto simp: loopless_def\<close>)
  then show ?case by (simp add: add_child_def)
next
  case (storage_added t sid n now)
  have "\<exists>e. snd (add_storage_at sid n now t) = snd (insert_entry e (t\<lparr>next_inode := next_inode t + 1\<rparr>)) \<and>
      ie_inode e = next_inode t \<and> ie_kind e \<noteq> Root \<and> ie_parent e = ROOT_INODE"
    by (auto simp: add_storage_at_def alloc_inode_def)
  then obtain e where e: "snd (add_storage_at sid n now t) = snd (insert_entry e (t\<lparr>next_inode := next_inode t + 1\<rparr>))"
    "ie_inode e = next_inode t" "ie_kind e \<noteq> Root" "ie_parent e = ROOT_INODE" by blast
  have "ROOT_INODE < next_inode t" using tab_wf_root [OF storage_added(2)] tab_wf_entry [OF storage_added(2)] by blast
  then have "placed (next_inode t) e (t\<lparr>next_inode := next_inode t + 1\<rparr>) (snd (add_storage_at sid n now t))"
    using e storage_added by (auto intro: new_number(2))
  then show ?case
    by (rule loopless_placed) (use e storage_added next_fresh(3) [OF storage_added(2)] in \<open>auto simp: loopless_def\<close>)
next
  case (listed cs t p)
  have c: "\<not> child_of t p p" using listed by simp
  note s = sync_children_facts [OF listed(4,1,2) c]
  have "False" if at: "sits (sync_children p cs t) q m q" for q m
  proof (cases "q = p")
    case True
    with at have "p \<noteq> ROOT_INODE" by (simp add: sits_def)
    then obtain r k where r: "sits t r k p" using listed(2) by (auto simp: sits_def)
    then have "r \<noteq> p" using listed(5) by (auto simp: loopless_def)
    then have "sits (sync_children p cs t) r k p" using r s(5) [OF r] by (auto simp: sits_def)
    then show False using at True \<open>r \<noteq> p\<close> by (auto dest: sits_place)
  next
    case False
    then have "sits t q m q" using at s(4) [of q m] tab_wf_lookup [OF s(1)] tab_wf_lookup [OF listed(4)] by metis
    then show False using listed(5) by (simp add: loopless_def)
  qed
  then show ?case by (auto simp: loopless_def)
next
  case (removed i t)
  then show ?case by (cases "entries t i") (auto simp: loopless_def remove_sits)
next
  case (renamed i p t n)
  show ?case
  proof (cases "entries t i")
    case None
    then show ?thesis using renamed by (simp add: rename_entry_def)
  next
    case (Some e)
    have "p \<noteq> i" using renamed(3) at_or_below.itself by blast
    then show ?thesis
      by (intro loopless_placed [OF rename_entry_eq(1) [OF renamed(4) Some renamed(1), where p = p and n = n] renamed(1)])
        (simp_all add: renamed)
  qed
next
  case (new_session t)
  then show ?case by (simp add: loopless_def sits_def)
next
  case (uploaded t i h' h sz now)
  then show ?case by (auto simp: loopless_def sits_def)
qed (simp_all add: loopless_def set_handle_wf(2) set_storage_id_wf(2))

lemma loopless_reach: "tab_step\<^sup>*\<^sup>* it_new t \<Longrightarrow> loopless t"
proof (induction rule: rtranclp_induct)
  case (step t t')
  then show ?case using loopless_step tab_reach_wf by blast
qed (auto simp: loopless_def sits_def it_new_def)

lemma own_child: "tab_step\<^sup>*\<^sup>* it_new t \<Longrightarrow> \<not> child_of t p p"
  using loopless_reach by (auto simp: loopless_def child_of_def)

lemma load_steps:
  assumes "folders_within n ops" and "room n (fs_inodes w)" and reach: "tab_step\<^sup>*\<^sup>* it_new (fs_inodes w)"
  shows "steps (fs_inodes w) (fs_inodes (load_dir ops p w))"
proof -
  obtain r v where rec: "with_recovery ops (\<lambda>_. list_into_table ops p) w = (r, v)" by fastforce
  have err: "tree_moves s s'" if "list_into_table ops p s = (Inl e, s')" for s e s'
    using that by (cases rule: tracks.listing_cases) auto
  have out: "case r of Inr x \<Rightarrow> \<exists>u. tree_moves w u \<and> list_into_table ops p u = (Inr x, v) | Inl e \<Rightarrow> tree_moves w v"
    using tracks.recovered [where attempt = "\<lambda>_. list_into_table ops p", OF err rec] by (auto split: sum.splits)
  have "steps (fs_inodes w) (fs_inodes v)"
  proof (cases r)
    case (Inl e)
    then show ?thesis using out by (simp add: tree_moves_def)
  next
    case (Inr x)
    then obtain u where u: "tree_moves w u" "list_into_table ops p u = (Inr x, v)" using out by auto
    from u(2) show ?thesis
    proof (cases rule: tracks.listing_cases)
      case (listed y s mp d d' objects)
      have wy: "tree_moves w y" using tracks.chain [OF u(1) listed(2)] .
      have "room (length (map child_of_object objects)) (fs_inodes y)"
        using assms(1,2) listed(5) tree_next [OF wy] by (force simp: folders_within_def room_def)
      moreover have "\<not> child_of (fs_inodes y) p p"
        using reach wy by (intro own_child) (auto simp: tree_moves_def intro: reach_steps)
      ultimately have "tab_step (fs_inodes y) (fs_inodes v)"
        using listed(4,6) by (auto simp: upd_inodes_def intro: tab_step.listed)
      then show ?thesis using wy by (auto simp: tree_moves_def intro: steps_trans steps_one)
    qed (use Inr in simp)
  qed
  then show ?thesis using rec by (auto simp: load_dir_def split: sum.splits)
qed

section \<open>One request\<close>

text \<open>The kernel moves nothing below itself.\<close>

definition kernel_checked :: "('dev, 's, 'd) mtp_fs \<Rightarrow> request \<Rightarrow> bool" where
  "kernel_checked w rq \<longleftrightarrow>
     (case rq of
        RqRename p (Some n) q (Some m) \<Rightarrow>
          (case lookup (fs_inodes w) p n of Some i \<Rightarrow> \<not> at_or_below (fs_inodes w) i q | None \<Rightarrow> True)
      | _ \<Rightarrow> True)"

text \<open>
  What a close leaves when the old object could not be deleted or the new one not renamed: a
  table of the usual steps in which one file has got its temporary name, and the name index
  has not been told.
\<close>

definition same_names :: "inode_table \<Rightarrow> inode_table \<Rightarrow> bool" where
  "same_names t t' \<longleftrightarrow> (\<forall>i. map_option ie_name (entries t' i) = map_option ie_name (entries t i))"

definition renamed_in_place :: "inode \<Rightarrow> inode_table \<Rightarrow> inode_table" where
  "renamed_in_place i t = update_entry i (\<lambda>e. e\<lparr>ie_name := temp_upload_name (ie_name e)\<rparr>) t"

definition left_over :: "inode_table \<Rightarrow> inode_table \<Rightarrow> bool" where
  "left_over t t' \<longleftrightarrow>
     (\<exists>u i. steps t u \<and> same_names t u \<and> entries u i \<noteq> None \<and> t' = renamed_in_place i u)"

lemma parent_of_skeleton: "skeleton t' = skeleton t \<Longrightarrow> parent_of t' = parent_of t"
proof
  fix i
  assume sk: "skeleton t' = skeleton t"
  show "parent_of t' i = parent_of t i"
  proof (cases "entries t i")
    case None
    then show ?thesis using skeletonD(4) [OF sk, of i] by (simp add: parent_of_def)
  next
    case (Some e)
    obtain e' where "entries t' i = Some e'" "identity e' = identity e" using skeleton_entry [OF sk Some] .
    with Some identity_sel [of e' e] show ?thesis by (simp add: parent_of_def)
  qed
qed

lemma at_or_below_skeleton:
  assumes "skeleton t' = skeleton t" and "at_or_below t' i j"
  shows "at_or_below t i j"
  using assms(2) by induction (auto simp: parent_of_skeleton [OF assms(1)] intro: at_or_below.intros)

lemma ask_inodes: "ask f w = (a, w') \<Longrightarrow> fs_inodes w' = fs_inodes w"
  by (auto simp: ask_def split: prod.splits)

lemma open_buffer_inodes: "open_buffer ops fh i orig w = (r, w') \<Longrightarrow> fs_inodes w' = fs_inodes w"
  by (auto simp: open_buffer_def Let_def dest: ask_inodes split: prod.splits)

lemma ensure_buffer_inodes: "ensure_buffer ops fh i w = (r, w') \<Longrightarrow> fs_inodes w' = fs_inodes w"
  by (auto simp: ensure_buffer_def dest: open_buffer_inodes split: if_splits)

lemma truncate_inodes:
  assumes "truncate_buffer ops fh i sz w = (r, w')"
  shows "fs_inodes w' = fs_inodes w"
proof -
  obtain q v where "ensure_buffer ops fh i w = (q, v)" by fastforce
  with assms show ?thesis
    by (cases q) (auto simp: truncate_buffer_def dest!: ensure_buffer_inodes open_buffer_inodes split: if_splits)
qed

lemma live_number: "tab_wf t \<Longrightarrow> entries t p \<noteq> None \<Longrightarrow> p < next_inode t"
  using tab_wf_entry by blast

lemma dir_live: "is_dir_at p w \<Longrightarrow> entries (fs_inodes w) p \<noteq> None"
  by (auto simp: is_dir_at_def split: option.splits)

lemma changing_ops:
  "within tree_moves (create_empty ops p n)" "within tree_moves (create_dir ops p n)"
  "within tree_moves (delete_object ops (file_handle ops i) j)"
  "within tree_moves (delete_object ops (any_object_handle ops i) j)"
  "within tree_moves (rename_object ops i n)" "within tree_moves (relocate_object ops i p)"
  unfolding create_empty_def create_dir_def delete_object_def rename_object_def relocate_object_def
  by (intro tracks.session_within)+

lemma changing_runs:
  "with_recovery ops (\<lambda>_. create_empty ops p n) w = (r, w') \<Longrightarrow> tree_moves w w'"
  "with_recovery ops (\<lambda>_. create_dir ops p n) w = (r, w') \<Longrightarrow> tree_moves w w'"
  "with_recovery ops (\<lambda>_. delete_object ops (file_handle ops i) j) w = (r', w') \<Longrightarrow> tree_moves w w'"
  "with_recovery ops (\<lambda>_. delete_object ops (any_object_handle ops i) j) w = (r', w') \<Longrightarrow> tree_moves w w'"
  "with_recovery ops (\<lambda>_. rename_object ops i n) w = (r', w') \<Longrightarrow> tree_moves w w'"
  "with_recovery ops (\<lambda>_. relocate_object ops i q) w = (r', w') \<Longrightarrow> tree_moves w w'"
  by (rule withinD [OF tracks.with_recoveries], rule changing_ops, assumption)+

lemma add_new_steps:
  assumes "add_new ops p h n dir w = (i, w')" and "room 1 (fs_inodes w)" and "p < next_inode (fs_inodes w)"
  shows "steps (fs_inodes w) (fs_inodes w')"
proof -
  obtain now v where a: "ask (env_now ops) w = (now, v)" by fastforce
  have "fs_inodes w' = snd (add_object p h n dir 0 now (fs_inodes w))"
    using assms(1) a ask_inodes [OF a] by (auto simp: add_new_def split: prod.splits)
  then show ?thesis using object_added [OF assms(2,3)] by (simp add: steps_one)
qed

lemma created_steps:
  assumes moves: "tree_moves w v" and wf: "tab_wf (fs_inodes w)" and rm: "room 1 (fs_inodes w)" and p: "is_dir_at p w"
    and new: "add_new ops p h n dir v = (i, w')"
  shows "steps (fs_inodes w) (fs_inodes w')"
proof -
  have "steps (fs_inodes v) (fs_inodes w')"
    using new rm live_number [OF wf dir_live [OF p]] tree_next [OF moves]
    by (intro add_new_steps) (simp_all add: room_def)
  then show ?thesis using moves by (auto simp: tree_moves_def intro: steps_trans)
qed

section \<open>Uploads\<close>

lemma moves_ask: "ask f w = (a, w') \<Longrightarrow> tree_moves w w'"
  by (auto simp: ask_def tracks.env split: prod.splits)

lemmas moves_storage = withinD [OF tracks.on_storages]

lemma moves_upload: "upload_file ops idx parent n sz content w = (r, w') \<Longrightarrow> tree_moves w w'"
  by (auto simp: upload_file_def split: prod.splits dest!: moves_ask moves_storage intro: tracks.chain)

lemma moves_delete_all: "tree_moves w (delete_all ops idx obs w)"
proof (induction obs arbitrary: w)
  case (Cons ob obs)
  obtain r v where "on_storage idx (\<lambda>s. op_delete ops s (ob_handle ob)) w = (r, v)" by fastforce
  with moves_storage [OF this] Cons.IH [of v] show ?case by (auto intro: tracks.chain)
qed (simp add: tracks.same)

lemma moves_purge: "tree_moves w (purge_leftover ops idx parent n w)"
proof -
  obtain r v where l: "on_storage idx (\<lambda>s. op_list ops s parent) w = (r, v)" by fastforce
  then show ?thesis
    using moves_storage [OF l] moves_delete_all [of v ops idx]
    by (auto simp: purge_leftover_def split: sum.split intro: tracks.chain)
qed

text \<open>The entry of a file, by its name.\<close>

definition file_at :: "inode \<Rightarrow> string \<Rightarrow> ('dev, 's, 'd) mtp_fs \<Rightarrow> bool" where
  "file_at i n w \<longleftrightarrow> (\<exists>e h. entries (fs_inodes w) i = Some e \<and> ie_name e = n \<and> ie_kind e = File h)"

lemma moves_names: "tree_moves w w' \<Longrightarrow> same_names (fs_inodes w) (fs_inodes w')"
  unfolding same_names_def
proof
  fix i
  assume "tree_moves w w'"
  then have "skeleton (fs_inodes w') = skeleton (fs_inodes w)" by (simp add: tree_moves_def same_mountD(1))
  from skeletonD(4) [OF this, of i]
  show "map_option ie_name (entries (fs_inodes w') i) = map_option ie_name (entries (fs_inodes w) i)"
    by (auto simp: map_option_case dest: identity_sel split: option.splits)
qed

lemma moves_named:
  "tree_moves w w' \<Longrightarrow> entries (fs_inodes w) i = Some e \<Longrightarrow> \<exists>e'. entries (fs_inodes w') i = Some e' \<and> ie_name e' = ie_name e"
  using moves_names [of w w'] unfolding same_names_def by (metis map_option_eq_Some)

lemma file_handle_file: "file_handle ops i w = (Inr h, w') \<Longrightarrow> \<exists>n. file_at i n w'"
  by (auto simp: file_handle_def file_at_def lift_opt_def elim!: bind_op_InrE split: option.splits inode_kind.splits)

lemma file_at_moves:
  assumes "tree_moves w w'" and "file_at i n w"
  shows "file_at i n w'"
proof -
  obtain e h where e: "entries (fs_inodes w) i = Some e" "ie_name e = n" "ie_kind e = File h"
    using assms(2) by (auto simp: file_at_def)
  have "skeleton (fs_inodes w') = skeleton (fs_inodes w)" using assms(1) by (simp add: tree_moves_def same_mountD(1))
  then obtain e' where "entries (fs_inodes w') i = Some e'" "identity e' = identity e" using skeleton_entry [OF _ e(1)] by blast
  then show ?thesis using identity_sel [of e' e] e(2,3) by (cases "ie_kind e'") (auto simp: file_at_def)
qed

text \<open>How a flush may leave the table.\<close>

definition flushed :: "('dev, 's, 'd) mtp_fs \<Rightarrow> ('dev, 's, 'd) mtp_fs \<Rightarrow> bool" where
  "flushed w w' \<longleftrightarrow> steps (fs_inodes w) (fs_inodes w') \<or> left_over (fs_inodes w) (fs_inodes w')"

lemma moves_flushed: "tree_moves w w' \<Longrightarrow> flushed w w'"
  by (simp add: flushed_def tree_moves_def)

lemma flushed_after:
  assumes "tree_moves u v" and "flushed v w"
  shows "flushed u w"
proof -
  have s: "steps (fs_inodes u) (fs_inodes v)" using assms(1) by (simp add: tree_moves_def)
  moreover have "same_names (fs_inodes u) t" if "same_names (fs_inodes v) t" for t
    using moves_names [OF assms(1)] that by (simp add: same_names_def)
  ultimately show ?thesis
    using assms(2) by (auto simp: flushed_def left_over_def dest: steps_trans [OF s])
qed

lemma record_flushed:
  assumes "file_at i n w" and "new = None \<or> new = Some (temp_upload_name n)"
  shows "flushed w (record_upload ops i h new sz w)"
proof -
  obtain e h' where e: "entries (fs_inodes w) i = Some e" "ie_name e = n" "ie_kind e = File h'"
    using assms(1) by (auto simp: file_at_def)
  obtain now v where a: "ask (env_now ops) w = (now, v)" by fastforce
  have order: "e\<lparr>ie_kind := k, ie_name := m, ie_size := sz, ie_mtime := t\<rparr> =
      e\<lparr>ie_kind := k, ie_size := sz, ie_mtime := t, ie_name := m\<rparr>" for e :: inode_entry and k m t
    by (cases e) simp
  define u where "u = update_entry i (\<lambda>e. e\<lparr>ie_kind := File h, ie_size := sz, ie_mtime := now\<rparr>) (fs_inodes w)"
  have "steps (fs_inodes w) u" using uploaded [of "fs_inodes w" i h'] e by (auto simp: u_def intro: steps_one)
  moreover have "same_names (fs_inodes w) u" "entries u i \<noteq> None" using e by (simp_all add: u_def same_names_def)
  moreover have "fs_inodes (record_upload ops i h new sz w) = (if new = None then u else renamed_in_place i u)"
    using e a ask_inodes [OF a] assms(2)
    by (auto simp: record_upload_def upd_inodes_def u_def renamed_in_place_def update_entry_def order)
  ultimately show ?thesis by (auto simp: flushed_def left_over_def)
qed

text \<open>A flush that fails has only moved the tree.\<close>

lemma flush_fails:
  "flush_safe ops i h idx parent e sz content w = (Inl err, w') \<Longrightarrow> tree_moves w w'"
  "flush_unsafe ops i h idx parent e sz content w = (Inl err, w') \<Longrightarrow> tree_moves w w'"
  by (auto simp: flush_safe_def flush_unsafe_def Let_def split: prod.splits sum.splits
      dest!: moves_storage moves_upload intro: tracks.chain)

lemma flush_safe_flushed:
  assumes at: "file_at i (ie_name e) w" and run: "flush_safe ops i h idx parent e sz content w = (r, w')"
  shows "flushed w w'"
proof -
  obtain q1 v1 where u: "upload_file ops idx parent (temp_upload_name (ie_name e)) sz content w = (q1, v1)" by fastforce
  have m1: "tree_moves w v1" by (rule moves_upload [OF u])
  show ?thesis
  proof (cases q1)
    case (Inl err)
    then show ?thesis using run u moves_flushed [OF m1] by (auto simp: flush_safe_def)
  next
    case (Inr nh)
    obtain q2 v2 where d: "on_storage idx (\<lambda>s. op_delete ops s h) v1 = (q2, v2)" by fastforce
    obtain q3 v3 where n: "on_storage idx (\<lambda>s. op_rename ops s nh (ie_name e)) v2 = (q3, v3)" by fastforce
    have m: "tree_moves w v2" "tree_moves w v3" using m1 moves_storage [OF d] moves_storage [OF n] by (blast intro: tracks.chain)+
    have rec: "flushed w (record_upload ops i nh new sz v)" if "tree_moves w v" "new = None \<or> new = Some (temp_upload_name (ie_name e))"
      for new v
      by (rule flushed_after [OF that(1) record_flushed [OF file_at_moves [OF that(1) at] that(2)]])
    show ?thesis
      using run u Inr d n rec [OF m(1), of "Some (temp_upload_name (ie_name e))"] rec [OF m(2)]
      by (cases q2; cases q3) (auto simp: flush_safe_def)
  qed
qed

lemma flush_unsafe_flushed:
  assumes at: "file_at i n w" and run: "flush_unsafe ops i h idx parent e sz content w = (r, w')"
  shows "flushed w w'"
proof -
  have rec: "flushed w (record_upload ops i nh None sz v)" if "tree_moves w v" for v nh
    by (rule flushed_after [OF that record_flushed [OF file_at_moves [OF that at]]]) simp
  show ?thesis
    using run by (auto simp: flush_unsafe_def split: prod.splits sum.splits
        dest!: moves_storage moves_upload intro: rec tracks.chain moves_flushed)
qed

lemma flush_once_cases:
  assumes "flush_once ops i e sz content retry w = (r, w')"
  obtains (early) err where "r = Inl err" "tree_moves w w'"
  | (sent) h idx parent v n where "tree_moves w v" "file_at i n v"
      "flush_safe ops i h idx parent e sz content v = (r, w') \<or> flush_unsafe ops i h idx parent e sz content v = (r, w')"
proof -
  obtain q1 v1 where h: "file_handle ops i w = (q1, v1)" by fastforce
  obtain q2 v2 where s: "storage_index i v1 = (q2, v2)" by fastforce
  obtain q3 v3 where p: "parent_handle ops (ie_parent e) v2 = (q3, v3)" by fastforce
  have m: "tree_moves w v1" "tree_moves v1 v2" "tree_moves v2 v3"
    using withinD [OF tracks.handles(1) h] withinD [OF tracks.storage_indices s] withinD [OF tracks.handles(3) p] by blast+
  have w: "tree_moves w v2" "tree_moves w v3" "tree_moves v1 v3" using m by (blast intro: tracks.chain)+
  show thesis
  proof (cases "isl q1 \<or> isl q2 \<or> isl q3")
    case True
    then show ?thesis using assms h s p m(1) w early by (cases q1; cases q2; cases q3) (auto simp: flush_once_def)
  next
    case False
    then obtain handle idx parent where q: "q1 = Inr handle" "q2 = Inr idx" "q3 = Inr parent" by (metis isl_def sum.exhaust)
    define v4 where "v4 = (if retry \<and> op_renames ops (fs_device v3)
      then purge_leftover ops idx parent (temp_upload_name (ie_name e)) v3 else v3)"
    have m4: "tree_moves v3 v4" using moves_purge tracks.same by (auto simp: v4_def)
    obtain n where "file_at i n v1" using file_handle_file h q(1) by blast
    then have "file_at i n v4" using w(3) m4 by (blast intro: file_at_moves)
    moreover have "flush_safe ops i handle idx parent e sz content v4 = (r, w') \<or>
        flush_unsafe ops i handle idx parent e sz content v4 = (r, w')"
      using assms h s p q by (simp add: flush_once_def v4_def Let_def split: if_splits)
    ultimately show ?thesis by (rule sent [OF tracks.chain [OF w(2) m4]])
  qed
qed

lemma file_step_moves: "within tree_moves (file_step ops)"
  by (rule withinI) (auto simp: file_step_def dest!: moves_ask split: prod.splits io_outcome.splits)

lemma flush_attempt_cases:
  assumes "flush_attempt ops i e content k w = (r, w')"
  obtains (early) err where "r = Inl err" "tree_moves w w'"
  | (sent) h idx parent v n where "tree_moves w v" "file_at i n v"
      "flush_safe ops i h idx parent e (of_nat (length content)) content v = (r, w') \<or>
       flush_unsafe ops i h idx parent e (of_nat (length content)) content v = (r, w')"
proof -
  obtain q1 v1 where a: "file_step ops w = (q1, v1)" by fastforce
  obtain q2 v2 where b: "file_step ops v1 = (q2, v2)" by fastforce
  have m: "tree_moves w v1" "tree_moves v1 v2" using withinD [OF file_step_moves a] withinD [OF file_step_moves b] by blast+
  have w: "tree_moves w v2" using m by (rule tracks.chain)
  show thesis
  proof (cases "isl q1 \<or> isl q2")
    case True
    then show ?thesis using assms a b m(1) w early by (cases q1; cases q2) (auto simp: flush_attempt_def)
  next
    case False
    then have "flush_once ops i e (of_nat (length content)) content (k > 0) v2 = (r, w')"
      using assms a b by (cases q1; cases q2) (auto simp: flush_attempt_def)
    then show ?thesis
    proof (cases rule: flush_once_cases)
      case early': (early err)
      then show ?thesis using early tracks.chain [OF w] by blast
    next
      case sent': (sent h idx parent v n)
      then show ?thesis using sent tracks.chain [OF w] by blast
    qed
  qed
qed

lemma flush_attempt_fails:
  assumes "flush_attempt ops i e content k w = (Inl err, w')"
  shows "tree_moves w w'"
  using assms
proof (cases rule: flush_attempt_cases)
  case (sent h idx parent v n)
  then show ?thesis by (auto dest: flush_fails intro: tracks.chain)
qed simp

lemma upload_flushed:
  assumes e: "entries (fs_inodes w) i = Some e" and run: "with_recovery ops (flush_attempt ops i e content) w = (r, w')"
  shows "flushed w w'"
proof -
  have out: "case r of Inr v \<Rightarrow> \<exists>k u. tree_moves w u \<and> flush_attempt ops i e content k u = (Inr v, w') | Inl e \<Rightarrow> tree_moves w w'"
    by (rule tracks.recovered [OF _ run]) (rule flush_attempt_fails)
  show ?thesis
  proof (cases r)
    case (Inl err)
    then show ?thesis using out by (simp add: moves_flushed)
  next
    case (Inr x)
    then obtain k u where u: "tree_moves w u" "flush_attempt ops i e content k u = (Inr x, w')" using out by auto
    from u(2) have "flushed u w'"
    proof (cases rule: flush_attempt_cases)
      case (sent h idx parent v n)
      have "n = ie_name e" using moves_named [OF tracks.chain [OF u(1) sent(1)] e] sent(2) by (auto simp: file_at_def)
      then have "flushed v w'" using sent(2,3) by (auto intro: flush_safe_flushed flush_unsafe_flushed)
      then show ?thesis by (rule flushed_after [OF sent(1)])
    qed simp
    then show ?thesis by (rule flushed_after [OF u(1)])
  qed
qed

lemma flush_flushed:
  assumes "flush_to_mtp ops fh w = (r, w')"
  shows "flushed w w'"
proof -
  obtain b wb where c: "wb_close fh (fs_write_buf w) = (b, wb)" by fastforce
  define v where "v = w\<lparr>fs_write_buf := wb\<rparr>"
  obtain q u where f: "file_step ops v = (q, u)" by fastforce
  have same: "fs_inodes v = fs_inodes w" "fs_inodes u = fs_inodes w"
    using f by (auto simp: v_def file_step_def dest!: ask_inodes split: prod.splits io_outcome.splits)
  have none: "flushed w w'" if "fs_inodes w' = fs_inodes w" using that by (simp add: flushed_def)
  have sent: "flushed w w'" if "entries (fs_inodes w) i = Some e" "with_recovery ops (flush_attempt ops i e content) u = (r, w')"
    for i e content
    using upload_flushed [OF _ that(2)] that(1) by (simp add: flushed_def same)
  show ?thesis
    using assms c f same
    by (auto simp: flush_to_mtp_def v_def [symmetric] Let_def intro: none sent split: option.splits if_splits sum.splits)
qed

lemma release_flushed: "flushed w (snd (fs_release ops fh w))"
proof -
  obtain q v where f: "(if wb_is_open (fs_write_buf w) fh then flush_to_mtp ops fh w else (Inr (), w)) = (q, v)"
    by fastforce
  then have "flushed w v" by (auto intro: flush_flushed simp: moves_flushed tracks.same split: if_splits)
  moreover have "fs_inodes (snd (fs_release ops fh w)) = fs_inodes v"
    by (simp add: fs_release_def f drop_read_cache_if_unused_def Let_def split: sum.split option.split)
  ultimately show ?thesis by (simp add: flushed_def)
qed

text \<open>A close that leaves every name as it was took the table's own steps.\<close>

lemma left_over_renames: "left_over t t' \<Longrightarrow> \<not> same_names t t'"
proof
  assume "left_over t t'" and same: "same_names t t'"
  then obtain u i e where u: "same_names t u" "entries u i = Some e" "t' = renamed_in_place i u"
    by (auto simp: left_over_def)
  have "map_option ie_name (entries t' i) = map_option ie_name (entries u i)"
    using same u(1) by (simp add: same_names_def)
  then show False by (simp add: u renamed_in_place_def temp_upload_name_def)
qed

lemma renamed_in_place_acyclic: "acyclic_tab t \<Longrightarrow> acyclic_tab (renamed_in_place i t)"
  unfolding renamed_in_place_def by (erule acyclic_update) simp

section \<open>Changes\<close>

lemma named_not_root: "tab_wf t \<Longrightarrow> lookup t p n = Some i \<Longrightarrow> i \<noteq> ROOT_INODE"
  by (auto simp: tab_wf_lookup sits_def)

lemma create_steps:
  assumes wf: "tab_wf (fs_inodes w)" and rm: "room 1 (fs_inodes w)"
  shows "tree_grows w (snd (fs_create ops p name w))" and "tree_grows w (snd (fs_mkdir ops p name w))"
proof -
  have moved: "tree_moves w v \<Longrightarrow> tree_grows w v" for v by (simp add: tree_moves_def tree_grows_def)
  have after: "tree_grows w y"
    if "with_recovery ops (\<lambda>_. create_empty ops p n) w = (Inr h, v) \<or> with_recovery ops (\<lambda>_. create_dir ops p n) w = (Inr h, v)"
      "is_dir_at p w" "add_new ops p h n dir v = (i, x)" "fs_inodes y = fs_inodes x" for n h v dir i x y
  proof -
    have "tree_moves w v" using that(1) changing_runs(1,2) by blast
    from created_steps [OF this wf rm that(2,3)] that(4) show ?thesis by (simp add: tree_grows_def)
  qed
  show "tree_grows w (snd (fs_create ops p name w))"
  proof (cases "fs_read_only w \<or> name = None \<or> \<not> is_dir_at p w")
    case False
    then obtain n where n: "name = Some n" "is_dir_at p w" "\<not> fs_read_only w" by auto
    obtain r v where c: "with_recovery ops (\<lambda>_. create_empty ops p n) w = (r, v)" by fastforce
    show ?thesis
    proof (cases r)
      case (Inl e)
      then show ?thesis using n c changing_runs(1) [OF c] by (simp add: fs_create_def moved)
    next
      case (Inr h)
      obtain i x where a: "add_new ops p h n False v = (i, x)" by fastforce
      obtain fh y where f: "alloc_fh x = (fh, y)" by fastforce
      obtain q z where o: "open_buffer ops fh i 0 (y\<lparr>fs_fh_to_inode := (fs_fh_to_inode y)(fh \<mapsto> i)\<rparr>) = (q, z)" by fastforce
      have "fs_inodes z = fs_inodes x" using open_buffer_inodes [OF o] f by (auto simp: alloc_fh_def)
      then have "tree_grows w z" using after c Inr a n(2) by blast
      then show ?thesis using n c Inr a f o by (auto simp: fs_create_def split: sum.split option.split)
    qed
  qed (auto simp: fs_create_def grows.same split: option.splits)
  show "tree_grows w (snd (fs_mkdir ops p name w))"
  proof (cases "fs_read_only w \<or> name = None \<or> \<not> is_dir_at p w")
    case False
    then obtain n where n: "name = Some n" "is_dir_at p w" "\<not> fs_read_only w" by auto
    obtain r v where c: "with_recovery ops (\<lambda>_. create_dir ops p n) w = (r, v)" by fastforce
    show ?thesis
    proof (cases r)
      case (Inl e)
      then show ?thesis using n c changing_runs(2) [OF c] by (simp add: fs_mkdir_def moved)
    next
      case (Inr h)
      obtain i x where a: "add_new ops p h n True v = (i, x)" by fastforce
      then have "tree_grows w x" using after c Inr n(2) by blast
      then show ?thesis using n c Inr a by (auto simp: fs_mkdir_def split: option.split)
    qed
  qed (auto simp: fs_mkdir_def grows.same split: option.splits)
qed

lemma removal_steps:
  assumes "tree_moves w v" and "i \<noteq> ROOT_INODE"
  shows "tree_grows w (upd_inodes (\<lambda>t. snd (remove_entry i t)) v)"
  using assms steps_one [OF removed [OF assms(2)]]
  by (auto simp: tree_moves_def tree_grows_def upd_inodes_def intro: steps_trans)

lemma remove_steps:
  assumes wf: "tab_wf (fs_inodes w)"
  shows "tree_grows w (snd (fs_unlink ops p name w))" and "tree_grows w (snd (fs_rmdir ops p name w))"
proof -
  have moved: "tree_moves w v \<Longrightarrow> tree_grows w v" for v by (simp add: tree_moves_def tree_grows_def)
  show "tree_grows w (snd (fs_unlink ops p name w))" "tree_grows w (snd (fs_rmdir ops p name w))"
    by (auto simp: fs_unlink_def fs_rmdir_def grows.same split: option.split sum.split prod.split
        dest!: changing_runs(3,4) intro: moved removal_steps [OF _ named_not_root [OF wf]])
qed

lemma renaming_steps:
  assumes wf: "tab_wf (fs_inodes w)" and rq: "kernel_checked w (RqRename p name q newname)"
  shows "tree_grows w (snd (fs_rename ops p name q newname w))"
proof (cases "fs_read_only w \<or> name = None \<or> newname = None \<or> lookup (fs_inodes w) p (the name) = None")
  case False
  then obtain n m i where n: "name = Some n" "newname = Some m" "lookup (fs_inodes w) p n = Some i" "\<not> fs_read_only w"
    by auto
  have moved: "tree_moves w v \<Longrightarrow> tree_grows w v" for v by (simp add: tree_moves_def tree_grows_def)
  show ?thesis
  proof (cases "is_object_at i w \<and> (p = q \<or> is_dir_at q w)")
    case True
    have q: "q < next_inode (fs_inodes w)"
    proof (cases "p = q")
      case True
      then show ?thesis using n(3) tab_wf_entry [OF wf] tab_wf_lookup [OF wf] by (auto simp: sits_def)
    next
      case False
      then show ?thesis using True live_number [OF wf dir_live] by blast
    qed
    obtain r1 v where a: "(if n \<noteq> m then with_recovery ops (\<lambda>_. rename_object ops i m) w else (Inr (), w)) = (r1, v)"
      by fastforce
    have 1: "tree_moves w v" using a changing_runs(5) by (auto simp: tracks.same split: if_splits)
    obtain r2 x where b: "(if p \<noteq> q then with_recovery ops (\<lambda>_. relocate_object ops i q) v else (Inr (), v)) = (r2, x)"
      by fastforce
    have "tree_moves v x" using b changing_runs(6) by (auto simp: tracks.same split: if_splits)
    with 1 have 2: "tree_moves w x" by (rule tracks.chain)
    have "\<not> at_or_below (fs_inodes w) i q" using rq n by (simp add: kernel_checked_def)
    then have "\<not> at_or_below (fs_inodes x) i q"
      using at_or_below_skeleton [of "fs_inodes x" "fs_inodes w" i q] 2 by (auto simp: tree_moves_def same_mountD(1))
    then have "tab_step (fs_inodes x) (rename_entry i q m (fs_inodes x))"
      using named_not_root [OF wf n(3)] q tree_next [OF 2] by (intro renamed) simp_all
    then have "tree_grows w (upd_inodes (rename_entry i q m) x)"
      using 2 by (auto simp: tree_moves_def tree_grows_def upd_inodes_def intro: steps_trans steps_one)
    moreover have "fs_rename ops p name q newname w =
        (case r1 of
           Inl e \<Rightarrow> (ReplyError EIO, v)
         | Inr _ \<Rightarrow> (case r2 of Inl e \<Rightarrow> (ReplyError EIO, x) | Inr _ \<Rightarrow> (Reply (), upd_inodes (rename_entry i q m) x)))"
    proof -
      have "(\<not> is_object_at i w) = False" "(p \<noteq> q \<and> \<not> is_dir_at q w) = False" "fs_read_only w = False"
        using True n(4) by auto
      then show ?thesis by (simp only: fs_rename_def n(1-3) option.case if_False a b prod.case)
    qed
    ultimately show ?thesis using moved [OF 1] moved [OF 2] by (simp split: sum.split)
  next
    case False
    then show ?thesis using n by (auto simp: fs_rename_def grows.same)
  qed
qed (auto simp: fs_rename_def grows.same split: option.splits)

lemma write_inodes: "fs_inodes (snd (fs_write ops i fh off bs w)) = fs_inodes w"
  by (auto simp: fs_write_def Let_def dest!: ensure_buffer_inodes ask_inodes split: sum.split prod.split)

lemma setattr_inodes: "fs_inodes (snd (fs_setattr ops i sz fh w)) = fs_inodes w"
  by (auto simp: fs_setattr_def dest!: truncate_inodes split: sum.split prod.split option.split)

section \<open>Properties\<close>

lemma event_inodes: "fs_inodes (snd (event_turn order epoch p w)) = fs_inodes w"
  by (simp add: event_turn_def handle_event_def forget_dir_def invalidate_all_dirs_def drop_cached_bytes_def
      split: poll.split device_event.split option.split)

lemma walks_end:
  assumes "acyclic_tab t"
  shows "chain_walk t i chain \<noteq> None \<and> storage_walk t i \<noteq> None"
  using chain_walk_ends [of t i chain] storage_walk_ends [of t i] assms by (auto simp: acyclic_tab_def)

lemma serve_steps:
  assumes dev: "folders_within n ops" and rm: "room (Suc n) (fs_inodes w)"
    and reach: "tab_step\<^sup>*\<^sup>* it_new (fs_inodes w)" and rq: "kernel_checked w rq" and run: "serve ops rq w = Some w'"
    and closed: "\<And>fh. rq = RqRelease fh \<Longrightarrow> steps (fs_inodes w) (fs_inodes w')"
  shows "steps (fs_inodes w) (fs_inodes w')"
proof -
  note wf = tab_reach_wf [OF reach]
  have rm': "room n (fs_inodes w)" "room 1 (fs_inodes w)" using rm by (simp_all add: room_def)
  note load = load_steps [OF dev rm'(1) reach]
  show ?thesis
  proof (cases rq)
    case (RqLookup p name)
    then show ?thesis using run load [of p] by (auto simp: fs_lookup_def Let_def split: option.splits)
  next
    case (RqReaddir cap i off)
    then show ?thesis using run load [of i] by (auto simp: fs_readdir_def Let_def)
  next
    case (RqRead views i fh off sz)
    then show ?thesis using run grows.reads_read [of ops views i fh off sz w] by (auto simp: tree_grows_def)
  next
    case (RqRelease fh)
    then show ?thesis by (rule closed)
  next
    case (RqEvent order epoch p)
    then show ?thesis using run event_inodes [of order epoch p w] by auto
  next
    case RqFiller
    then show ?thesis
      using run quiet_filler [of "w\<lparr>fs_fillers := t\<rparr>" ops for t]
      by (auto simp: next_filler_def quiet_def split: list.splits)
  next
    case (RqCreate p name)
    then show ?thesis using run create_steps(1) [OF wf rm'(2), of ops p name] by (auto simp: tree_grows_def)
  next
    case (RqMkdir p name)
    then show ?thesis using run create_steps(2) [OF wf rm'(2), of ops p name] by (auto simp: tree_grows_def)
  next
    case (RqUnlink p name)
    then show ?thesis using run remove_steps(1) [OF wf, of ops p name] by (auto simp: tree_grows_def)
  next
    case (RqRmdir p name)
    then show ?thesis using run remove_steps(2) [OF wf, of ops p name] by (auto simp: tree_grows_def)
  next
    case (RqRename p name q newname)
    then show ?thesis using run renaming_steps [OF wf, of p name q newname ops] rq by (auto simp: tree_grows_def)
  next
    case (RqWrite i fh off bs)
    then show ?thesis using run write_inodes [of ops i fh off bs w] by auto
  next
    case (RqSetattr i sz fh)
    then show ?thesis using run setattr_inodes [of ops i sz fh w] by auto
  qed (use run in \<open>auto simp: fs_getattr_def fs_opendir_def fs_statfs_def fs_open_def alloc_fh_def Let_def
      split: option.splits if_splits\<close>)
qed

lemma serve_flushed:
  assumes "folders_within n ops" "room (Suc n) (fs_inodes w)" "tab_step\<^sup>*\<^sup>* it_new (fs_inodes w)"
    "kernel_checked w rq" "serve ops rq w = Some w'"
  shows "steps (fs_inodes w) (fs_inodes w') \<or> (\<exists>fh. rq = RqRelease fh) \<and> left_over (fs_inodes w) (fs_inodes w')"
proof (cases "\<exists>fh. rq = RqRelease fh")
  case True
  then obtain fh where "rq = RqRelease fh" by blast
  then show ?thesis using release_flushed [of w ops fh] assms(5) by (auto simp: flushed_def)
qed (use serve_steps [OF assms] in blast)

text \<open>
  C9. What a request does to the tree, on any device and whatever fails: for requests the
  kernel lets through, the inode table after any callback, event or download is one the
  table's own operations reach, so its indexes agree with its entries; the one exception is a
  close whose upload was left under its temporary name, where one entry of such a table has
  got that name and the index has not. In both cases every walk up the tree still ends.
\<close>

theorem requests_keep_the_tree_sound:
  assumes "tab_step\<^sup>*\<^sup>* it_new (fs_inodes w)" and "serve ops rq w = Some w'"
    and "folders_within n ops" and "room (Suc n) (fs_inodes w)" and "kernel_checked w rq"
  shows "(tab_step\<^sup>*\<^sup>* it_new (fs_inodes w') \<and> tab_wf (fs_inodes w') \<or>
      (\<exists>fh t j. rq = RqRelease fh \<and> tab_step\<^sup>*\<^sup>* it_new t \<and> tab_wf t \<and>
         fs_inodes w' = update_entry j (\<lambda>e. e\<lparr>ie_name := temp_upload_name (ie_name e)\<rparr>) t)) \<and>
    chain_walk (fs_inodes w') i [] \<noteq> None \<and> storage_walk (fs_inodes w') i \<noteq> None"
proof -
  consider (steps) "steps (fs_inodes w) (fs_inodes w')"
    | (left) fh u j where "rq = RqRelease fh" "steps (fs_inodes w) u" "fs_inodes w' = renamed_in_place j u"
    using serve_flushed [OF assms(3,4,1,5,2)] by (auto simp: left_over_def)
  then show ?thesis
  proof cases
    case steps
    then have r: "tab_step\<^sup>*\<^sup>* it_new (fs_inodes w')" by (rule reach_steps [OF assms(1)])
    from walks_end [OF tab_reach_acyclic [OF r]] tab_reach_wf [OF r] r show ?thesis by blast
  next
    case left
    have r: "tab_step\<^sup>*\<^sup>* it_new u" by (rule reach_steps [OF assms(1) left(2)])
    from walks_end [OF renamed_in_place_acyclic [OF tab_reach_acyclic [OF r]]] tab_reach_wf [OF r] r left(1,3)
    show ?thesis unfolding renamed_in_place_def by auto
  qed
qed

definition tidy_ops :: "(unit, unit, demo_env) mtp_ops" where
  "tidy_ops = demo_ops\<lparr>op_list := (\<lambda>s p d. (Inr (take 9 (map demo_object (dd_objects d))), d)),
     op_delete := (\<lambda>s h d. (Inr (), demo_drop h d)), op_rename := (\<lambda>s h n d. (Inr (), demo_relabel h n d))\<rparr>"

lemma tidy_device: "folders_within 9 tidy_ops"
  by (simp add: folders_within_def tidy_ops_def)

lemma demo_mount_reach: "tab_step\<^sup>*\<^sup>* it_new (fs_inodes demo_mount)"
proof -
  have t1: "tab_step it_new (snd (add_storage_at 1 ''Internal'' 0 it_new))"
    by (rule storage_added) (simp add: room_def it_new_def)
  have "tab_step (snd (add_storage_at 1 ''Internal'' 0 it_new)) demo_tree"
    unfolding demo_tree_def by (rule object_added) (simp_all add: room_def table_eval)
  with t1 show ?thesis by (simp add: demo_mount_def)
qed

lemma demo_room: "room (Suc 9) (fs_inodes demo_mount)"
  by (simp add: room_def demo_mount_def demo_tree_def table_eval)

theorem requests_keep_the_tree_sound_witness:
  "tab_wf (fs_inodes (snd (fs_unlink tidy_ops 2 (Some ''a.txt'') demo_mount)))"
  using requests_keep_the_tree_sound [OF demo_mount_reach _ tidy_device demo_room,
      of "RqUnlink 2 (Some ''a.txt'')" "snd (fs_unlink tidy_ops 2 (Some ''a.txt'') demo_mount)"]
  by (simp add: kernel_checked_def)

text \<open>
  The exception happens: when deleting the old object fails, the entry is renamed in place and
  the name index is not told.
\<close>

theorem failed_delete_breaks_the_index:
  assumes "entries (fs_inodes w) i = Some e" and "lookup (fs_inodes w) p (ie_name e) = Some i"
    and "upload_file ops idx parent (temp_upload_name (ie_name e)) sz content w = (Inr h, v)"
    and "fst (on_storage idx (\<lambda>s. op_delete ops s old) v) = Inl err"
  shows "\<exists>w' e'. flush_safe ops i old idx parent e sz content w = (Inr (), w') \<and>
     entries (fs_inodes w') i = Some e' \<and> ie_name e' \<noteq> ie_name e \<and> lookup (fs_inodes w') p (ie_name e) = Some i"
proof -
  obtain x where d: "on_storage idx (\<lambda>s. op_delete ops s old) v = (Inl err, x)" using assms(4) by (metis prod.collapse)
  have v: "fs_inodes v = fs_inodes w" "fs_inodes x = fs_inodes v"
    using assms(3) d by (auto simp: upload_file_def on_storage_def call_def ask_def split: prod.splits)
  obtain now y where a: "ask (env_now ops) x = (now, y)" by fastforce
  define w' where "w' = record_upload ops i h (Some (temp_upload_name (ie_name e))) sz x"
  have w': "fs_inodes w' = update_entry i (\<lambda>e'. e'\<lparr>ie_kind := File h, ie_name := temp_upload_name (ie_name e),
      ie_size := sz, ie_mtime := now\<rparr>) (fs_inodes w)"
    using v assms(1) ask_inodes [OF a] by (simp add: w'_def record_upload_def a upd_inodes_def)
  have "flush_safe ops i old idx parent e sz content w = (Inr (), w')"
    by (simp add: flush_safe_def assms(3) d w'_def)
  then show ?thesis using assms(1,2) by (auto simp: w' temp_upload_name_def)
qed

end
