(* ===== verification/Handler_Facts.thy ===== *)
theory Handler_Facts
  imports Tree_Facts
begin

text \<open>
  What the callbacks on names answer in a sound tree: none of them reaches its \<open>unwrap()\<close>,
  paging through a directory lists every entry once, and a created file is found again. The
  last section shows the state in which \<open>lookup\<close> does panic.
\<close>

section \<open>No callback panics\<close>

lemma named_entry:
  assumes "tab_wf t" and "lookup t p n = Some i"
  obtains e where "entries t i = Some e" "ie_name e = n" "ie_parent e = p" "ie_inode e = i"
  using assms tab_wf_entry [OF assms(1)] by (auto simp: tab_wf_lookup sits_def)

lemma lookup_answers:
  assumes "tab_wf (fs_inodes (load_dir ops p w))"
  shows "fst (fs_lookup ops p name w) \<noteq> Panicked"
  using assms by (auto simp: fs_lookup_def Let_def split: option.splits elim!: named_entry)

lemma add_object_eq:
  "add_object p h n dir sz now t =
     insert_entry \<lparr>ie_inode = next_inode t, ie_parent = p, ie_name = n,
       ie_kind = (if dir then Directory h else File h), ie_size = sz, ie_mtime = now, ie_atime = now,
       ie_generation = generation t\<rparr> (t\<lparr>next_inode := next_inode t + 1\<rparr>)"
  by (simp add: add_object_def alloc_inode_def)

text \<open>The number a new object gets, and the entry it has.\<close>

lemma add_object_entry:
  assumes "add_object p h n dir sz now t = (i, t')"
  shows "i = next_inode t" and "\<exists>e. entries t' i = Some e \<and> ie_inode e = i \<and> ie_size e = sz \<and> ie_name e = n \<and>
      ie_parent e = p"
    and "lookup t' p n = Some i"
  using assms by (auto simp: add_object_eq insert_entry_def push_child_def lookup_def Let_def)

lemma add_new_entry:
  assumes "add_new ops p h n dir w = (i, w')"
  shows "\<exists>e. entries (fs_inodes w') i = Some e \<and> ie_inode e = i \<and> ie_size e = 0 \<and> ie_name e = n \<and> ie_parent e = p"
    and "lookup (fs_inodes w') p n = Some i"
    and "fs_write_buf w' = fs_write_buf w" "fs_fh_to_inode w' = fs_fh_to_inode w"
  using assms by (auto simp: add_new_def ask_def split: prod.splits dest: add_object_entry)

lemma open_buffer_keeps:
  "open_buffer ops fh i orig w = (r, w') \<Longrightarrow> fs_fh_to_inode w' = fs_fh_to_inode w \<and> fs_dirs_loaded w' = fs_dirs_loaded w"
  by (auto simp: open_buffer_def ask_def Let_def split: prod.splits)

lemma create_answers: "fst (fs_create ops p name w) \<noteq> Panicked"
  by (auto simp: fs_create_def Let_def alloc_fh_def split: option.split sum.split prod.split
      dest!: add_new_entry(1) open_buffer_inodes)

lemma mkdir_answers: "fst (fs_mkdir ops p name w) \<noteq> Panicked"
  by (auto simp: fs_mkdir_def Let_def split: option.split sum.split prod.split dest!: add_new_entry(1))

section \<open>Listing a directory page by page\<close>

text \<open>
  The kernel's calls of \<open>readdir\<close> on one open directory: each from the offset of the last
  entry it was given, with the room its buffer has then, until a reply is empty.
\<close>

fun read_pages ::
  "('dev, 's, 'd) mtp_ops \<Rightarrow> nat list \<Rightarrow> inode \<Rightarrow> u64 \<Rightarrow> ('dev, 's, 'd) mtp_fs \<Rightarrow>
   (u64 \<times> inode \<times> file_type \<times> string) list" where
  "read_pages ops [] i off w = []"
| "read_pages ops (c # cs) i off w =
     (case fs_readdir ops c i off w of
        (Reply [], w) \<Rightarrow> []
      | (Reply es, w) \<Rightarrow> es @ read_pages ops cs i (fst (last es)) w
      | _ \<Rightarrow> [])"

lemma load_dir_again: "fs_dirs_loaded w i = Some True \<Longrightarrow> load_dir ops i w = w"
  by (simp add: load_dir_def)

lemma pages_of_list:
  assumes "fs_dirs_loaded w i = Some True" and es: "dir_entries (fs_inodes w) i = es"
    and num: "\<And>k. k < length es \<Longrightarrow> fst (es ! k) = of_nat (k + 1)" and "length es < 2 ^ 64"
    and "0 \<notin> set caps" and "n \<le> length es"
  shows "read_pages ops caps i (of_nat n) w = take (sum_list caps) (drop n es)"
  using assms(5,6)
proof (induction caps arbitrary: n)
  case (Cons c cs)
  have n: "unat (of_nat n :: u64) = n" using Cons.prems(2) assms(4) by (simp add: unat_of_nat take_bit_nat_eq_self)
  have call: "fs_readdir ops c i (of_nat n) w = (Reply (take c (drop n es)), w)"
    by (simp add: fs_readdir_def load_dir_again assms(1) es n)
  show ?case
  proof (cases "n = length es")
    case False
    define m where "m = min c (length es - n)"
    have m: "0 < m" "n + m \<le> length es" "take c (drop n es) = take m (drop n es)"
      using Cons.prems False by (auto simp: m_def min_def not_le intro!: gr0I)
    then have page: "take m (drop n es) \<noteq> []" by auto
    then have "last (take m (drop n es)) = es ! (n + m - 1)"
      using m by (simp add: last_conv_nth min_absorb2)
    then have off: "fst (last (take m (drop n es))) = of_nat (n + m)"
      using num [of "n + m - 1"] m by simp
    have "read_pages ops (c # cs) i (of_nat n) w =
        take m (drop n es) @ read_pages ops cs i (of_nat (n + m)) w"
      using page off by (cases "take m (drop n es)") (simp_all add: call m(3))
    also have "\<dots> = take m (drop n es) @ take (sum_list cs) (drop (n + m) es)"
      using Cons.IH [of "n + m"] Cons.prems m by simp
    also have "\<dots> = take c (drop n es) @ take (sum_list cs) (drop c (drop n es))"
      using m(3) by (simp add: m_def min_def add.commute)
    finally show ?thesis by (simp add: take_add)
  qed (use call in simp)
qed simp


lemma load_dir_done: "fs_dirs_loaded (load_dir ops i w) i = Some True \<Longrightarrow> load_dir ops i (load_dir ops i w) = load_dir ops i w"
  by (rule load_dir_again)

lemma pages_loaded:
  assumes "fs_dirs_loaded (load_dir ops i w) i = Some True"
  shows "read_pages ops caps i off w = read_pages ops caps i off (load_dir ops i w)"
  by (cases caps) (simp_all add: fs_readdir_def load_dir_done [OF assms])

definition dir_line :: "inode_table \<Rightarrow> nat \<times> inode \<Rightarrow> u64 \<times> inode \<times> file_type \<times> string" where
  "dir_line t kc =
     (of_nat (fst kc) + 3, snd kc, if is_dir (the (entries t (snd kc))) then FileTypeDirectory else FileTypeRegular,
      ie_name (the (entries t (snd kc))))"

lemma lines_of_kids:
  assumes "\<And>c. c \<in> set kids \<Longrightarrow> entries t c \<noteq> None"
  shows "concat (map (\<lambda>(k, c). case entries t c of None \<Rightarrow> []
       | Some e \<Rightarrow> [(of_nat k + 3, c, if is_dir e then FileTypeDirectory else FileTypeRegular, ie_name e)])
       (enumerate k kids)) = map (dir_line t) (enumerate k kids)"
  using assms by (induction kids arbitrary: k) (auto simp: dir_line_def split: option.split)

lemma dir_entries_eq:
  assumes "tab_wf t"
  shows "dir_entries t i =
     (1, i, FileTypeDirectory, ''.'') #
     (2, case entries t i of Some e \<Rightarrow> ie_parent e | None \<Rightarrow> ROOT_INODE, FileTypeDirectory, ''..'') #
     map (dir_line t) (enumerate 0 (children t i))"
proof -
  have "entries t c \<noteq> None" if "c \<in> set (children t i)" for c
    using tab_wf_child [OF assms that] by (auto simp: child_of_def sits_def)
  then show ?thesis by (simp add: dir_entries_def Let_def lines_of_kids)
qed

lemma dir_entries_numbered:
  assumes "tab_wf t" and "k < length (dir_entries t i)"
  shows "fst (dir_entries t i ! k) = of_nat (k + 1)"
  using assms(2) by (auto simp: dir_entries_eq [OF assms(1)] nth_Cons dir_line_def nth_enumerate_eq split: nat.split)

lemma children_within:
  assumes "tab_wf t"
  shows "length (children t i) \<le> unat (next_inode t)"
proof -
  have "unat ` set (children t i) \<subseteq> {..< unat (next_inode t)}"
    using tab_wf_child [OF assms] tab_wf_entry [OF assms]
    by (force simp: child_of_def sits_def word_less_nat_alt)
  then have "card (unat ` set (children t i)) \<le> unat (next_inode t)"
    using card_mono [of "{..< unat (next_inode t)}"] by simp
  moreover have "inj_on unat (set (children t i))" by (simp add: inj_on_def word_unat_eq_iff)
  ultimately show ?thesis
    using distinct_card [OF tab_wf_distinct [OF assms]] by (simp add: card_image)
qed

text \<open>The lines of a live directory are its names, once each.\<close>

lemma dir_lines_are_names:
  assumes wf: "tab_wf t" and live: "entries t i \<noteq> None"
  defines "es \<equiv> map (dir_line t) (enumerate 0 (children t i))"
  shows "distinct (map (\<lambda>(k, c, ft, m). m) es)"
    and "(\<exists>k ft. (k, c, ft, m) \<in> set es) \<longleftrightarrow> lookup t i m = Some c"
proof -
  let ?name = "\<lambda>c. ie_name (the (entries t c))"
  have sits: "c \<in> set (children t i) \<longleftrightarrow> sits t i (?name c) c" for c
    using tab_wf_child [OF wf] tab_wf_listed [OF wf live] by (fastforce simp: child_of_def sits_def)
  have "map (\<lambda>(k, c, ft, m). m) es = map ?name (map snd (enumerate 0 (children t i)))"
    by (simp add: es_def dir_line_def comp_def del: map_snd_enumerate)
  moreover have "inj_on ?name (set (children t i))"
    using sits sits_unique [OF wf] by (auto intro!: inj_onI)
  ultimately show "distinct (map (\<lambda>(k, c, ft, m). m) es)"
    using tab_wf_distinct [OF wf] by (simp add: distinct_map del: map_map)
  have "(\<exists>k ft. (k, c, ft, m) \<in> set es) \<longleftrightarrow> c \<in> set (children t i) \<and> m = ?name c"
  proof -
    have "c \<in> set (children t i) \<longleftrightarrow> (\<exists>k. (k, c) \<in> set (enumerate 0 (children t i)))"
      by (metis enumerate_eq_zip in_set_impl_in_set_zip2 length_upt diff_zero add_0 set_zip_rightD)
    moreover have "(\<exists>k ft. (k, c, ft, m) \<in> dir_line t ` E) \<longleftrightarrow> (\<exists>k. (k, c) \<in> E) \<and> m = ?name c" for E
      using imageI [of "(_, c)" E "dir_line t"] by (fastforce simp: dir_line_def)
    ultimately show ?thesis by (simp add: es_def)
  qed
  then show "(\<exists>k ft. (k, c, ft, m) \<in> set es) \<longleftrightarrow> lookup t i m = Some c"
    using sits [of c] by (auto simp: tab_wf_lookup [OF wf] sits_def)
qed


section \<open>What creating and unlinking leave\<close>

lemma add_new_loads: "add_new ops p h n dir w = (i, w') \<Longrightarrow> fs_dirs_loaded w' = fs_dirs_loaded w"
  by (auto simp: add_new_def ask_def split: prod.splits)

lemma lookup_loaded:
  assumes "fs_dirs_loaded w p = Some True" and "lookup (fs_inodes w) p n = Some i" and "entries (fs_inodes w) i = Some e"
  shows "fs_lookup ops p (Some n) w = (Reply (entry_attr e), w)"
  using assms by (simp add: fs_lookup_def load_dir_again)

lemma entry_attr_sel: "fa_ino (entry_attr e) = ie_inode e" "fa_size (entry_attr e) = ie_size e"
  by (simp_all add: entry_attr_def inode_to_file_attr_def Let_def)

lemma opened_buffer:
  assumes "open_buffer ops fh i orig w = (Inr u, w')"
  shows "wb_is_open (fs_write_buf w') fh"
  using assms by (auto simp: open_buffer_def wb_open_def wb_is_open_def Let_def split: prod.splits sum.splits option.splits
      dest!: sym [of "Inl _"])

lemma create_replied:
  assumes "fs_create ops p (Some n) w = (Reply (a, fh), w')"
  obtains i e where "entries (fs_inodes w') i = Some e" "a = entry_attr e" "ie_inode e = i" "ie_size e = 0"
    "lookup (fs_inodes w') p n = Some i" "fs_fh_to_inode w' fh = Some i" "wb_is_open (fs_write_buf w') fh"
proof -
  from assms obtain h v where c: "with_recovery ops (\<lambda>_. create_empty ops p n) w = (Inr h, v)"
    "\<not> fs_read_only w" "is_dir_at p w"
    by (auto simp: fs_create_def split: if_splits sum.splits prod.splits)
  obtain i x where add: "add_new ops p h n False v = (i, x)" by fastforce
  obtain g y where al: "alloc_fh x = (g, y)" by fastforce
  obtain q z where o: "open_buffer ops g i 0 (y\<lparr>fs_fh_to_inode := (fs_fh_to_inode y)(g \<mapsto> i)\<rparr>) = (q, z)"
    by fastforce
  have inodes: "fs_inodes z = fs_inodes x" using open_buffer_inodes [OF o] al by (auto simp: alloc_fh_def)
  obtain e where e: "entries (fs_inodes z) i = Some e" "ie_inode e = i" "ie_size e = 0"
    using add_new_entry(1) [OF add] inodes by auto
  have r: "fs_create ops p (Some n) w = (case q of Inl err \<Rightarrow> (ReplyError EIO, z) | Inr _ \<Rightarrow> (Reply (entry_attr e, g), z))"
    using c add al o e by (simp add: fs_create_def split: sum.split)
  with assms obtain u where q: "q = Inr u" "a = entry_attr e" "fh = g" "w' = z" by (cases q) simp_all
  show ?thesis
    using that [of i e] e q inodes add_new_entry(2) [OF add] opened_buffer [OF o [unfolded q(1)]] open_buffer_keeps [OF o] by simp
qed

section \<open>Properties\<close>

text \<open>
  C11. Looking a name up never panics: in a tree the table's operations reach, \<open>lookup\<close> answers
  with the attributes of the entry that has the name in that directory after it was loaded, and
  \<open>ENOENT\<close> exactly when there is none; \<open>create\<close> and \<open>mkdir\<close> find the entry they just made.
\<close>

theorem callbacks_on_names_answer:
  assumes "tab_step\<^sup>*\<^sup>* it_new (fs_inodes w)" and "folders_within k ops" and "room k (fs_inodes w)"
  shows "(case fst (fs_lookup ops p (Some n) w) of
       Reply a \<Rightarrow> \<exists>i e. sits (fs_inodes (load_dir ops p w)) p n i \<and>
          entries (fs_inodes (load_dir ops p w)) i = Some e \<and> a = entry_attr e
     | ReplyError er \<Rightarrow> er = ENOENT \<and> (\<nexists>i. sits (fs_inodes (load_dir ops p w)) p n i)
     | Panicked \<Rightarrow> False) \<and>
     fst (fs_create ops p (Some n) w) \<noteq> Panicked \<and> fst (fs_mkdir ops p (Some n) w) \<noteq> Panicked"
proof -
  have wf: "tab_wf (fs_inodes (load_dir ops p w))"
    using reach_steps [OF assms(1) load_steps [OF assms(2,3,1)]] by (rule tab_reach_wf)
  show ?thesis
  proof (cases "lookup (fs_inodes (load_dir ops p w)) p n")
    case None
    then have "\<nexists>i. sits (fs_inodes (load_dir ops p w)) p n i" using lookup_None [OF wf] by blast
    then show ?thesis using None by (simp add: fs_lookup_def create_answers mkdir_answers)
  next
    case (Some i)
    then obtain e where "entries (fs_inodes (load_dir ops p w)) i = Some e" using named_entry [OF wf] by metis
    moreover have "sits (fs_inodes (load_dir ops p w)) p n i" using Some tab_wf_lookup [OF wf] by blast
    ultimately show ?thesis using Some by (auto simp: fs_lookup_def create_answers mkdir_answers)
  qed
qed

theorem callbacks_on_names_answer_witness:
  "fst (fs_create tidy_ops 2 (Some ''b.txt'') demo_mount) \<noteq> Panicked"
  using callbacks_on_names_answer [OF demo_mount_reach tidy_device(1), of 2 "''b.txt''"] demo_room
  by (simp add: room_def)

text \<open>
  C10. Paging through a directory: whatever room the kernel's buffer has at each call, the
  pages of \<open>readdir\<close> put together are \<open>.\<close>, \<open>..\<close> and every name the directory has, each once
  and with the inode that \<open>lookup\<close> finds for it; no entry is skipped or repeated between two
  calls.
\<close>

theorem readdir_lists_every_name_once:
  fixes w :: "('dev, 's, 'd) mtp_fs" and ops :: "('dev, 's, 'd) mtp_ops" and i :: inode
  defines "v \<equiv> load_dir ops i w"
  assumes "tab_step\<^sup>*\<^sup>* it_new (fs_inodes w)" and "folders_within k ops" and "room k (fs_inodes w)"
    and "fs_dirs_loaded v i = Some True" and "entries (fs_inodes v) i = Some e" and "room 2 (fs_inodes v)"
    and "0 \<notin> set caps" and "length (children (fs_inodes v) i) + 2 \<le> sum_list caps"
  shows "\<exists>es. read_pages ops caps i 0 w =
       (1, i, FileTypeDirectory, ''.'') # (2, ie_parent e, FileTypeDirectory, ''..'') # es \<and>
     distinct (map (\<lambda>(k, c, ft, m). m) es) \<and>
     (\<forall>m c. (\<exists>k ft. (k, c, ft, m) \<in> set es) \<longleftrightarrow> lookup (fs_inodes v) i m = Some c)"
proof -
  let ?t = "fs_inodes v"
  have wf: "tab_wf ?t"
    unfolding v_def using reach_steps [OF assms(2) load_steps [OF assms(3,4,2)]] by (rule tab_reach_wf)
  let ?es = "map (dir_line ?t) (enumerate 0 (children ?t i))"
  have es: "dir_entries ?t i =
      (1, i, FileTypeDirectory, ''.'') # (2, ie_parent e, FileTypeDirectory, ''..'') # ?es"
    by (simp add: dir_entries_eq [OF wf] assms(6))
  have len: "length (dir_entries ?t i) < 2 ^ 64"
    using children_within [OF wf, of i] assms(7) by (simp add: es room_def)
  have "read_pages ops caps i 0 w = read_pages ops caps i (of_nat 0) v"
    using pages_loaded assms(5) by (simp add: v_def)
  also have "\<dots> = dir_entries ?t i"
    using pages_of_list [OF assms(5) refl dir_entries_numbered [OF wf] len assms(8), of 0] assms(9)
    by (simp add: es)
  finally show ?thesis
    using es dir_lines_are_names [OF wf, of i] assms(6) by (intro exI [of _ ?es]) simp
qed

theorem readdir_lists_every_name_once_witness:
  "\<exists>es. read_pages tidy_ops [1, 1, 2] 2 0 (demo_mount\<lparr>fs_dirs_loaded := [2 \<mapsto> True]\<rparr>) =
     (1, 2, FileTypeDirectory, ''.'') # (2, 1, FileTypeDirectory, ''..'') # es"
proof -
  let ?w = "demo_mount\<lparr>fs_dirs_loaded := [2 \<mapsto> True]\<rparr>"
  have l: "load_dir tidy_ops 2 ?w = ?w" by (simp add: load_dir_def)
  have "length (children (fs_inodes ?w) 2) + 2 \<le> sum_list [1, 1, 2]"
    by (simp add: demo_mount_def demo_tree_def table_eval)
  then show ?thesis
    using readdir_lists_every_name_once [of ?w 9 tidy_ops 2 _ "[1, 1, 2]", unfolded l] demo_mount_reach demo_room tidy_device(1)
    by (force simp: demo_mount_def demo_tree_storage room_def)
qed

text \<open>
  C12. A created file is there: when \<open>create\<close> replies, the next \<open>lookup\<close> of the name in the
  loaded directory gives the same attributes, of an empty file, and the descriptor belongs to
  that inode and has a write buffer.
\<close>

theorem created_file_is_found:
  assumes "fs_create ops p (Some n) w = (Reply (a, fh), w')" and "fs_dirs_loaded w' p = Some True"
  shows "fs_lookup ops p (Some n) w' = (Reply a, w') \<and> fa_size a = 0 \<and>
     fs_fh_to_inode w' fh = Some (fa_ino a) \<and> wb_is_open (fs_write_buf w') fh"
  using assms(1)
  by (rule create_replied) (use assms(2) lookup_loaded in \<open>auto simp: entry_attr_sel\<close>)

lemma demo_storage_index:
  "fs_inodes w = demo_tree \<Longrightarrow> fs_storages w = [demo_storage] \<Longrightarrow> storage_index 2 w = (Inr 0, w)"
  by (simp add: storage_index_def find_storage_index_def storage_walk.simps demo_tree_storage position_def demo_storage_def
      lift_opt_apply)

lemma demo_created:
  defines "w0 \<equiv> demo_mount\<lparr>fs_dirs_loaded := [2 \<mapsto> True]\<rparr>"
  obtains a fh w' where "fs_create tidy_ops 2 (Some ''b.txt'') w0 = (Reply (a, fh), w')" "fs_dirs_loaded w' 2 = Some True"
proof -
  have w0: "fs_inodes w0 = demo_tree" "fs_storages w0 = [demo_storage]" "fs_env w0 = demo_phone"
    by (simp_all add: w0_def demo_mount_def demo_fs_def fs_new_def)
  have "parent_handle tidy_ops 2 w0 = (Inr None, w0)"
    by (simp add: parent_handle_def ensure_fresh_def is_fresh_def w0 demo_tree_storage lift_opt_apply)
  then obtain w1 where c: "create_empty tidy_ops 2 ''b.txt'' w0 = (Inr 9, w1)" "fs_dirs_loaded w1 = fs_dirs_loaded w0"
    by (simp add: create_empty_def demo_storage_index w0 on_storage_def call_def tidy_ops_def demo_ops_def demo_upload_def
        plugged_def demo_phone_def demo_store_def bytes_stream_def)
  have r: "with_recovery tidy_ops (\<lambda>_. create_empty tidy_ops 2 ''b.txt'') w0 = (Inr 9, w1)"
    using c(1) by (intro with_recovery_first) (simp_all add: is_unplugged_def tidy_ops_def demo_ops_def)
  have env: "env_disk tidy_ops = Pair IoOk" "env_now tidy_ops = Pair 0" by (simp_all add: tidy_ops_def demo_ops_def)
  obtain i x where add: "add_new tidy_ops 2 9 ''b.txt'' False w1 = (i, x)" by fastforce
  obtain g y where al: "alloc_fh x = (g, y)" by fastforce
  obtain q z where o: "open_buffer tidy_ops g i 0 (y\<lparr>fs_fh_to_inode := (fs_fh_to_inode y)(g \<mapsto> i)\<rparr>) = (q, z)"
    by fastforce
  have "q = Inr ()"
    using o by (auto simp: open_buffer_def ask_def env wb_open_def fb_new_def Let_def split: option.splits)
  moreover have "fs_inodes z = fs_inodes x" using open_buffer_inodes [OF o] al by (auto simp: alloc_fh_def)
  then obtain e where "entries (fs_inodes z) i = Some e" using add_new_entry(1) [OF add] by auto
  moreover have "\<not> fs_read_only w0" "is_dir_at 2 w0"
    by (simp_all add: w0_def demo_mount_def demo_fs_def fs_new_def is_dir_at_def demo_tree_storage is_dir_def)
  ultimately have "fs_create tidy_ops 2 (Some ''b.txt'') w0 = (Reply (entry_attr e, g), z)"
    by (simp add: fs_create_def r add al o)
  moreover have "fs_dirs_loaded z = fs_dirs_loaded w0"
    using open_buffer_keeps [OF o] al add_new_loads [OF add] c(2) by (auto simp: alloc_fh_def)
  ultimately show ?thesis by (intro that [of "entry_attr e" g z]) (simp_all add: w0_def)
qed

theorem created_file_is_found_witness:
  "\<exists>a fh w'. fs_create tidy_ops 2 (Some ''b.txt'') (demo_mount\<lparr>fs_dirs_loaded := [2 \<mapsto> True]\<rparr>) = (Reply (a, fh), w') \<and>
     fs_lookup tidy_ops 2 (Some ''b.txt'') w' = (Reply a, w') \<and> fa_size a = 0"
proof -
  obtain a fh w' where
    "fs_create tidy_ops 2 (Some ''b.txt'') (demo_mount\<lparr>fs_dirs_loaded := [2 \<mapsto> True]\<rparr>) = (Reply (a, fh), w')"
    "fs_dirs_loaded w' 2 = Some True"
    by (rule demo_created)
  then show ?thesis using created_file_is_found by blast
qed

section \<open>The panic that remains\<close>

text \<open>
  C13. The panic a failed delete leads to: the name index still has the old name of the entry
  (\<open>failed_delete_breaks_the_index\<close>), so unlinking that name deletes the object and removes
  the entry, but not the key, and the next \<open>lookup\<close> of the name reaches its \<open>unwrap()\<close>.
\<close>

theorem unlink_after_failed_delete_panics:
  assumes "lookup (fs_inodes w) p n = Some i" and "entries (fs_inodes w) i = Some e" and "ie_name e \<noteq> n"
    and "fs_unlink ops p (Some n) w = (Reply (), w')" and "fs_dirs_loaded w' p = Some True"
  shows "fst (fs_lookup ops p (Some n) w') = Panicked"
proof -
  from assms(1,4) obtain v where d: "with_recovery ops (\<lambda>_. delete_object ops (file_handle ops i) i) w = (Inr (), v)"
    and w': "w' = upd_inodes (\<lambda>t. snd (remove_entry i t)) v"
    by (auto simp: fs_unlink_def split: if_splits sum.splits prod.splits)
  have sk: "skeleton (fs_inodes v) = skeleton (fs_inodes w)"
    using changing_runs(3) [OF d] by (simp add: tree_moves_def same_mountD(1))
  obtain e' where e': "entries (fs_inodes v) i = Some e'" "ie_name e' \<noteq> n"
    using skeleton_entry [OF sk assms(2)] identity_sel assms(3) by metis
  have "lookup (fs_inodes w') p n = Some i" "entries (fs_inodes w') i = None"
    using remove_obs(2,3) [OF e'(1)] e'(2) assms(1) skeletonD(1) [OF sk] by (auto simp: w' upd_inodes_def)
  then show ?thesis using assms(5) by (simp add: fs_lookup_def load_dir_again)
qed


text \<open>The state a failed delete leaves on the small device, and a file removed from it.\<close>

theorem unlink_after_failed_delete_panics_witness:
  "\<exists>w'. fs_unlink tidy_ops 2 (Some ''a.txt'') (demo_mount\<lparr>fs_dirs_loaded := [2 \<mapsto> True],
       fs_inodes := update_entry 3 (\<lambda>e. e\<lparr>ie_name := ''tmp''\<rparr>) demo_tree\<rparr>) = (Reply (), w') \<and>
     fst (fs_lookup tidy_ops 2 (Some ''a.txt'') w') = Panicked"
proof -
  let ?e = "demo_file\<lparr>ie_name := ''tmp''\<rparr>"
  define w where "w = demo_mount\<lparr>fs_dirs_loaded := [2 \<mapsto> True],
    fs_inodes := update_entry 3 (\<lambda>e. e\<lparr>ie_name := ''tmp''\<rparr>) demo_tree\<rparr>"
  have e: "entries (fs_inodes w) 3 = Some ?e" "lookup (fs_inodes w) 2 ''a.txt'' = Some 3"
    by (simp_all add: w_def update_entry_def demo_tree_entries) (simp add: demo_tree_def table_eval)
  obtain v where d: "delete_object tidy_ops (file_handle tidy_ops 3) 3 w = (Inr (), v)" "fs_dirs_loaded v = [2 \<mapsto> True]"
  proof -
    have "storage_walk (fs_inodes w) 3 = Some (Some 1)"
      by (subst storage_walk.simps, simp add: e demo_file_def)
        (subst storage_walk.simps, simp add: w_def update_entry_def demo_tree_entries demo_tree_storage)
    then have "storage_index 3 w = (Inr 0, w)"
      by (simp add: storage_index_def find_storage_index_def position_def w_def demo_mount_def demo_fs_def fs_new_def
          demo_storage_def lift_opt_apply)
    moreover have "generation (fs_inodes w) = 0" by (simp add: w_def update_entry_def demo_tree_entries)
    then have "file_handle tidy_ops 3 w = (Inr 5, w)"
      using e(1) by (simp add: file_handle_def ensure_fresh_def is_fresh_def demo_file_def lift_opt_apply)
    ultimately show ?thesis
      using that [of "w\<lparr>fs_env := demo_drop 5 (fs_env w)\<rparr>"]
      by (simp add: delete_object_def on_storage_def call_def tidy_ops_def) (simp add: w_def)
  qed
  have "with_recovery tidy_ops (\<lambda>_. delete_object tidy_ops (file_handle tidy_ops 3) 3) w = (Inr (), v)"
    using d(1) by (intro with_recovery_first) (simp_all add: is_unplugged_def tidy_ops_def demo_ops_def)
  moreover have "\<not> is_dir_at 3 w" "\<not> fs_read_only w"
    using e(1) by (simp_all add: is_dir_at_def is_dir_def demo_file_def) (simp add: w_def demo_mount_def demo_fs_def fs_new_def)
  ultimately have "fs_unlink tidy_ops 2 (Some ''a.txt'') w = (Reply (), upd_inodes (\<lambda>t. snd (remove_entry 3 t)) v)"
    by (simp add: fs_unlink_def e)
  then show ?thesis
    using unlink_after_failed_delete_panics [OF e(2,1)] d(2) by (simp add: w_def [symmetric] upd_inodes_def)
qed

end
