(* ===== verification/Descriptor_Facts.thy ===== *)
theory Descriptor_Facts
  imports Handler_Facts
begin

text \<open>
  What a mount holds for its descriptors: every write buffer belongs to an open descriptor of
  the same inode, and every read cache to an inode that is open or still being downloaded.
  Each callback and each task keeps these books.
\<close>

section \<open>The books\<close>

definition buffers_owned :: "('dev, 's, 'd) mtp_fs \<Rightarrow> bool" where
  "buffers_owned w \<longleftrightarrow>
     (\<forall>fh b. wb_buffers (fs_write_buf w) fh = Some b \<longrightarrow> fs_fh_to_inode w fh = Some (fb_inode b))"

definition downloading :: "('dev, 's, 'd) mtp_fs \<Rightarrow> inode \<Rightarrow> cache_id \<Rightarrow> bool" where
  "downloading w i c \<longleftrightarrow> (\<exists>d. (i, c, d) \<in> set (fs_fillers w))"

text \<open>A cache has one inode, and a fill that is running has its task.\<close>

definition caches_owned :: "('dev, 's, 'd) mtp_fs \<Rightarrow> bool" where
  "caches_owned w \<longleftrightarrow>
     (\<forall>i c. fs_read_cache w i = Some c \<longrightarrow> c < fs_next_cache w \<and>
        (i \<in> ran (fs_fh_to_inode w) \<or> downloading w i c) \<and>
        (is_filling (fs_heap w c) \<longrightarrow> downloading w i c) \<and>
        (\<forall>j. fs_read_cache w j = Some c \<longrightarrow> j = i))"

definition books_right :: "('dev, 's, 'd) mtp_fs \<Rightarrow> bool" where
  "books_right w \<longleftrightarrow>
     (\<forall>fh. fs_fh_to_inode w fh \<noteq> None \<longrightarrow> fh < fs_next_fh w) \<and> buffers_owned w \<and> caches_owned w"

lemma caches_ownedD:
  assumes "caches_owned w" and "fs_read_cache w i = Some c"
  shows "c < fs_next_cache w" "i \<in> ran (fs_fh_to_inode w) \<or> downloading w i c"
    "is_filling (fs_heap w c) \<Longrightarrow> downloading w i c" "fs_read_cache w j = Some c \<Longrightarrow> j = i"
  using assms unfolding caches_owned_def by blast+

lemma books_rightD:
  assumes "books_right w"
  shows "fs_fh_to_inode w fh \<noteq> None \<Longrightarrow> fh < fs_next_fh w" "buffers_owned w" "caches_owned w"
  using assms by (auto simp: books_right_def)

section \<open>What does not touch them\<close>

definition ledger where
  "ledger w = (fs_write_buf w, fs_read_cache w, fs_fh_to_inode w, fs_next_fh w, fs_fillers w, fs_next_cache w,
     \<lambda>c. is_filling (fs_heap w c))"

definition same_ledger :: "('dev, 's, 'd) mtp_fs \<Rightarrow> ('dev, 's, 'd) mtp_fs \<Rightarrow> bool" where
  "same_ledger w w' \<longleftrightarrow> ledger w' = ledger w"

lemma same_ledgerD:
  assumes "same_ledger w w'"
  shows "fs_write_buf w' = fs_write_buf w" "fs_read_cache w' = fs_read_cache w" "fs_fh_to_inode w' = fs_fh_to_inode w"
    "fs_next_fh w' = fs_next_fh w" "fs_fillers w' = fs_fillers w" "fs_next_cache w' = fs_next_cache w"
    "is_filling (fs_heap w' c) = is_filling (fs_heap w c)"
  using assms by (auto simp: same_ledger_def ledger_def fun_eq_iff)

lemma same_ledger_books: "same_ledger w w' \<Longrightarrow> books_right w' = books_right w"
  by (simp add: books_right_def buffers_owned_def caches_owned_def downloading_def same_ledgerD)

lemma ledger_books:
  fixes w w' :: "('dev, 's, 'd) mtp_fs"
  shows "ledger w' = ledger w \<Longrightarrow> books_right w' = books_right w"
  by (rule same_ledger_books) (simp add: same_ledger_def)

interpretation kept: resolving_frame same_ledger ops for ops
  by unfold_locales (simp_all add: same_ledger_def ledger_def invalidate_handles_def give_up_def upd_inodes_def)

lemma ledger_simps [simp]:
  "ledger (w\<lparr>fs_inodes := t\<rparr>) = ledger w" "ledger (w\<lparr>fs_dirs_loaded := l\<rparr>) = ledger w"
  "ledger (w\<lparr>fs_fetch_counter := n\<rparr>) = ledger w" "ledger (upd_fills g w) = ledger w"
  "ledger (w\<lparr>fs_env := d\<rparr>) = ledger w" "ledger (upd_inodes f w) = ledger w"
  by (simp_all add: ledger_def upd_fills_def upd_inodes_def)

lemma ledger_ask: "ask f w = (a, w') \<Longrightarrow> ledger w' = ledger w"
  by (auto simp: ask_def split: prod.splits)

lemma ledger_cache: "is_filling (f (fs_heap w c)) = is_filling (fs_heap w c) \<Longrightarrow> ledger (upd_cache c f w) = ledger w"
  by (auto simp: ledger_def upd_cache_def)

lemma ledger_within: "within same_ledger m \<Longrightarrow> m w = (r, w') \<Longrightarrow> ledger w' = ledger w"
  by (auto simp: same_ledger_def dest: withinD)

lemma listing_ledger: "within same_ledger (list_into_table ops p)"
  unfolding list_into_table_def
  by (intro kept.session_within kept.modify) (simp_all add: same_ledger_def)

lemma load_ledger: "ledger (load_dir ops p w) = ledger w"
  by (auto simp: load_dir_def split: prod.split sum.split
      dest!: ledger_within [OF kept.with_recoveries [where attempt = "\<lambda>_. list_into_table ops p", OF listing_ledger]])

lemma recovered_ledger: "(\<And>k. within same_ledger (attempt k)) \<Longrightarrow> with_recovery ops attempt w = (r, w') \<Longrightarrow> ledger w' = ledger w"
  using ledger_within [OF kept.with_recoveries] .

section \<open>Uploads\<close>

lemma upload_ledger: "within same_ledger (upload_file ops idx parent n sz content)"
  by (rule withinI) (auto simp: upload_file_def same_ledger_def split: prod.splits
      dest!: ledger_ask ledger_within [OF kept.on_storages])

lemma record_ledger: "ledger (record_upload ops i h n sz w) = ledger w"
  by (auto simp: record_upload_def split: prod.split dest: ledger_ask)

lemma flush_ledger:
  "within same_ledger (flush_safe ops i h idx parent e sz content)"
  "within same_ledger (flush_unsafe ops i h idx parent e sz content)"
  by (rule withinI, auto simp: flush_safe_def flush_unsafe_def Let_def same_ledger_def record_ledger
      split: prod.splits sum.splits dest!: ledger_within [OF upload_ledger] ledger_within [OF kept.on_storages])+

lemma delete_all_ledger: "ledger (delete_all ops idx obs w) = ledger w"
proof (induction obs arbitrary: w)
  case (Cons ob obs)
  obtain r v where "on_storage idx (\<lambda>s. op_delete ops s (ob_handle ob)) w = (r, v)" by fastforce
  with ledger_within [OF kept.on_storages this] Cons show ?case by simp
qed simp

lemma purge_ledger: "ledger (purge_leftover ops idx parent n w) = ledger w"
  by (auto simp: purge_leftover_def delete_all_ledger split: prod.split sum.split
      dest: ledger_within [OF kept.on_storages])

lemma flush_once_ledger: "within same_ledger (flush_once ops i e sz content retry)"
proof -
  have step: "within same_ledger (\<lambda>w. let ren = op_renames ops (fs_device w);
      w = (if retry \<and> ren then purge_leftover ops idx parent n w else w)
    in if ren then flush_safe ops i h idx parent e sz content w else flush_unsafe ops i h idx parent e sz content w)"
    for idx parent n h
    by (rule withinI) (auto simp: Let_def same_ledger_def purge_ledger split: if_splits
        dest!: ledger_within [OF flush_ledger(1)] ledger_within [OF flush_ledger(2)])
  show ?thesis unfolding flush_once_def by (intro kept.session_within step)
qed

lemma file_step_ledger: "within same_ledger (file_step ops)"
  by (rule withinI) (auto simp: file_step_def same_ledger_def split: prod.splits io_outcome.splits dest: ledger_ask)

lemma attempt_ledger: "within same_ledger (flush_attempt ops i e content k)"
  unfolding flush_attempt_def by (intro kept.bind file_step_ledger flush_once_ledger)

text \<open>A flush closes the descriptor's buffer and touches nothing else.\<close>

lemma flush_to_mtp_ledger:
  assumes "flush_to_mtp ops fh w = (r, w')"
  shows "ledger w' = ledger (w\<lparr>fs_write_buf := snd (wb_close fh (fs_write_buf w))\<rparr>)"
proof -
  obtain buf wb where c: "wb_close fh (fs_write_buf w) = (buf, wb)" by fastforce
  let ?v = "w\<lparr>fs_write_buf := wb\<rparr>"
  show ?thesis
  proof (cases "case buf of None \<Rightarrow> True | Some b \<Rightarrow> \<not> fb_dirty b")
    case True
    then show ?thesis using assms c by (auto simp: flush_to_mtp_def Let_def split: option.splits)
  next
    case False
    then obtain b where b: "buf = Some b" "fb_dirty b" by (auto split: option.splits)
    obtain q u where f: "file_step ops ?v = (q, u)" by fastforce
    have "ledger u = ledger ?v" by (rule ledger_within [OF file_step_ledger f])
    then show ?thesis
      using assms c b f
      by (auto simp: flush_to_mtp_def Let_def split: sum.splits option.splits
          dest!: recovered_ledger [OF attempt_ledger])
  qed
qed

section \<open>Reading\<close>

text \<open>
  What a read through cache \<open>c\<close> of inode \<open>i\<close> may do to the books: a fill it starts has its
  task, and any other fill can only end.
\<close>

definition feeds :: "inode \<Rightarrow> cache_id \<Rightarrow> ('dev, 's, 'd) mtp_fs \<Rightarrow> ('dev, 's, 'd) mtp_fs \<Rightarrow> bool" where
  "feeds i c w w' \<longleftrightarrow>
     fs_write_buf w' = fs_write_buf w \<and> fs_read_cache w' = fs_read_cache w \<and> fs_fh_to_inode w' = fs_fh_to_inode w \<and>
     fs_next_fh w' = fs_next_fh w \<and> fs_next_cache w' = fs_next_cache w \<and> set (fs_fillers w) \<subseteq> set (fs_fillers w') \<and>
     (\<forall>k. is_filling (fs_heap w' k) \<longrightarrow> is_filling (fs_heap w k) \<or> k = c \<and> downloading w' i c)"

lemma feeds_books:
  assumes "feeds i c w w'" and "books_right w" and "fs_read_cache w i = Some c"
  shows "books_right w'"
proof -
  have same: "fs_write_buf w' = fs_write_buf w" "fs_read_cache w' = fs_read_cache w" "fs_fh_to_inode w' = fs_fh_to_inode w"
      "fs_next_fh w' = fs_next_fh w" "fs_next_cache w' = fs_next_cache w"
    using assms(1) by (auto simp: feeds_def)
  have more: "downloading w j k \<Longrightarrow> downloading w' j k" for j k using assms(1) by (auto simp: feeds_def downloading_def)
  have fill: "is_filling (fs_heap w' k) \<Longrightarrow> is_filling (fs_heap w k) \<or> k = c \<and> downloading w' i c" for k
    using assms(1) by (auto simp: feeds_def)
  note own = caches_ownedD [OF books_rightD(3) [OF assms(2)]]
  have "caches_owned w'" unfolding caches_owned_def same
  proof (intro allI impI conjI)
    fix j k assume k: "fs_read_cache w j = Some k"
    show "k < fs_next_cache w" "j \<in> ran (fs_fh_to_inode w) \<or> downloading w' j k" using own(1,2) [OF k] more by auto
    show "downloading w' j k" if "is_filling (fs_heap w' k)"
      using fill [OF that] own(3) [OF k] own(4) [OF k] assms(3) more by auto
    show "j' = j" if "fs_read_cache w j' = Some k" for j' using own(4) [OF k that] .
  qed
  then show ?thesis using assms(2) by (simp add: books_right_def buffers_owned_def same)
qed

lemma feeds_same: "ledger w' = ledger w \<Longrightarrow> feeds i c w w'"
  using same_ledgerD [of w w'] by (simp add: feeds_def same_ledger_def)

lemma feeds_chain: "feeds i c u v \<Longrightarrow> feeds i c v w \<Longrightarrow> feeds i c u w"
  unfolding feeds_def downloading_def by (metis (no_types, lifting) subset_iff)

lemma feeds_cache: "(is_filling (f (fs_heap w k)) \<Longrightarrow> is_filling (fs_heap w k)) \<Longrightarrow> feeds i c w (upd_cache k f w)"
  by (auto simp: feeds_def upd_cache_def)

lemma feeds_fills [simp]: "feeds i c w (upd_fills g v) = feeds i c w v"
  by (simp add: feeds_def upd_fills_def downloading_def)

interpretation fetched: fetching_frame same_ledger ops c for ops c
  by unfold_locales (simp_all add: same_ledger_def ledger_cache is_filling_def)

lemma ranged_ledger: "ranged_read ops i c osz off sz w = Some (r, w') \<Longrightarrow> ledger w' = ledger w"
  using fetched.reads_ranged by (auto simp: same_ledger_def)

lemma start_feeds: "feeds i c w (ensure_full_fill_running ops i c w)"
proof (cases "start_fill (fs_heap w c)")
  case (Pair claimed sc)
  define v where "v = upd_cache c (\<lambda>_. sc) w"
  have v: "fs_write_buf v = fs_write_buf w" "fs_read_cache v = fs_read_cache w" "fs_fh_to_inode v = fs_fh_to_inode w"
    "fs_next_fh v = fs_next_fh w" "fs_next_cache v = fs_next_cache w" "fs_fillers v = fs_fillers w"
    "k \<noteq> c \<Longrightarrow> fs_heap v k = fs_heap w k" for k
    by (simp_all add: v_def upd_cache_def)
  have ended: "feeds i c w (upd_cache c (\<lambda>s. sh_fail s f) u)" if "ledger u = ledger v" for u f
    using same_ledgerD [of v u] that v by (auto simp: feeds_def upd_cache_def same_ledger_def sh_fail_def is_filling_def)
  have begun: "feeds i c w (u\<lparr>fs_full_fill_counter := n, fs_fillers := fs_fillers u @ [(i, c, d)]\<rparr>)"
    if "ledger u = ledger v" for u n d
    using same_ledgerD [of v u] that v by (cases d) (fastforce simp: feeds_def same_ledger_def downloading_def)
  show ?thesis
  proof (cases claimed)
    case False
    then have "sc = fs_heap w c" using Pair by (simp add: start_fill_def split: if_splits)
    then show ?thesis using Pair False by (simp add: ensure_full_fill_running_def feeds_cache)
  next
    case True
    show ?thesis
    proof (cases "register c (fs_fills v)")
      case (Pair registered t)
      obtain q u where d: "with_recovery ops (\<lambda>_. on_file ops i (op_download ops)) (upd_fills (\<lambda>_. t) v) = (q, u)" by fastforce
      have u: "ledger u = ledger v"
        using ledger_within [OF kept.with_recoveries [OF kept.reads_on_file] d] by simp
      show ?thesis
        using True Pair \<open>start_fill (fs_heap w c) = (claimed, sc)\<close> d ended [of "upd_fills (\<lambda>_. t) v"] ended [OF u] begun [OF u]
        by (cases q) (auto simp: ensure_full_fill_running_def Let_def v_def [symmetric])
    qed
  qed
qed

interpretation fed: caching_frame "feeds i c" ops c i for i c ops
proof unfold_locales
  show "feeds i c u w" if "feeds i c u v" "feeds i c v w" for u v w :: "('a, 'b, 'c) mtp_fs"
    using that by (rule feeds_chain)
  show "within (feeds i c) (resolve_node ops idx node parent)" for idx node parent
    by (rule withinI) (rule feeds_same, rule ledger_within [OF kept.any_node])
  show "feeds i c w (upd_cache c (\<lambda>_. s) w)" if "sh_fill s = sh_fill (fs_heap w c)" for s w
    using that by (intro feeds_cache) (simp add: is_filling_def)
  show "feeds i c w (upd_cache c (\<lambda>_. wait_end out (fs_heap w c) ts off sz) w)" for out ts off sz w
    by (rule feeds_cache) (rule wait_end_filling)
  show "feeds i c w (upd_cache c (\<lambda>_. s) w)" if "reset_after_link_loss (fs_heap w c) = (b, s)" for b s w
    using that by (intro feeds_cache)
      (auto simp: reset_after_link_loss_def is_filling_def split: fill_state.splits if_splits)
qed (simp_all add: feeds_same start_feeds ledger_def invalidate_handles_def give_up_def)

text \<open>The cache a read creates is new, and its inode is open.\<close>

lemma cache_books:
  assumes bk: "books_right w" and op: "i \<in> ran (fs_fh_to_inode w)" and r: "read_cache_for ops i sz w = (q, w')"
  shows "books_right w' \<and> (\<forall>c. q = Inr c \<longrightarrow> fs_read_cache w' i = Some c)"
proof (cases "fs_read_cache w i")
  case (Some c)
  then show ?thesis using r bk by (auto simp: read_cache_for_def)
next
  case None
  obtain t u where a: "ask (env_disk ops) w = (t, u)" by fastforce
  obtain s v where b: "ask (env_disk ops) u = (s, v)" by fastforce
  have v: "ledger v = ledger w" using ledger_ask [OF a] ledger_ask [OF b] by simp
  show ?thesis
  proof (cases "sh_new t s sz :: io_error + shared_cache")
    case (Inl e)
    then show ?thesis using r None a b ledger_books [OF v] bk by (auto simp: read_cache_for_def)
  next
    case (Inr sc)
    let ?c = "fs_next_cache v"
    have w': "w' = v\<lparr>fs_heap := (fs_heap v)(?c := sc), fs_next_cache := Suc ?c,
        fs_read_cache := (fs_read_cache v)(i \<mapsto> ?c)\<rparr>" and q: "q = Inr ?c"
      using r None a b Inr by (auto simp: read_cache_for_def Let_def)
    have idle: "\<not> is_filling sc" using Inr by (auto simp: sh_new_def is_filling_def split: sum.splits)
    have bk': "books_right v" using ledger_books [OF v] bk by simp
    have op': "i \<in> ran (fs_fh_to_inode v)" using same_ledgerD(3) [of w v] v op by (simp add: same_ledger_def)
    note own = caches_ownedD [OF books_rightD(3) [OF bk']]
    have "caches_owned w'"
      using own op' idle unfolding caches_owned_def w'
      by (auto simp: downloading_def less_Suc_eq split: if_splits)
    then show ?thesis using bk' q by (simp add: books_right_def buffers_owned_def w')
  qed
qed

lemma read_books:
  assumes bk: "books_right w" and op: "i \<in> ran (fs_fh_to_inode w)" and r: "fs_read ops views i fh off sz w = Some (q, w')"
  shows "books_right w'"
proof -
  have asked: "books_right v" if "ask f w = (a, v)" for a v f
    using ledger_books [OF ledger_ask [OF that]] bk by simp
  have cached: "books_right v" if "read_cache_for ops i n w = (x, v)" for n x v
    using cache_books [OF bk op that] by blast
  have whole: "books_right w'"
    if "read_cache_for ops i n w = (Inr c, v)"
      and "sequential_read ops i c off m k views v = Some (q, w') \<or> ranged_read ops i c l off m v = Some (q, w')"
    for n c v k l m
    using cache_books [OF bk op that(1)] that(2) feeds_books [OF fed.reads_sequential] ledger_books [OF ranged_ledger] by blast
  show ?thesis
    using r bk
    by (auto simp: fs_read_def Let_def dest: asked cached whole
        split: if_splits prod.splits sum.splits option.splits read_strategy_kind.splits)
qed

section \<open>Descriptors\<close>

definition fresh_number :: "('dev, 's, 'd) mtp_fs \<Rightarrow> bool" where
  "fresh_number w \<longleftrightarrow> fs_next_fh w \<noteq> u64_max"

lemma next_number: "fresh_number w \<Longrightarrow> fh \<le> fs_next_fh w \<Longrightarrow> fh < fs_next_fh w + 1"
  using unat_u64_less [of "fs_next_fh w"]
  by (simp add: fresh_number_def word_less_nat_alt word_le_nat_alt unat_word_ariths word_unat_eq_iff)

lemma allocated_books:
  assumes bk: "books_right w" and "fresh_number w" and a: "alloc_fh w = (fh, w')"
  shows "books_right w'" "books_right (w'\<lparr>fs_fh_to_inode := (fs_fh_to_inode w')(fh \<mapsto> i)\<rparr>)" "fs_fh_to_inode w' fh = None"
proof -
  have w': "w' = w\<lparr>fs_next_fh := fs_next_fh w + 1\<rparr>" "fh = fs_next_fh w" using a by (auto simp: alloc_fh_def)
  have new: "fs_fh_to_inode w fh = None" using books_rightD(1) [OF bk, of fh] w' by (cases "fs_fh_to_inode w fh") auto
  have below: "g < fs_next_fh w + 1" if "fs_fh_to_inode w g \<noteq> None \<or> g = fs_next_fh w" for g
    using next_number [OF assms(2), of g] books_rightD(1) [OF bk, of g] that by auto
  show "fs_fh_to_inode w' fh = None" using new w' by simp
  show "books_right w'"
    using bk below by (simp add: books_right_def buffers_owned_def caches_owned_def downloading_def w'(1))
  have "buffers_owned (w'\<lparr>fs_fh_to_inode := (fs_fh_to_inode w')(fh \<mapsto> i)\<rparr>)"
    using books_rightD(2) [OF bk] new by (auto simp: buffers_owned_def w')
  moreover have "ran ((fs_fh_to_inode w)(fh \<mapsto> i)) = insert i (ran (fs_fh_to_inode w))" using new by (rule ran_map_upd)
  then have "caches_owned (w'\<lparr>fs_fh_to_inode := (fs_fh_to_inode w')(fh \<mapsto> i)\<rparr>)"
    using books_rightD(3) [OF bk] by (auto simp: caches_owned_def downloading_def w')
  ultimately show "books_right (w'\<lparr>fs_fh_to_inode := (fs_fh_to_inode w')(fh \<mapsto> i)\<rparr>)"
    using below by (auto simp: books_right_def w')
qed

lemma buffer_books:
  assumes "books_right w" and "\<And>fh b. wb_buffers wb fh = Some b \<Longrightarrow> fs_fh_to_inode w fh = Some (fb_inode b)"
  shows "books_right (w\<lparr>fs_write_buf := wb\<rparr>)"
  using assms by (auto simp: books_right_def buffers_owned_def caches_owned_def downloading_def)

lemma buffer_owner: "books_right w \<Longrightarrow> wb_buffers (fs_write_buf w) fh = Some b \<Longrightarrow> fs_fh_to_inode w fh = Some (fb_inode b)"
  by (auto simp: books_right_def buffers_owned_def)

lemma closed_books: "books_right w \<Longrightarrow> books_right (w\<lparr>fs_write_buf := snd (wb_close fh (fs_write_buf w))\<rparr>)"
  by (rule buffer_books) (auto simp: wb_close_def wb_flush_def buffer_owner split: if_splits)

lemma opened_books:
  assumes bk: "books_right w" and fh: "fs_fh_to_inode w fh = Some i" and o: "open_buffer ops fh i orig w = (r, w')"
  shows "books_right w'"
proof -
  obtain t v where a: "ask (env_disk ops) w = (t, v)" by fastforce
  have v: "books_right v" "fs_fh_to_inode v = fs_fh_to_inode w"
    using ledger_books [OF ledger_ask [OF a]] bk same_ledgerD(3) [of w v] ledger_ask [OF a] by (simp_all add: same_ledger_def)
  show ?thesis
    using o a fh v buffer_owner [OF v(1)]
    by (auto simp: open_buffer_def Let_def wb_open_def fb_new_def with_storage_def intro!: buffer_books
        split: prod.splits option.splits io_outcome.splits if_splits)
qed

lemma ensured_books:
  assumes "books_right w" and "fs_fh_to_inode w fh = Some i" and "ensure_buffer ops fh i w = (r, w')"
  shows "books_right w' \<and> fs_fh_to_inode w' = fs_fh_to_inode w"
  using assms opened_books [OF assms(1,2)]
  by (auto simp: ensure_buffer_def dest: open_buffer_keeps split: if_splits)

lemma write_books:
  assumes bk: "books_right w" and fh: "fs_fh_to_inode w fh = Some i"
  shows "books_right (snd (fs_write ops i fh off bs w))"
proof -
  obtain r v where e: "ensure_buffer ops fh i w = (r, v)" by fastforce
  have v: "books_right v" using ensured_books [OF bk fh e] by simp
  obtain out u where a: "ask (env_disk ops) v = (out, u)" by fastforce
  have u: "books_right u" using ledger_books [OF ledger_ask [OF a]] v by simp
  have kept: "fb_inode b' = fb_inode b" if "fb_write_at sf_write out off bs b = (q, b')" for b b' q
    using that by (auto simp: fb_write_at_def split: option.splits if_splits prod.splits sum.splits)
  have "books_right (u\<lparr>fs_write_buf := snd (wb_write out fh off bs (fs_write_buf u)
      :: (mtp_error mount_error + u32) \<times> write_buffer)\<rparr>)"
    using buffer_owner [OF u]
    by (intro buffer_books [OF u])
      (auto simp: wb_write_def kept split: option.splits prod.splits sum.splits if_splits)
  then show ?thesis using bk v e a by (auto simp: fs_write_def split: sum.split prod.splits)
qed

lemma setattr_books:
  assumes bk: "books_right w" and fh: "fh \<noteq> None \<longrightarrow> fs_fh_to_inode w (the fh) = Some i"
  shows "books_right (snd (fs_setattr ops i sz fh w))"
proof -
  have "books_right v" if tr: "truncate_buffer ops h i z w = (r, v)" and h: "fs_fh_to_inode w h = Some i" for h z r v
  proof -
    obtain q u where e: "ensure_buffer ops h i w = (q, u)" by fastforce
    note u = ensured_books [OF bk h e]
    have "books_right v" if "open_buffer ops h i 0 (u\<lparr>fs_write_buf := snd (wb_close h (fs_write_buf u))\<rparr>) = (r, v)"
      using opened_books [OF closed_books [of u h] _ that] u h by simp
    then show ?thesis
      using tr e u by (cases q) (auto simp: truncate_buffer_def split: if_splits)
  qed
  then show ?thesis
    using bk fh by (auto simp: fs_setattr_def split: option.split sum.split prod.splits)
qed

section \<open>Closing a descriptor\<close>

text \<open>An inode no descriptor is open on loses its cache, unless that is still downloaded.\<close>

lemma unused_books:
  assumes bk: "books_right w" and g: "fs_fh_to_inode w fh = Some i" and wb: "\<not> wb_is_open (fs_write_buf w) fh"
  shows "books_right (drop_read_cache_if_unused i (w\<lparr>fs_fh_to_inode := (fs_fh_to_inode w)(fh := None)\<rparr>))"
proof -
  let ?m = "(fs_fh_to_inode w)(fh := None)"
  let ?v = "w\<lparr>fs_fh_to_inode := ?m\<rparr>"
  note own = caches_ownedD [OF books_rightD(3) [OF bk]]
  have others: "j \<in> ran ?m" if j: "j \<in> ran (fs_fh_to_inode w)" "j \<noteq> i" for j
  proof -
    obtain a where a: "fs_fh_to_inode w a = Some j" using j(1) by (auto simp: ran_def)
    then have "?m a = Some j" using g j(2) by auto
    then show ?thesis by (rule ranI)
  qed
  have buf: "buffers_owned (drop_read_cache_if_unused i ?v)"
    using buffer_owner [OF bk] wb by (auto simp: buffers_owned_def drop_read_cache_if_unused_def wb_is_open_def)
  have num: "\<forall>k. fs_fh_to_inode (drop_read_cache_if_unused i ?v) k \<noteq> None \<longrightarrow>
      k < fs_next_fh (drop_read_cache_if_unused i ?v)"
    using books_rightD(1) [OF bk] by (auto simp: drop_read_cache_if_unused_def)
  have "caches_owned (drop_read_cache_if_unused i ?v)"
  proof (cases "i \<in> ran ?m \<or> (\<exists>c. fs_read_cache w i = Some c \<and> is_filling (fs_heap w c))")
    case True
    then have v: "drop_read_cache_if_unused i ?v = ?v" by (auto simp: drop_read_cache_if_unused_def)
    show ?thesis
      unfolding v caches_owned_def
    proof (intro allI impI conjI)
      fix j c assume c: "fs_read_cache ?v j = Some c"
      then have c': "fs_read_cache w j = Some c" by simp
      show "c < fs_next_cache ?v" using own(1) [OF c'] by simp
      show "j \<in> ran (fs_fh_to_inode ?v) \<or> downloading ?v j c"
      proof (cases "j = i")
        case True
        then show ?thesis
          using \<open>i \<in> ran ?m \<or> _\<close> own(3) [OF c'] c' by (auto simp: downloading_def)
      qed (use own(2) [OF c'] others in \<open>auto simp: downloading_def\<close>)
      show "is_filling (fs_heap ?v c) \<Longrightarrow> downloading ?v j c" using own(3) [OF c'] by (simp add: downloading_def)
      show "j' = j" if "fs_read_cache ?v j' = Some c" for j' using own(4) [OF c'] that by simp
    qed
  next
    case False
    then have v: "drop_read_cache_if_unused i ?v = ?v\<lparr>fs_read_cache := (fs_read_cache w)(i := None)\<rparr>"
      by (auto simp: drop_read_cache_if_unused_def split: option.split)
    show ?thesis
      unfolding v caches_owned_def using own others by (auto simp: downloading_def split: if_splits) blast
  qed
  with buf num show ?thesis by (simp add: books_right_def)
qed

lemma flushed_books:
  assumes bk: "books_right w" and f: "flush_to_mtp ops fh w = (r, w')"
  shows "books_right w'" "\<not> wb_is_open (fs_write_buf w') fh" "fs_fh_to_inode w' = fs_fh_to_inode w"
proof -
  note l = flush_to_mtp_ledger [OF f]
  show "books_right w'" using ledger_books [OF l] closed_books [OF bk] by simp
  note eq = same_ledgerD [of "w\<lparr>fs_write_buf := snd (wb_close fh (fs_write_buf w))\<rparr>" w']
  show "\<not> wb_is_open (fs_write_buf w') fh"
    using eq(1) l by (simp add: same_ledger_def wb_is_open_def wb_close_def wb_flush_def)
  show "fs_fh_to_inode w' = fs_fh_to_inode w" using eq(3) l by (simp add: same_ledger_def)
qed

lemma release_books:
  assumes bk: "books_right w"
  shows "books_right (snd (fs_release ops fh w))"
proof -
  obtain q v where f: "(if wb_is_open (fs_write_buf w) fh then flush_to_mtp ops fh w else (Inr (), w)) = (q, v)"
    by fastforce
  have v: "books_right v" "\<not> wb_is_open (fs_write_buf v) fh"
    using f flushed_books [OF bk] bk by (auto split: if_splits)
  then show ?thesis using unused_books [OF v(1) _ v(2)] by (auto simp: fs_release_def f split: option.split sum.split)
qed

text \<open>The descriptor is gone afterwards, also when the upload failed.\<close>

lemma released:
  "fs_fh_to_inode (snd (fs_release ops fh w)) = (fs_fh_to_inode w)(fh := None)"
  "fs_fillers (snd (fs_release ops fh w)) = fs_fillers w"
proof -
  obtain q v where f: "(if wb_is_open (fs_write_buf w) fh then flush_to_mtp ops fh w else (Inr (), w)) = (q, v)"
    by fastforce
  have v: "fs_fh_to_inode v = fs_fh_to_inode w" "fs_fillers v = fs_fillers w"
    using f same_ledgerD(3,5) [of "w\<lparr>fs_write_buf := snd (wb_close fh (fs_write_buf w))\<rparr>" v]
    by (auto simp: same_ledger_def dest: flush_to_mtp_ledger split: if_splits)
  then show "fs_fh_to_inode (snd (fs_release ops fh w)) = (fs_fh_to_inode w)(fh := None)"
    "fs_fillers (snd (fs_release ops fh w)) = fs_fillers w"
    by (auto simp: fs_release_def f drop_read_cache_if_unused_def fun_eq_iff split: option.split sum.split)
qed

section \<open>Downloads and events\<close>

text \<open>A fill always ends: complete, failed or stopped.\<close>

lemma fill_stops: "\<not> is_filling (fr_cache (fill_from_stream msg lost stopz turns s))"
proof -
  have end_stops: "sh_fill (end_fill off f s) \<noteq> FRunning" for off f s
    by (auto simp: end_fill_def sh_fail_def sh_finish_def Let_def split: option.split)
  have "\<not> is_filling (fr_cache (fill_loop msg lost expected stopz turns off f s))" for expected off f s
    by (induction msg lost expected stopz turns off f s rule: fill_loop.induct)
      (auto simp: Let_def end_stops sh_fail_def is_filling_def split: sum.split prod.split)
  then show ?thesis by (simp add: fill_from_stream_def)
qed

lemma forgotten_books:
  assumes "books_right w" and "\<And>i c. m i = Some c \<Longrightarrow> fs_read_cache w i = Some c"
  shows "books_right (w\<lparr>fs_read_cache := m\<rparr>)"
proof -
  have "caches_owned (w\<lparr>fs_read_cache := m\<rparr>)"
    using caches_ownedD [OF books_rightD(3) [OF assms(1)] assms(2)] assms(2)
    unfolding caches_owned_def by (simp add: downloading_def)
  then show ?thesis using assms(1) by (simp add: books_right_def buffers_owned_def)
qed

lemma filler_books:
  assumes bk: "books_right w"
  shows "books_right (next_filler ops w)"
proof (cases "fs_fillers w")
  case (Cons task tasks)
  obtain i c stopz turns where task: "task = (i, c, stopz, turns)" by (metis prod_cases4)
  define sc where "sc = fr_cache (fill_from_stream (op_error_text ops) is_link_lost stopz turns (fs_heap w c))"
  have stopped: "\<not> is_filling sc" unfolding sc_def by (rule fill_stops)
  define v where "v = upd_fills (finished c) (upd_cache c (\<lambda>_. sc) (w\<lparr>fs_fillers := tasks\<rparr>))"
  have v: "fs_read_cache v = fs_read_cache w" "fs_fh_to_inode v = fs_fh_to_inode w" "fs_next_cache v = fs_next_cache w"
      "fs_write_buf v = fs_write_buf w" "fs_next_fh v = fs_next_fh w" "fs_fillers v = tasks"
      "fs_heap v = (fs_heap w)(c := sc)"
    by (simp_all add: v_def upd_fills_def upd_cache_def)
  have run: "next_filler ops w =
      (if i \<in> ran (fs_fh_to_inode w) then v else v\<lparr>fs_read_cache := (fs_read_cache w)(i := None)\<rparr>)"
    using Cons task v(1,2)
    by (simp add: next_filler_def run_filler_def v_def sc_def upd_fills_def upd_cache_def)
  note own = caches_ownedD [OF books_rightD(3) [OF bk]]
  have left: "downloading v j k" if "downloading w j k" "k \<noteq> c \<or> j \<noteq> i" for j k
    using that Cons task v by (auto simp: downloading_def)
  have "caches_owned (next_filler ops w)"
    unfolding caches_owned_def
  proof (intro allI impI conjI)
    fix j k assume k: "fs_read_cache (next_filler ops w) j = Some k"
    then have kept: "fs_read_cache w j = Some k" "i \<in> ran (fs_fh_to_inode w) \<or> j \<noteq> i"
      by (auto simp: run v split: if_splits)
    have heap: "is_filling (fs_heap (next_filler ops w) k) \<Longrightarrow> is_filling (fs_heap w k) \<and> k \<noteq> c"
      using stopped by (auto simp: run v split: if_splits)
    have eq: "fs_fh_to_inode (next_filler ops w) = fs_fh_to_inode w"
      "downloading (next_filler ops w) j k = downloading v j k" "fs_next_cache (next_filler ops w) = fs_next_cache w"
      by (simp_all add: run v downloading_def)
    show "k < fs_next_cache (next_filler ops w)" using own(1) [OF kept(1)] by (simp add: eq)
    show "j \<in> ran (fs_fh_to_inode (next_filler ops w)) \<or> downloading (next_filler ops w) j k"
      using own(2) [OF kept(1)] left [of j k] kept(2) by (auto simp: eq)
    show "downloading (next_filler ops w) j k" if "is_filling (fs_heap (next_filler ops w) k)"
      using own(3) [OF kept(1)] left [of j k] heap [OF that] by (simp add: eq)
    show "j' = j" if "fs_read_cache (next_filler ops w) j' = Some k" for j'
      using own(4) [OF kept(1), of j'] that by (auto simp: run v split: if_splits)
  qed
  then show ?thesis using bk v by (simp add: run books_right_def buffers_owned_def)
qed (use bk in \<open>simp add: next_filler_def\<close>)

lemma event_books:
  assumes "books_right w"
  shows "books_right (snd (event_turn order epoch p w))"
proof -
  have dirs: "books_right (forget_dir q u) = books_right u" "books_right (invalidate_all_dirs u) = books_right u" for q u
    by (rule ledger_books, simp add: forget_dir_def invalidate_all_dirs_def)+
  have "books_right (drop_cached_bytes h u)" if "books_right u" for h u
    unfolding drop_cached_bytes_def by (rule forgotten_books [OF that]) (simp split: if_splits)
  then show ?thesis
    using assms by (auto simp: event_turn_def handle_event_def dirs split: poll.split device_event.split option.split)
qed

section \<open>Callbacks on names\<close>

lemma changing_keeps:
  "within same_ledger (create_empty ops p n)" "within same_ledger (create_dir ops p n)"
  "within same_ledger (delete_object ops (file_handle ops i) j)"
  "within same_ledger (delete_object ops (any_object_handle ops i) j)"
  "within same_ledger (rename_object ops i n)" "within same_ledger (relocate_object ops i p)"
  unfolding create_empty_def create_dir_def delete_object_def rename_object_def relocate_object_def
  by (intro kept.session_within)+

lemmas changing_ledger = changing_keeps [THEN recovered_ledger]

lemma new_ledger: "add_new ops p h n dir w = (i, w') \<Longrightarrow> ledger w' = ledger w"
  by (auto simp: add_new_def dest: ledger_ask split: prod.splits)

lemma name_ledger:
  "ledger (snd (fs_lookup ops p name w)) = ledger w" "ledger (snd (fs_readdir ops cap i off w)) = ledger w"
  "ledger (snd (fs_mkdir ops p name w)) = ledger w" "ledger (snd (fs_unlink ops p name w)) = ledger w"
  "ledger (snd (fs_rmdir ops p name w)) = ledger w"
  by (auto simp: fs_lookup_def fs_readdir_def fs_mkdir_def fs_unlink_def fs_rmdir_def Let_def load_ledger
      split: option.split sum.split prod.split dest!: changing_ledger new_ledger)

lemma rename_ledger: "ledger (snd (fs_rename ops p name q newname w)) = ledger w"
  by (auto simp: fs_rename_def split: option.split sum.split prod.split if_splits dest!: changing_ledger(5,6))

lemma create_books:
  assumes bk: "books_right w" and fr: "fresh_number w"
  shows "books_right (snd (fs_create ops p name w))"
proof (cases "fs_read_only w \<or> name = None \<or> \<not> is_dir_at p w")
  case False
  then obtain n where n: "name = Some n" "is_dir_at p w" "\<not> fs_read_only w" by auto
  obtain r v where c: "with_recovery ops (\<lambda>_. create_empty ops p n) w = (r, v)" by fastforce
  note v = changing_ledger(1) [OF c]
  show ?thesis
  proof (cases r)
    case (Inl e)
    then show ?thesis using n c bk ledger_books [OF v] by (simp add: fs_create_def)
  next
    case (Inr h)
    obtain i x where a: "add_new ops p h n False v = (i, x)" by fastforce
    have x: "ledger x = ledger w" using new_ledger [OF a] v by simp
    then have bx: "books_right x" "fresh_number x"
      using ledger_books [OF x] bk fr same_ledgerD(4) [of w x] by (simp_all add: same_ledger_def fresh_number_def)
    obtain fh y where f: "alloc_fh x = (fh, y)" by fastforce
    let ?y = "y\<lparr>fs_fh_to_inode := (fs_fh_to_inode y)(fh \<mapsto> i)\<rparr>"
    obtain q z where o: "open_buffer ops fh i 0 ?y = (q, z)" by fastforce
    have "books_right z" by (rule opened_books [OF allocated_books(2) [OF bx f] _ o]) simp
    then show ?thesis using n c Inr a f o by (auto simp: fs_create_def split: sum.split option.split)
  qed
qed (use bk in \<open>auto simp: fs_create_def split: option.splits\<close>)

lemma open_books:
  assumes "books_right w" and "fresh_number w"
  shows "books_right (snd (fs_open ops wo i w))" and "books_right (snd (fs_opendir i w))"
proof -
  obtain fh v where a: "alloc_fh w = (fh, v)" by fastforce
  have "books_right (v\<lparr>fs_dirs_loaded := d\<rparr>)" for d
    using allocated_books(1) [OF assms a] ledger_books [of "v\<lparr>fs_dirs_loaded := d\<rparr>" v] by simp
  then show "books_right (snd (fs_open ops wo i w))" "books_right (snd (fs_opendir i w))"
    using assms(1) allocated_books(2) [OF assms a, of i] a
    by (auto simp: fs_open_def fs_opendir_def split: option.split)
qed

section \<open>Every request\<close>

text \<open>The kernel names a descriptor together with the inode it opened it for.\<close>

definition descriptor_checked :: "('dev, 's, 'd) mtp_fs \<Rightarrow> request \<Rightarrow> bool" where
  "descriptor_checked w rq \<longleftrightarrow>
     (case rq of
        RqRead views i fh off sz \<Rightarrow> fs_fh_to_inode w fh = Some i
      | RqWrite i fh off bs \<Rightarrow> fs_fh_to_inode w fh = Some i
      | RqSetattr i sz (Some fh) \<Rightarrow> fs_fh_to_inode w fh = Some i
      | _ \<Rightarrow> True)"

lemma serve_books:
  assumes bk: "books_right w" and fr: "fresh_number w" and rq: "descriptor_checked w rq" and run: "serve ops rq w = Some w'"
  shows "books_right w'"
proof (cases rq)
  case (RqRead views i fh off sz)
  then show ?thesis
    using run rq read_books [OF bk, of i] ranI [of "fs_fh_to_inode w" fh i] by (auto simp: descriptor_checked_def)
next
  case (RqSetattr i sz fh)
  then show ?thesis
    using run rq setattr_books [OF bk, of fh i ops sz] by (auto simp: descriptor_checked_def split: option.splits)
next
  case (RqRename p n q m)
  then show ?thesis using run bk ledger_books [OF rename_ledger, of ops p n q m w] by auto
qed (use run rq bk write_books [OF bk] release_books [OF bk] create_books [OF bk fr] open_books [OF bk fr] filler_books [OF bk]
      event_books [OF bk] in
    \<open>auto simp: name_ledger [THEN ledger_books] descriptor_checked_def fs_getattr_def fs_statfs_def Let_def split: option.splits\<close>)

end
