(* ===== verification/Run_Facts.thy ===== *)
theory Run_Facts
  imports Descriptor_Facts
begin

text \<open>
  Whole mounts: the states a mount goes through from its start, one request at a time, and
  what holds in every one of them. The callbacks' contracts are in \<open>Tree_Facts\<close>,
  \<open>Handler_Facts\<close> and \<open>Descriptor_Facts\<close>; here they meet.
\<close>

section \<open>The states of a mount\<close>

text \<open>
  What the kernel sends to a mount: descriptors with the inode they were opened for, no
  directory into itself; and numbers do not run out, neither of descriptors nor of inodes
  (one listing adds at most \<open>n\<close>). \<open>Q\<close> is what else is known of the requests, \<open>ro\<close> whether
  the mount is read-only.
\<close>

definition kernel_sends :: "nat \<Rightarrow> ('dev, 's, 'd) mtp_fs \<Rightarrow> request \<Rightarrow> bool" where
  "kernel_sends n w rq \<longleftrightarrow>
     kernel_checked w rq \<and> descriptor_checked w rq \<and> fresh_number w \<and> room (Suc n) (fs_inodes w)"

inductive mounted ::
  "('dev, 's, 'd) mtp_ops \<Rightarrow> nat \<Rightarrow> bool \<Rightarrow> (('dev, 's, 'd) mtp_fs \<Rightarrow> request \<Rightarrow> bool) \<Rightarrow> ('dev, 's, 'd) mtp_fs \<Rightarrow> bool"
  for ops n ro Q where
  started: "fs_init ops (fs_new dev policy ro limit heap env) = (Inr u, w) \<Longrightarrow> room (length (fs_storages w)) it_new \<Longrightarrow>
     mounted ops n ro Q w"
| served: "mounted ops n ro Q w \<Longrightarrow> kernel_sends n w rq \<Longrightarrow> Q w rq \<Longrightarrow> serve ops rq w = Some w' \<Longrightarrow>
     mounted ops n ro Q w'"

lemma removed_next: "next_inode (snd (remove_entry i t)) = next_inode t"
  using remove_obs(5) [of t i] by (cases "entries t i") simp_all

lemma storage_next: "next_inode (snd (add_storage_at sid n now t)) = next_inode t + 1"
  by (simp add: add_storage_at_def alloc_inode_def insert_entry_def evict_name_def removed_next Let_def split: option.split)

lemma storages_steps:
  "room (length ss) (fs_inodes w) \<Longrightarrow> steps (fs_inodes w) (fs_inodes (add_storages ops ss w))"
proof (induction ss arbitrary: w)
  case (Cons s ss)
  obtain now v where a: "ask (env_now ops) w = (now, v)" by fastforce
  let ?t = "snd (add_storage_at (st_id s) (storage_name s) now (fs_inodes w))"
  have v: "fs_inodes v = fs_inodes w" by (rule ask_inodes [OF a])
  have one: "steps (fs_inodes w) ?t"
    using Cons.prems by (intro steps_one storage_added) (simp add: room_def)
  have "room (length ss) ?t"
    using Cons.prems next_room [of "length ss" "fs_inodes w"] by (simp add: room_def storage_next)
  from steps_trans [OF one] Cons.IH [of "upd_inodes (\<lambda>_. ?t) v"] this show ?case
    by (simp add: a upd_inodes_def v)
qed simp

lemma storages_ledger: "ledger (add_storages ops ss w) = ledger w"
  by (induction ss arbitrary: w) (auto split: prod.split dest: ledger_ask)

lemma init_state:
  assumes "fs_init ops w0 = (Inr u, w)"
  obtains env where
    "fs_inodes w = fs_inodes (add_storages ops (fs_storages w) (w0\<lparr>fs_env := env\<rparr>))" "ledger w = ledger w0"
proof -
  obtain r v where c: "call (op_storages ops (fs_device w0)) w0 = (r, v)" by fastforce
  then obtain ss where r: "r = Inr ss" using assms by (cases r) (auto simp: fs_init_def)
  let ?v = "add_storages ops ss v"
  have "w = ?v\<lparr>fs_dirs_loaded := (fs_dirs_loaded ?v)(ROOT_INODE \<mapsto> True), fs_storages := ss,
      fs_event_loops := fs_event_loops ?v @ [(fs_device ?v, fs_event_epoch ?v)]\<rparr>"
    using assms by (simp add: fs_init_def c r Let_def)
  then have w: "fs_inodes w = fs_inodes ?v" "fs_storages w = ss" "ledger w = ledger ?v"
    by (simp_all add: ledger_def)
  obtain env where "v = w0\<lparr>fs_env := env\<rparr>" using call_cases [OF c] by blast
  then show ?thesis using that [of env] w by (simp add: storages_ledger)
qed

lemma new_books: "books_right (fs_new dev policy ro limit heap env)"
  by (simp add: books_right_def buffers_owned_def caches_owned_def fs_new_def wb_new_def)

lemma mounted_books: "mounted ops n ro Q w \<Longrightarrow> books_right w"
proof (induction rule: mounted.induct)
  case (started dev policy limit heap env u w)
  show ?case by (rule init_state [OF started(1)]) (simp add: ledger_books new_books)
qed (auto simp: kernel_sends_def intro: serve_books)

text \<open>
  A close that leaves no upload under its temporary name: every name is afterwards what it was.
\<close>

definition close_finishes :: "('dev, 's, 'd) mtp_ops \<Rightarrow> ('dev, 's, 'd) mtp_fs \<Rightarrow> request \<Rightarrow> bool" where
  "close_finishes ops w rq \<longleftrightarrow>
     (case rq of RqRelease fh \<Rightarrow> same_names (fs_inodes w) (fs_inodes (snd (fs_release ops fh w))) | _ \<Rightarrow> True)"

lemma finished_steps:
  assumes "close_finishes ops w rq" and "serve ops rq w = Some w'" and "rq = RqRelease fh"
  shows "steps (fs_inodes w) (fs_inodes w')"
  using assms release_flushed [of w ops fh] left_over_renames [of "fs_inodes w" "fs_inodes w'"]
  by (auto simp: close_finishes_def flushed_def)

lemma mounted_tree:
  assumes "mounted ops n ro (close_finishes ops) w" and "folders_within n ops"
  shows "tab_step\<^sup>*\<^sup>* it_new (fs_inodes w)"
  using assms(1)
proof (induction rule: mounted.induct)
  case (started dev policy limit heap env u w)
  obtain d where "fs_inodes w = fs_inodes (add_storages ops (fs_storages w) ((fs_new dev policy ro limit heap env)\<lparr>fs_env := d\<rparr>))"
    using init_state [OF started(1)] by metis
  then show ?case
    using storages_steps [of "fs_storages w" "(fs_new dev policy ro limit heap env)\<lparr>fs_env := d\<rparr>" ops] started(2)
    by (simp add: fs_new_def steps_def)
next
  case (served w rq w')
  then have "kernel_checked w rq" "room (Suc n) (fs_inodes w)" by (simp_all add: kernel_sends_def)
  from serve_steps [OF assms(2) this(2) served.IH this(1) served.hyps(4) finished_steps [OF served.hyps(3,4)]]
  show ?case by (rule reach_steps [OF served.IH])
qed

section \<open>A small run\<close>

definition tidy_start :: "(unit, unit, demo_env) mtp_fs" where
  "tidy_start = snd (fs_init tidy_ops (fs_new () \<lparr>rp_timeout = 0\<rparr> False 0
     (\<lambda>_. \<lparr>sh_cache = \<lparr>sc_file = sf_new, sc_ranges = rs_new, sc_total = 0\<rparr>, sh_fill = FIdle, sh_stop = False\<rparr>)
     demo_phone))"

lemma tidy_start_sel:
  "fs_inodes tidy_start = snd (add_storage_at 1 ''Internal'' 0 it_new)" "fs_storages tidy_start = [demo_storage]"
  "fs_env tidy_start = demo_phone" "fs_next_fh tidy_start = 1" "fs_read_only tidy_start = False"
  "fs_fh_to_inode tidy_start = Map.empty" "fs_fillers tidy_start = []" "fs_write_buf tidy_start = wb_new"
  by (simp_all add: tidy_start_def fs_init_def fs_new_def call_def ask_def upd_inodes_def tidy_ops_def demo_ops_def plugged_def
      demo_phone_def demo_storage_def storage_name_def Let_def)

lemma tidy_start_mounted: "mounted tidy_ops 9 False Q tidy_start"
proof (rule started)
  show "fs_init tidy_ops (fs_new () \<lparr>rp_timeout = 0\<rparr> False 0
     (\<lambda>_. \<lparr>sh_cache = \<lparr>sc_file = sf_new, sc_ranges = rs_new, sc_total = 0\<rparr>, sh_fill = FIdle, sh_stop = False\<rparr>)
     demo_phone) = (Inr (), tidy_start)"
    by (simp add: tidy_start_def fs_init_def fs_new_def call_def ask_def tidy_ops_def demo_ops_def plugged_def
      demo_phone_def demo_storage_def Let_def)
qed (simp add: tidy_start_sel room_def it_new_def)

lemma tidy_created:
  obtains w where "serve tidy_ops (RqCreate 2 (Some ''b.txt'')) tidy_start = Some w" "fs_fh_to_inode w = [1 \<mapsto> 3]"
    "fs_fillers w = []" "fs_next_fh w = 2" "next_inode (fs_inodes w) = 4"
    "\<And>b. wb_buffers (fs_write_buf w) 1 = Some b \<Longrightarrow> \<not> fb_dirty b"
proof -
  let ?t = "fs_inodes tidy_start"
  have st: "entries ?t 2 = Some \<lparr>ie_inode = 2, ie_parent = 1, ie_name = ''Internal'', ie_kind = Storage 1, ie_size = 0,
      ie_mtime = 0, ie_atime = 0, ie_generation = 0\<rparr>" "next_inode ?t = 3"
    by (simp_all add: tidy_start_sel table_eval)
  have "parent_handle tidy_ops 2 tidy_start = (Inr None, tidy_start)"
    by (simp add: parent_handle_def ensure_fresh_def is_fresh_def st lift_opt_apply)
  moreover have "storage_index 2 tidy_start = (Inr 0, tidy_start)"
    by (simp add: storage_index_def find_storage_index_def storage_walk.simps st position_def tidy_start_sel(2) demo_storage_def
        lift_opt_apply)
  ultimately obtain d where "create_empty tidy_ops 2 ''b.txt'' tidy_start = (Inr 9, tidy_start\<lparr>fs_env := d\<rparr>)"
    by (simp add: create_empty_def tidy_start_sel on_storage_def call_def tidy_ops_def demo_ops_def demo_upload_def
        plugged_def demo_phone_def demo_store_def bytes_stream_def)
  then have r: "with_recovery tidy_ops (\<lambda>_. create_empty tidy_ops 2 ''b.txt'') tidy_start =
      (Inr 9, tidy_start\<lparr>fs_env := d\<rparr>)"
    by (intro with_recovery_first) (simp_all add: is_unplugged_def tidy_ops_def demo_ops_def)
  have env: "env_disk tidy_ops = Pair IoOk" "env_now tidy_ops = Pair 0" by (simp_all add: tidy_ops_def demo_ops_def)
  obtain i x where add: "add_new tidy_ops 2 9 ''b.txt'' False (tidy_start\<lparr>fs_env := d\<rparr>) = (i, x)" by fastforce
  then have x: "i = 3" "fs_fh_to_inode x = Map.empty" "fs_next_fh x = 1" "fs_fillers x = []" "next_inode (fs_inodes x) = 4"
      "fs_write_buf x = wb_new"
    using st by (auto simp: add_new_def ask_def env tidy_start_sel table_eval)
  obtain q z where o: "open_buffer tidy_ops 1 3 0 (x\<lparr>fs_next_fh := 2, fs_fh_to_inode := [1 \<mapsto> 3]\<rparr>) = (q, z)" by fastforce
  then have z: "fs_fh_to_inode z = [1 \<mapsto> 3]" "fs_fillers z = []" "fs_next_fh z = 2" "fs_inodes z = fs_inodes x"
      "\<And>b. wb_buffers (fs_write_buf z) 1 = Some b \<Longrightarrow> \<not> fb_dirty b"
    using x by (auto simp: open_buffer_def ask_def env Let_def wb_open_def wb_new_def fb_new_def with_storage_def split: prod.splits sum.splits)
  have "snd (fs_create tidy_ops 2 (Some ''b.txt'') tidy_start) = z"
    using st x o by (auto simp: fs_create_def r add alloc_fh_def tidy_start_sel(2-) is_dir_at_def is_dir_def
        split: sum.split option.split)
  then show ?thesis using that [of z] z x by simp
qed

text \<open>Closing a descriptor that was not written to sends nothing.\<close>

lemma clean_close:
  assumes "\<And>b. wb_buffers (fs_write_buf w) fh = Some b \<Longrightarrow> \<not> fb_dirty b"
  shows "fs_inodes (snd (fs_release ops fh w)) = fs_inodes w"
  using assms
  by (auto simp: fs_release_def flush_to_mtp_def wb_is_open_def wb_close_def wb_flush_def drop_read_cache_if_unused_def Let_def
      split: prod.splits option.splits if_splits)


lemma tidy_served:
  obtains w v where "serve tidy_ops (RqCreate 2 (Some ''b.txt'')) tidy_start = Some w"
    "serve tidy_ops (RqRelease 1) w = Some v" "mounted tidy_ops 9 False (close_finishes tidy_ops) v"
    "fs_fh_to_inode v = Map.empty" "fs_fillers v = []" "room 9 (fs_inodes v)"
proof (rule tidy_created)
  fix w
  assume w: "serve tidy_ops (RqCreate 2 (Some ''b.txt'')) tidy_start = Some w" "fs_fh_to_inode w = [1 \<mapsto> 3]"
    "fs_fillers w = []" "fs_next_fh w = 2" "next_inode (fs_inodes w) = 4"
    "\<And>b. wb_buffers (fs_write_buf w) 1 = Some b \<Longrightarrow> \<not> fb_dirty b"
  have "kernel_sends 9 tidy_start (RqCreate 2 (Some ''b.txt''))"
    by (simp add: kernel_sends_def kernel_checked_def descriptor_checked_def fresh_number_def room_def tidy_start_sel
        table_eval)
  then have 1: "mounted tidy_ops 9 False (close_finishes tidy_ops) w"
    using served [OF tidy_start_mounted _ _ w(1)] by (simp add: close_finishes_def)
  have "kernel_sends 9 w (RqRelease 1)"
    using w by (simp add: kernel_sends_def kernel_checked_def descriptor_checked_def fresh_number_def room_def)
  moreover have same: "fs_inodes (snd (fs_release tidy_ops 1 w)) = fs_inodes w" by (rule clean_close [OF w(6)])
  ultimately have 2: "mounted tidy_ops 9 False (close_finishes tidy_ops) (snd (fs_release tidy_ops 1 w))"
    using served [OF 1, of "RqRelease 1"] by (simp add: close_finishes_def same_names_def)
  show thesis
    by (rule that [OF w(1) _ 2]) (simp_all add: released w same room_def)
qed

section \<open>Properties\<close>

text \<open>
  C8. Nothing is left behind: in every state of a mount, whatever was sent and whatever failed,
  a write buffer belongs to a descriptor that is open on its inode, and cached bytes to an
  inode that is open or still being downloaded; so once every descriptor is closed and every
  download has ended, the mount holds no write buffer and no read cache.
\<close>

theorem nothing_is_left_behind:
  assumes "mounted ops n ro Q w"
  shows "(\<forall>fh b. wb_buffers (fs_write_buf w) fh = Some b \<longrightarrow> fs_fh_to_inode w fh = Some (fb_inode b)) \<and>
     (\<forall>i c. fs_read_cache w i = Some c \<longrightarrow> i \<in> ran (fs_fh_to_inode w) \<or> (\<exists>d. (i, c, d) \<in> set (fs_fillers w))) \<and>
     (fs_fh_to_inode w = Map.empty \<and> fs_fillers w = [] \<longrightarrow>
        wb_buffers (fs_write_buf w) = Map.empty \<and> fs_read_cache w = Map.empty)"
proof -
  note books = books_rightD(2,3) [OF mounted_books [OF assms]]
  have buf: "fs_fh_to_inode w fh = Some (fb_inode b)" if "wb_buffers (fs_write_buf w) fh = Some b" for fh b
    using books(1) that by (simp add: buffers_owned_def)
  have cache: "i \<in> ran (fs_fh_to_inode w) \<or> (\<exists>d. (i, c, d) \<in> set (fs_fillers w))" if "fs_read_cache w i = Some c" for i c
    using caches_ownedD(2) [OF books(2) that] by (simp add: downloading_def)
  have "wb_buffers (fs_write_buf w) fh = None" "fs_read_cache w i = None"
    if "fs_fh_to_inode w = Map.empty" "fs_fillers w = []" for fh i
    using buf [of fh] cache [of i] that by (cases "wb_buffers (fs_write_buf w) fh"; cases "fs_read_cache w i"; simp)+
  then show ?thesis using buf cache by auto
qed

theorem nothing_is_left_behind_witness:
  "\<exists>w v. serve tidy_ops (RqCreate 2 (Some ''b.txt'')) tidy_start = Some w \<and> serve tidy_ops (RqRelease 1) w = Some v \<and>
     wb_buffers (fs_write_buf v) = Map.empty \<and> fs_read_cache v = Map.empty"
proof (rule tidy_served)
  fix w v
  assume "serve tidy_ops (RqCreate 2 (Some ''b.txt'')) tidy_start = Some w" "serve tidy_ops (RqRelease 1) w = Some v"
    "mounted tidy_ops 9 False (close_finishes tidy_ops) v" "fs_fh_to_inode v = Map.empty" "fs_fillers v = []"
  with nothing_is_left_behind show ?thesis by blast
qed

text \<open>
  C7. A mount stays sound from its start, on any device, as long as no close leaves an upload
  under its temporary name: after any run of requests, events and downloads, whatever else
  fails in it, the inode table is sound, every walk up it ends, and neither \<open>lookup\<close> nor
  \<open>create\<close> nor \<open>mkdir\<close> panics, whatever they are asked next.
\<close>

theorem mounts_stay_sound:
  assumes "mounted ops n ro (close_finishes ops) w" and "folders_within n ops" and "room n (fs_inodes w)"
  shows "tab_wf (fs_inodes w) \<and> chain_walk (fs_inodes w) i [] \<noteq> None \<and> storage_walk (fs_inodes w) i \<noteq> None \<and>
     (\<forall>name. fst (fs_lookup ops p name w) \<noteq> Panicked \<and> fst (fs_create ops p name w) \<noteq> Panicked \<and>
        fst (fs_mkdir ops p name w) \<noteq> Panicked)"
proof -
  note reach = mounted_tree [OF assms(1,2)]
  have "tab_wf (fs_inodes (load_dir ops p w))"
    using reach_steps [OF reach load_steps [OF assms(2,3) reach]] by (rule tab_reach_wf)
  then show ?thesis
    using tab_reach_wf [OF reach] walks_end [OF tab_reach_acyclic [OF reach]]
    by (simp add: lookup_answers create_answers mkdir_answers)
qed

theorem mounts_stay_sound_witness:
  "\<exists>w v. serve tidy_ops (RqCreate 2 (Some ''b.txt'')) tidy_start = Some w \<and> serve tidy_ops (RqRelease 1) w = Some v \<and>
     tab_wf (fs_inodes v) \<and> fst (fs_lookup tidy_ops 2 (Some ''b.txt'') v) \<noteq> Panicked"
proof (rule tidy_served)
  fix w v
  assume "serve tidy_ops (RqCreate 2 (Some ''b.txt'')) tidy_start = Some w" "serve tidy_ops (RqRelease 1) w = Some v"
    "mounted tidy_ops 9 False (close_finishes tidy_ops) v" "room 9 (fs_inodes v)"
  with mounts_stay_sound [OF _ tidy_device] show ?thesis by blast
qed

end
