(* ===== verification/Run_Reads.thy ===== *)
theory Run_Reads
  imports Run_Facts Read_Facts
begin

text \<open>
  Reading through a whole read-only mount: a device that shows one object under one name,
  whatever else it holds, and a kernel that lists, opens, reads, closes and reconnects as it
  likes. In every state the entries and caches of that name hold the object, so every read
  of it is right; nothing is asked of the other files.
\<close>

section \<open>A device that shows the object\<close>

text \<open>Every listing that shows the name \<open>n\<close> shows the object: a file of \<open>tot\<close> bytes with a handle in \<open>H\<close>.\<close>

definition shows_object :: "('dev, 's, 'd) mtp_ops \<Rightarrow> object_handle set \<Rightarrow> string \<Rightarrow> u64 \<Rightarrow> bool" where
  "shows_object ops H n tot \<longleftrightarrow>
     (\<forall>s p d obs d'. op_list ops s p d = (Inr obs, d') \<longrightarrow>
        (\<forall>ob \<in> set obs. ob_filename ob = n \<longrightarrow> ob_handle ob \<in> H \<and> \<not> ob_is_folder ob \<and> ob_size ob = tot))"

definition sends_object :: "('dev, 's, 'd) mtp_ops \<Rightarrow> object_handle set \<Rightarrow> (nat \<Rightarrow> byte) \<Rightarrow> bool" where
  "sends_object ops H obj \<longleftrightarrow>
     (\<forall>s h d stopz turns d'. h \<in> H \<longrightarrow> op_download ops s h d = (Inr (stopz, turns), d') \<longrightarrow> stream_of obj 0 turns)"

definition named :: "string \<Rightarrow> inode \<Rightarrow> inode_table \<Rightarrow> bool" where
  "named n i t \<longleftrightarrow> (\<exists>e. entries t i = Some e \<and> ie_name e = n)"

definition titled :: "object_handle set \<Rightarrow> string \<Rightarrow> u64 \<Rightarrow> inode_table \<Rightarrow> bool" where
  "titled H n tot t \<longleftrightarrow>
     (\<forall>i e h. entries t i = Some e \<longrightarrow> ie_name e = n \<longrightarrow> ie_kind e = File h \<longrightarrow> h \<in> H \<and> ie_size e = tot)"

lemma shows_lists: "shows_object ops H n tot \<Longrightarrow> lists_as ops H n"
  by (auto simp: shows_object_def lists_as_def)

lemma titled_known: "titled H n tot t \<Longrightarrow> named n i t \<Longrightarrow> known_as H n i t"
  by (auto simp: titled_def named_def known_as_def)

section \<open>Sessions\<close>

text \<open>A session only changes handles, and the ones it finds for the name are the object's.\<close>

lemma named_skeleton_imp:
  assumes "skeleton t' = skeleton t" and "named n i t"
  shows "named n i t'"
proof -
  obtain e where e: "entries t i = Some e" "ie_name e = n" using assms(2) by (auto simp: named_def)
  obtain e' where "entries t' i = Some e'" "identity e' = identity e" using skeleton_entry [OF assms(1) e(1)] .
  with e(2) identity_sel [of e' e] show ?thesis by (auto simp: named_def)
qed

lemma named_skeleton: "skeleton t' = skeleton t \<Longrightarrow> named n i t' = named n i t"
  using named_skeleton_imp [of t' t n i] named_skeleton_imp [of t t' n i] by auto

lemma titled_by_known:
  assumes "titled H n tot t" and "skeleton t' = skeleton t"
    and "\<And>i. named n i t \<Longrightarrow> known_as H n i t \<Longrightarrow> known_as H n i t'"
  shows "titled H n tot t'"
  unfolding titled_def
proof (intro allI impI)
  fix i e h
  assume e: "entries t' i = Some e" "ie_name e = n" "ie_kind e = File h"
  obtain f where f: "entries t i = Some f" "identity f = identity e"
    using skeleton_entry [OF assms(2) [symmetric] e(1)] .
  note same = identity_sel [OF f(2)]
  have "shape (ie_kind f) = File 0" using same e(3) by simp
  then obtain k where k: "ie_kind f = File k" by (auto simp: shape_def split: inode_kind.splits)
  have nm: "named n i t" using f(1) same e(2) by (auto simp: named_def)
  then have "known_as H n i t'" using assms(3) titled_known [OF assms(1)] by blast
  moreover have "ie_size f = tot" using assms(1) f(1) same e(2) k by (auto simp: titled_def)
  ultimately show "h \<in> H \<and> ie_size e = tot" using e same by (auto simp: known_as_def)
qed

definition titles :: "object_handle set \<Rightarrow> string \<Rightarrow> u64 \<Rightarrow> ('dev, 's, 'd) mtp_fs \<Rightarrow> ('dev, 's, 'd) mtp_fs \<Rightarrow> bool" where
  "titles H n tot w w' \<longleftrightarrow>
     tree_moves w w' \<and> (titled H n tot (fs_inodes w) \<longrightarrow> titled H n tot (fs_inodes w'))"

lemma titles_by_frame:
  assumes "tree_moves w w'" and "\<And>i. stays_known H n i w w'"
  shows "titles H n tot w w'"
  using assms titled_by_known [of H n tot "fs_inodes w" "fs_inodes w'"]
  by (auto simp: titles_def stays_known_def tree_moves_def dest: same_mountD(1))

lemma titles_frame:
  fixes ops :: "('dev, 's, 'd) mtp_ops"
  assumes laws: "shows_object ops H n tot"
  shows "session_frame (titles H n tot :: ('dev, 's, 'd) mtp_fs \<Rightarrow> ('dev, 's, 'd) mtp_fs \<Rightarrow> bool) ops"
proof
  note known = known_frame [OF shows_lists [OF laws]]
  fix w :: "('dev, 's, 'd) mtp_fs"
  show "titles H n tot u w" if "titles H n tot u v" "titles H n tot v w" for u v
    using that by (auto simp: titles_def intro: tracks.chain)
  show "titles H n tot w (invalidate_handles w)" "titles H n tot w (give_up why w)" for why
    by (auto intro!: titles_by_frame tracks.any_forget tracks.any_quit session_frame.forget [OF known]
        session_frame.quit [OF known])
  show "titles H n tot w (w\<lparr>fs_inodes := bump_generation (remap_storages ss 0 (children (fs_inodes w) ROOT_INODE) (fs_inodes w)),
        fs_storages := ss, fs_device := dev, fs_dirs_loaded := [ROOT_INODE \<mapsto> True],
        fs_event_epoch := fs_event_epoch w + 1,
        fs_event_loops := fs_event_loops w @ [(dev, fs_event_epoch w + 1)]\<rparr>)" for ss dev
    by (auto intro!: titles_by_frame tracks.any_adopted session_frame.adopted [OF known])
  show "within (titles H n tot) (resolve_node ops idx node parent :: ('dev, 's, 'd, object_handle option) fs_op)"
    for idx node parent
    by (rule withinI)
      (auto intro!: titles_by_frame dest: withinD [OF tracks.any_node] withinD [OF session_frame.session_nodes [OF known]])
qed (auto simp: titles_def tracks.same tracks.env)

section \<open>Listings\<close>

text \<open>A listed child that is the object keeps the table titled; numbers in use keep their names.\<close>

definition child_fits :: "object_handle set \<Rightarrow> string \<Rightarrow> u64 \<Rightarrow> child_info \<Rightarrow> bool" where
  "child_fits H n tot c \<longleftrightarrow> ci_name c = n \<longrightarrow> ci_handle c \<in> H \<and> \<not> ci_is_dir c \<and> ci_size c = tot"

definition renumbers :: "object_handle set \<Rightarrow> string \<Rightarrow> u64 \<Rightarrow> inode_table \<Rightarrow> inode_table \<Rightarrow> bool" where
  "renumbers H n tot t t' \<longleftrightarrow> titled H n tot t' \<and> next_inode t \<le> next_inode t' \<and>
     (\<forall>i. i < next_inode t \<longrightarrow> named n i t' \<longrightarrow> named n i t)"

lemma renumbers_chain: "renumbers H n tot t u \<Longrightarrow> renumbers H n tot u v \<Longrightarrow> renumbers H n tot t v"
  unfolding renumbers_def by (metis order_less_le_trans order_trans)

lemma renumbers_fewer:
  assumes "titled H n tot t" and "\<And>i e. entries t' i = Some e \<Longrightarrow> entries t i = Some e" and "next_inode t' = next_inode t"
  shows "renumbers H n tot t t'"
  using assms by (auto simp: renumbers_def titled_def named_def)

lemma added_renumbers:
  assumes "titled H n tot t" and "child_fits H n tot c" and "tab_wf t" and "room 1 t" and "p < next_inode t"
  shows "renumbers H n tot t (add_child p c t)"
proof -
  let ?e = "child_entry p c (next_inode t) (generation t)"
  note new = add_child_wf [OF assms(3-5), of c]
  have ent: "entries (add_child p c t) j = (if j = next_inode t then Some ?e else if sits t p (ci_name c) j then None else entries t j)" for j
    using new(2) by (simp add: placed_def child_entry_def)
  have "next_inode (add_child p c t) = next_inode t + 1" using new(2) by (simp add: placed_def)
  moreover have "next_inode t < next_inode t + 1"
    using next_room [of 0 t] assms(4) by (simp add: word_less_unat)
  moreover have "ie_name ?e = ci_name c" "ie_kind ?e = (if ci_is_dir c then Directory (ci_handle c) else File (ci_handle c))"
      "ie_size ?e = ci_size c"
    by (simp_all add: child_entry_def)
  ultimately show ?thesis
    using assms(1,2) by (auto simp: renumbers_def titled_def named_def ent child_fits_def split: if_splits)
qed

lemma synced_renumbers:
  assumes t: "titled H n tot t" and c: "child_fits H n tot c" and wf: "tab_wf t" and rm: "room 1 t" and p: "p < next_inode t"
  shows "renumbers H n tot t (sync_child p c t)"
proof (cases "lookup t p (ci_name c)")
  case None
  then show ?thesis using added_renumbers [OF assms] by (simp add: sync_child_def)
next
  case (Some i)
  obtain e where e: "entries t i = Some e" "ie_name e = ci_name c" using Some named_entry [OF wf] by metis
  have root: "i \<noteq> ROOT_INODE" using Some by (rule named_not_root [OF wf])
  show ?thesis
  proof (cases "is_dir e = ci_is_dir c")
    case True
    then show ?thesis
      using t c e Some
      by (auto simp: sync_child_def renumbers_def titled_def named_def child_fits_def refresh_child_def split: if_splits)
  next
    case False
    let ?t = "snd (remove_entry i t)"
    note rem = remove_obs [OF e(1)]
    have gone: "renumbers H n tot t ?t"
      using t by (rule renumbers_fewer) (auto simp: rem split: if_splits)
    then have "renumbers H n tot ?t (add_child p c ?t)"
      using wf rm p c by (intro added_renumbers remove_wf root) (auto simp: renumbers_def rem room_def)
    with gone show ?thesis using Some e False by (auto simp: sync_child_def intro: renumbers_chain)
  qed
qed

lemma renumbers_refl: "titled H n tot t \<Longrightarrow> renumbers H n tot t t"
  by (simp add: renumbers_def)

lemma fold_renumbers:
  assumes "titled H n tot t" and "\<And>c. c \<in> set cs \<Longrightarrow> child_fits H n tot c" and "tab_wf t" and "room (length cs) t"
    and "p < next_inode t"
  shows "renumbers H n tot t (fold (sync_child p) cs t)"
  using assms(2,4)
proof (induction cs rule: rev_induct)
  case (snoc c cs)
  let ?u = "fold (sync_child p) cs t"
  have rm: "room (length cs) t" using snoc.prems(2) by (simp add: room_def)
  note r = relistedD [OF fold_sync_relisted [OF assms(3) rm assms(5)]]
  have u: "renumbers H n tot t ?u" using snoc rm by simp
  have "renumbers H n tot ?u (sync_child p c ?u)"
    using u snoc.prems r(1,3,4) assms(5) by (intro synced_renumbers) (auto simp: renumbers_def room_def)
  with u show ?case by (auto intro: renumbers_chain)
qed (simp add: renumbers_refl assms(1))

lemma removed_entries: "entries (snd (remove_entry i t)) = (entries t)(i := None)"
  by (cases "entries t i") (simp_all add: remove_obs(2) fun_upd_idem)

lemma removed_all_fewer:
  "(entries (remove_all is t) i = Some e \<longrightarrow> entries t i = Some e) \<and> next_inode (remove_all is t) = next_inode t"
proof (induction "is" arbitrary: t)
  case (Cons j rest)
  have "remove_all (j # rest) t = remove_all rest (snd (remove_entry j t))" by (simp add: remove_all_def)
  then show ?case using Cons [of "snd (remove_entry j t)"] by (simp add: removed_next removed_entries split: if_splits)
qed (simp add: remove_all_def)

lemma listing_renumbers:
  assumes "titled H n tot t" and "\<And>c. c \<in> set cs \<Longrightarrow> child_fits H n tot c" and "tab_wf t" and "room (length cs) t"
    and "p < next_inode t"
  shows "renumbers H n tot t (sync_children p cs t)"
proof -
  let ?u = "fold (sync_child p) cs t"
  have u: "renumbers H n tot t ?u" by (rule fold_renumbers [OF assms])
  let ?g = "gone_children p cs ?u"
  have "renumbers H n tot ?u (remove_all ?g ?u)"
  proof (rule renumbers_fewer)
    show "titled H n tot ?u" using u by (simp add: renumbers_def)
    show "entries ?u i = Some e" if "entries (remove_all ?g ?u) i = Some e" for i e
      using removed_all_fewer that by blast
    show "next_inode (remove_all ?g ?u) = next_inode ?u" using removed_all_fewer by blast
  qed
  then have "renumbers H n tot ?u (sync_children p cs t)" by (simp add: sync_children_def Let_def)
  with u show ?thesis by (rule renumbers_chain)
qed

lemma moves_renumbers:
  assumes "titles H n tot w w'" and "titled H n tot (fs_inodes w)"
  shows "renumbers H n tot (fs_inodes w) (fs_inodes w')"
proof -
  have sk: "skeleton (fs_inodes w') = skeleton (fs_inodes w)"
    using assms(1) by (simp add: titles_def tree_moves_def same_mountD(1))
  then show ?thesis using assms by (simp add: renumbers_def titles_def named_skeleton [OF sk] skeletonD(3) [OF sk])
qed

lemma object_fits:
  assumes "shows_object ops H n tot" and "op_list ops s p d = (Inr obs, d')" and "c \<in> set (map child_of_object obs)"
  shows "child_fits H n tot c"
proof -
  obtain ob where "ob \<in> set obs" "c = child_of_object ob" using assms(3) by auto
  then show ?thesis using assms(1,2) unfolding shows_object_def child_fits_def child_of_object_def by fastforce
qed

lemma load_renumbers:
  assumes laws: "shows_object ops H n tot" "folders_within k ops" and rm: "room k (fs_inodes w)"
    and reach: "tab_step\<^sup>*\<^sup>* it_new (fs_inodes w)" and t: "titled H n tot (fs_inodes w)"
  shows "renumbers H n tot (fs_inodes w) (fs_inodes (load_dir ops p w))"
proof -
  note frame = titles_frame [OF laws(1)]
  obtain r v where rec: "with_recovery ops (\<lambda>_. list_into_table ops p) w = (r, v)" by fastforce
  have err: "titles H n tot s s'" if "list_into_table ops p s = (Inl e, s')" for s e s'
    using that by (cases rule: session_frame.listing_cases [OF frame]) auto
  have out: "case r of Inr x \<Rightarrow> \<exists>u. titles H n tot w u \<and> list_into_table ops p u = (Inr x, v) | Inl e \<Rightarrow> titles H n tot w v"
    using session_frame.recovered [OF frame, where attempt = "\<lambda>_. list_into_table ops p", OF err rec]
    by (auto split: sum.splits)
  have "renumbers H n tot (fs_inodes w) (fs_inodes v)"
  proof (cases r)
    case (Inl e)
    then show ?thesis using out t by (simp add: moves_renumbers)
  next
    case (Inr x)
    then obtain u where u: "titles H n tot w u" "list_into_table ops p u = (Inr x, v)" using out by auto
    obtain y s mp d d' objects where listed: "titles H n tot u y" "entries (fs_inodes y) p \<noteq> None"
        "op_list ops s mp d = (Inr objects, d')" "v = upd_inodes (sync_children p (map child_of_object objects)) y"
      using u(2) by (rule session_frame.listing_cases [OF frame]) auto
    have wy: "titles H n tot w y" using u(1) listed(1) by (auto intro: tracks.chain simp: titles_def)
    then have ty: "titled H n tot (fs_inodes y)" and my: "tree_moves w y" using t by (auto simp: titles_def)
    have wf: "tab_wf (fs_inodes y)" using reach my by (auto simp: tree_moves_def intro: tab_reach_wf reach_steps)
    have "room (length (map child_of_object objects)) (fs_inodes y)"
      using laws(2) rm listed(3) tree_next [OF my] by (force simp: folders_within_def room_def)
    then have "renumbers H n tot (fs_inodes y) (fs_inodes v)"
      using listed(2,4) ty wf tab_wf_entry [OF wf] object_fits [OF laws(1) listed(3)]
      by (auto simp: upd_inodes_def intro!: listing_renumbers)
    then show ?thesis using moves_renumbers [OF wy t] by (rule renumbers_chain [rotated])
  qed
  then show ?thesis using rec renumbers_refl [OF t] by (auto simp: load_dir_def split: sum.splits)
qed

section \<open>What the mount holds of the object\<close>

definition object_kept ::
  "object_handle set \<Rightarrow> string \<Rightarrow> (nat \<Rightarrow> byte) \<Rightarrow> u64 \<Rightarrow> ('dev, 's, 'd) mtp_fs \<Rightarrow> bool" where
  "object_kept H n obj tot w \<longleftrightarrow>
     titled H n tot (fs_inodes w) \<and>
     (\<forall>i c. fs_read_cache w i = Some c \<longrightarrow>
        i < next_inode (fs_inodes w) \<and> (named n i (fs_inodes w) \<longrightarrow> sh_ok obj tot (fs_heap w c))) \<and>
     (\<forall>i c d. (i, c, d) \<in> set (fs_fillers w) \<longrightarrow>
        i < next_inode (fs_inodes w) \<and> c < fs_next_cache w \<and> (\<forall>j. fs_read_cache w j = Some c \<longrightarrow> j = i) \<and>
        (named n i (fs_inodes w) \<longrightarrow> stream_of obj 0 (snd d)))"

lemma object_keptD:
  assumes "object_kept H n obj tot w"
  shows "titled H n tot (fs_inodes w)"
    "fs_read_cache w i = Some c \<Longrightarrow> i < next_inode (fs_inodes w)"
    "fs_read_cache w i = Some c \<Longrightarrow> named n i (fs_inodes w) \<Longrightarrow> sh_ok obj tot (fs_heap w c)"
    "(i, c, d) \<in> set (fs_fillers w) \<Longrightarrow> i < next_inode (fs_inodes w) \<and> c < fs_next_cache w"
    "(i, c, d) \<in> set (fs_fillers w) \<Longrightarrow> fs_read_cache w j = Some c \<Longrightarrow> j = i"
    "(i, c, d) \<in> set (fs_fillers w) \<Longrightarrow> named n i (fs_inodes w) \<Longrightarrow> stream_of obj 0 (snd d)"
  using assms unfolding object_kept_def by blast+

text \<open>Forgetting caches and tasks, and numbering new entries, keeps it.\<close>

lemma kept_fewer:
  assumes kept: "object_kept H n obj tot w" and t: "renumbers H n tot (fs_inodes w) (fs_inodes w')"
    and same: "fs_heap w' = fs_heap w" "fs_next_cache w' = fs_next_cache w"
    and fewer: "\<And>i c. fs_read_cache w' i = Some c \<Longrightarrow> fs_read_cache w i = Some c" "set (fs_fillers w') \<subseteq> set (fs_fillers w)"
  shows "object_kept H n obj tot w'"
proof -
  note k = object_keptD [OF kept]
  have t': "titled H n tot (fs_inodes w')" "next_inode (fs_inodes w) \<le> next_inode (fs_inodes w')"
    "i < next_inode (fs_inodes w) \<Longrightarrow> named n i (fs_inodes w') \<Longrightarrow> named n i (fs_inodes w)" for i
    using t by (auto simp: renumbers_def)
  show ?thesis
    unfolding object_kept_def same
    using k(2) [OF fewer(1)] k(3) [OF fewer(1)] k(4) [OF subsetD [OF fewer(2)]] k(5) [OF subsetD [OF fewer(2)] fewer(1)]
      k(6) [OF subsetD [OF fewer(2)]] t' by (meson order_less_le_trans)
qed

definition same_rest :: "('dev, 's, 'd) mtp_fs \<Rightarrow> ('dev, 's, 'd) mtp_fs \<Rightarrow> bool" where
  "same_rest w w' \<longleftrightarrow> fs_heap w' = fs_heap w \<and> fs_next_cache w' = fs_next_cache w \<and>
     fs_read_cache w' = fs_read_cache w \<and> fs_fillers w' = fs_fillers w"

interpretation rest: resolving_frame same_rest ops for ops
  by unfold_locales (auto simp: same_rest_def invalidate_handles_def give_up_def upd_inodes_def)

lemma load_rest: "same_rest w (load_dir ops p w)"
proof -
  have listing: "within same_rest (list_into_table ops p)"
    unfolding list_into_table_def by (intro rest.session_within rest.modify) (simp add: same_rest_def upd_inodes_def)
  obtain r v where r: "with_recovery ops (\<lambda>_. list_into_table ops p) w = (r, v)" by fastforce
  have "same_rest w v" by (rule withinD [OF rest.with_recoveries [OF listing] r])
  then show ?thesis using r by (auto simp: load_dir_def same_rest_def split: sum.splits)
qed

lemma kept_same:
  assumes "object_kept H n obj tot w" and "fs_inodes w' = fs_inodes w" and "fs_heap w' = fs_heap w"
    and "fs_next_cache w' = fs_next_cache w" and "\<And>i c. fs_read_cache w' i = Some c \<Longrightarrow> fs_read_cache w i = Some c"
    and "set (fs_fillers w') \<subseteq> set (fs_fillers w)"
  shows "object_kept H n obj tot w'"
  using assms(1) by (rule kept_fewer) (use assms renumbers_refl object_keptD(1) [OF assms(1)] in auto)

lemma kept_load:
  assumes "shows_object ops H n tot" "folders_within k ops" and "room k (fs_inodes w)"
    and "tab_step\<^sup>*\<^sup>* it_new (fs_inodes w)" and "object_kept H n obj tot w"
  shows "object_kept H n obj tot (load_dir ops p w)"
  using assms(5) load_renumbers [OF assms(1-4) object_keptD(1) [OF assms(5)]]
  by (rule kept_fewer) (use load_rest [of w ops p] in \<open>auto simp: same_rest_def\<close>)

section \<open>Reading\<close>

text \<open>
  What a read through the cache \<open>c\<close> of inode \<open>i\<close> does to the rest: other caches keep their
  bytes, and a task it adds downloads for that cache, the object if the inode has the name.
\<close>

definition through ::
  "object_handle set \<Rightarrow> string \<Rightarrow> (nat \<Rightarrow> byte) \<Rightarrow> u64 \<Rightarrow> inode \<Rightarrow> cache_id \<Rightarrow>
   ('dev, 's, 'd) mtp_fs \<Rightarrow> ('dev, 's, 'd) mtp_fs \<Rightarrow> bool" where
  "through H n obj tot i c w w' \<longleftrightarrow>
     skeleton (fs_inodes w') = skeleton (fs_inodes w) \<and> fs_read_cache w' = fs_read_cache w \<and>
     fs_next_cache w' = fs_next_cache w \<and> (\<forall>k. k \<noteq> c \<longrightarrow> fs_heap w' k = fs_heap w k) \<and>
     (titled H n tot (fs_inodes w) \<longrightarrow> titled H n tot (fs_inodes w') \<and>
        (\<forall>x \<in> set (fs_fillers w'). x \<in> set (fs_fillers w) \<or>
           (\<exists>d. x = (i, c, d) \<and> (named n i (fs_inodes w) \<longrightarrow> stream_of obj 0 (snd d)))))"

lemma through_titles: "titles H n tot w w' \<Longrightarrow> through H n obj tot i c w w'"
  by (auto simp: through_def titles_def tree_moves_def same_mount_def mount_view_def)

lemma through_cache: "through H n obj tot i c w (upd_cache c f w)"
  by (simp add: through_def upd_cache_def)

lemma through_chain:
  assumes "through H n obj tot i c u v" and "through H n obj tot i c v w"
  shows "through H n obj tot i c u w"
proof -
  have sk: "skeleton (fs_inodes v) = skeleton (fs_inodes u)" using assms(1) by (simp add: through_def)
  have "x \<in> set (fs_fillers u) \<or> (\<exists>d. x = (i, c, d) \<and> (named n i (fs_inodes u) \<longrightarrow> stream_of obj 0 (snd d)))"
    if "titled H n tot (fs_inodes u)" "x \<in> set (fs_fillers w)" for x
    using assms that unfolding through_def named_skeleton [OF sk] by blast
  then show ?thesis using assms by (simp add: through_def)
qed

lemma through_download:
  assumes laws: "shows_object ops H n tot" "sends_object ops H obj"
    and run: "with_recovery ops (\<lambda>_. on_file ops i (op_download ops)) w = (q, u)"
  shows "through H n obj tot i c w u"
    and "q = Inr download \<Longrightarrow>
      through H n obj tot i c w (u\<lparr>fs_full_fill_counter := k, fs_fillers := fs_fillers u @ [(i, c, download)]\<rparr>)"
proof -
  note frame = titles_frame [OF laws(1)]
  show u: "through H n obj tot i c w u"
    by (rule through_titles, rule withinD [OF session_frame.with_recoveries [OF frame session_frame.reads_on_file [OF frame]] run])
  assume q: "q = Inr download"
  have "stream_of obj 0 (snd download)" if "titled H n tot (fs_inodes w)" "named n i (fs_inodes w)"
    using recovered_answer [OF shows_lists [OF laws(1)] titled_known [OF that] run [unfolded q]] laws(2)
    unfolding sends_object_def by (cases download) (simp, blast)
  then show "through H n obj tot i c w (u\<lparr>fs_full_fill_counter := k, fs_fillers := fs_fillers u @ [(i, c, download)]\<rparr>)"
    using u by (cases download) (auto simp: through_def)
qed

lemma through_start:
  assumes laws: "shows_object ops H n tot" "sends_object ops H obj"
  shows "through H n obj tot i c w (ensure_full_fill_running ops i c w)"
proof -
  obtain claimed sc where s: "start_fill (fs_heap w c) = (claimed, sc)" by fastforce
  define v where "v = upd_cache c (\<lambda>_. sc) w"
  obtain registered t where r: "register c (fs_fills v) = (registered, t)" by fastforce
  define x where "x = upd_fills (\<lambda>_. t) v"
  obtain q u where d: "with_recovery ops (\<lambda>_. on_file ops i (op_download ops)) x = (q, u)" by fastforce
  have fills: "through H n obj tot i c w (upd_fills g y) = through H n obj tot i c w y" for g y
    by (simp add: through_def upd_fills_def)
  have x: "through H n obj tot i c w x" using through_cache by (simp add: x_def v_def fills)
  note down = through_chain [OF x through_download(1) [OF laws d]] through_chain [OF x through_download(2) [OF laws d]]
  have ended: "through H n obj tot i c w (upd_cache c f y)" if "through H n obj tot i c w y" for f y
    using that through_cache by (rule through_chain)
  have "ensure_full_fill_running ops i c w =
      (if \<not> claimed then v
       else if \<not> registered then upd_cache c (\<lambda>s. sh_fail s (fill_failure_new
           ''the mount is going away, so no new whole-object download was started'' False)) x
       else case q of
         Inl e \<Rightarrow> upd_fills (finished c) (upd_cache c (\<lambda>s. sh_fail s (fill_failure_new (op_error_text ops e) (is_link_lost e))) u)
       | Inr download \<Rightarrow> u\<lparr>fs_full_fill_counter := fs_full_fill_counter u + 1,
           fs_fillers := fs_fillers u @ [(i, c, download)]\<rparr>)"
    unfolding ensure_full_fill_running_def s Let_def prod.case v_def [symmetric] r x_def [symmetric] d
    by (simp split: sum.splits)
  then show ?thesis
    using ended [OF x] ended [OF down(1)] down(2) through_cache by (auto simp: v_def fills split: sum.split)
qed

lemma through_frame:
  fixes ops :: "('dev, 's, 'd) mtp_ops"
  assumes laws: "shows_object ops H n tot" "sends_object ops H obj"
  shows "caching_frame (through H n obj tot i c :: ('dev, 's, 'd) mtp_fs \<Rightarrow> ('dev, 's, 'd) mtp_fs \<Rightarrow> bool) ops c i"
proof unfold_locales
  note frame = titles_frame [OF laws(1)]
  fix u v w :: "('dev, 's, 'd) mtp_fs"
  show "through H n obj tot i c u w" if "through H n obj tot i c u v" "through H n obj tot i c v w"
    using that by (rule through_chain)
  show "through H n obj tot i c w (invalidate_handles w)" "through H n obj tot i c w (give_up why w)" for why
    by (rule through_titles, rule session_frame.forget [OF frame])
      (rule through_titles, rule session_frame.quit [OF frame])
  show "through H n obj tot i c w (w\<lparr>fs_inodes := bump_generation (remap_storages ss 0 (children (fs_inodes w) ROOT_INODE) (fs_inodes w)),
        fs_storages := ss, fs_device := dev, fs_dirs_loaded := [ROOT_INODE \<mapsto> True],
        fs_event_epoch := fs_event_epoch w + 1,
        fs_event_loops := fs_event_loops w @ [(dev, fs_event_epoch w + 1)]\<rparr>)" for ss dev
    by (rule through_titles, rule session_frame.adopted [OF frame])
  show "within (through H n obj tot i c) (resolve_node ops idx node parent :: ('dev, 's, 'd, object_handle option) fs_op)"
    for idx node parent
    by (rule withinI) (rule through_titles, rule withinD [OF session_frame.session_nodes [OF frame]])
  show "through H n obj tot i c w (ensure_full_fill_running ops i c w)" by (rule through_start [OF laws])
qed (simp_all add: through_cache, simp_all add: through_def)

lemma through_kept:
  assumes thr: "through H n obj tot i c w w'" and kept: "object_kept H n obj tot w" and bk: "books_right w"
    and c: "fs_read_cache w i = Some c" and ok: "named n i (fs_inodes w) \<Longrightarrow> sh_ok obj tot (fs_heap w' c)"
  shows "object_kept H n obj tot w'"
proof -
  note k = object_keptD [OF kept] and own = caches_ownedD [OF books_rightD(3) [OF bk]]
  have sk: "skeleton (fs_inodes w') = skeleton (fs_inodes w)" and
    same: "fs_read_cache w' = fs_read_cache w" "fs_next_cache w' = fs_next_cache w" "\<And>k. k \<noteq> c \<Longrightarrow> fs_heap w' k = fs_heap w k"
    and t: "titled H n tot (fs_inodes w')" using thr k(1) by (auto simp: through_def)
  have tasks: "(j, b, d) \<in> set (fs_fillers w) \<or> j = i \<and> b = c \<and> (named n i (fs_inodes w) \<longrightarrow> stream_of obj 0 (snd d))"
    if "(j, b, d) \<in> set (fs_fillers w')" for j b d
    using thr k(1) that by (auto simp: through_def)
  show ?thesis
    unfolding object_kept_def same named_skeleton [OF sk] skeletonD(3) [OF sk]
  proof (intro conjI allI impI)
    show "titled H n tot (fs_inodes w')" by (rule t)
    fix j b
    assume jb: "fs_read_cache w j = Some b"
    show "j < next_inode (fs_inodes w)" using k(2) [OF jb] .
    assume nm: "named n j (fs_inodes w)"
    show "sh_ok obj tot (fs_heap w' b)"
    proof (cases "b = c")
      case True
      then show ?thesis using own(4) [OF c, of j] jb nm ok by simp
    qed (use k(3) [OF jb nm] same(3) in simp)
  next
    fix j b d
    assume "(j, b, d) \<in> set (fs_fillers w')"
    from tasks [OF this] show "j < next_inode (fs_inodes w)" "b < fs_next_cache w"
      "\<And>l. fs_read_cache w l = Some b \<Longrightarrow> l = j" "named n j (fs_inodes w) \<Longrightarrow> stream_of obj 0 (snd d)"
      using k(4-6) k(2) [OF c] own(1) [OF c] own(4) [OF c] by blast+
  qed
qed

lemma cache_kept:
  assumes kept: "object_kept H n obj tot w" and wf: "tab_wf (fs_inodes w)" and e: "entries (fs_inodes w) i = Some e"
    and plain: "\<not> is_dir e" and bk: "books_right w" and r: "read_cache_for ops i (ie_size e) w = (q, w')"
  shows "object_kept H n obj tot w' \<and> fs_inodes w' = fs_inodes w"
proof (cases "fs_read_cache w i")
  case None
  note k = object_keptD [OF kept]
  obtain t d where a: "ask (env_disk ops) w = (t, w\<lparr>fs_env := d\<rparr>)"
    by (cases "env_disk ops (fs_env w)") (auto simp: ask_def)
  obtain s d' where b: "ask (env_disk ops) (w\<lparr>fs_env := d\<rparr>) = (s, w\<lparr>fs_env := d'\<rparr>)"
    by (cases "env_disk ops d") (auto simp: ask_def)
  have size: "ie_size e = tot" if "named n i (fs_inodes w)"
    using k(1) that e plain by (auto simp: titled_def named_def is_dir_def split: inode_kind.splits)
  have i: "i < next_inode (fs_inodes w)" using tab_wf_entry [OF wf e] by simp
  show ?thesis
  proof (cases "sh_new t s (ie_size e) :: io_error + shared_cache")
    case (Inl x)
    then have "w' = w\<lparr>fs_env := d'\<rparr>" using r None a b by (auto simp: read_cache_for_def)
    then show ?thesis using kept by (simp add: object_kept_def)
  next
    case (Inr sc)
    let ?c = "fs_next_cache w"
    have w': "w' = w\<lparr>fs_env := d', fs_heap := (fs_heap w)(?c := sc), fs_next_cache := Suc ?c,
        fs_read_cache := (fs_read_cache w)(i \<mapsto> ?c)\<rparr>"
      using r None a b Inr by (auto simp: read_cache_for_def Let_def)
    have "sh_ok obj (ie_size e) sc" using Inr by (rule sh_new_ok)
    moreover have "j < ?c" if "fs_read_cache w l = Some j" for l j
      using caches_ownedD(1) [OF books_rightD(3) [OF bk] that] .
    moreover have "(l, ?c, d) \<notin> set (fs_fillers w)" for l d
      using k(4) by blast
    ultimately show ?thesis
      using k i size unfolding object_kept_def w' by (auto simp: less_Suc_eq split: if_splits)
  qed
qed (use assms in \<open>auto simp: read_cache_for_def\<close>)

text \<open>One read: what it leaves, and what it answers when the inode has the name.\<close>

lemma read_through:
  assumes laws: "shows_object ops H n tot" "sends_object ops H obj" "answers_object ops H obj" "answers_fit ops"
    and reading: "named n i (fs_inodes w) \<Longrightarrow> reading H n i obj tot c w \<and> len = tot \<and> views_ok obj tot views"
    and run: "(case read_strategy_for ops w len of
        Ranged \<Rightarrow> ranged_read ops i c len off (ucast sz) w
      | SequentialFull \<Rightarrow> sequential_read ops i c off (ucast sz) 1 views w
      | TooLargeForSequentialFull \<Rightarrow> Some (ReplyError EFBIG, w)) = Some (r, w')"
  shows "r = ReplyError EFBIG \<and> w' = w \<or> through H n obj tot i c w w' \<and>
    (named n i (fs_inodes w) \<longrightarrow> reading H n i obj tot c w' \<and> (\<forall>bs. r = Reply bs \<longrightarrow> bs = obj_slice obj tot off (ucast sz)))"
proof (cases "read_strategy_for ops w len")
  note frame = through_frame [OF laws(1,2), where i = i and c = c]
  case Ranged
  then have rr: "ranged_read ops i c len off (ucast sz) w = Some (r, w')" using run by simp
  then show ?thesis
    using fetching_frame.reads_ranged [OF caching_frame.axioms(1) [OF frame] rr] reading laws(1,3)
      ranged_read_ok [OF laws(4), of i c len off "ucast sz" w H n obj tot]
    by (auto simp: object_laws_def shows_lists)
next
  note frame = through_frame [OF laws(1,2), where i = i and c = c]
  case SequentialFull
  then have sr: "sequential_read ops i c off (ucast sz) 1 views w = Some (r, w')" using run by simp
  then show ?thesis
    using caching_frame.reads_sequential [OF frame sr] reading sequential_read_ok [OF shows_lists [OF laws(1)] _ sr]
    by auto
qed (use run in auto)

lemma read_kept:
  assumes laws: "shows_object ops H n tot" "sends_object ops H obj" "answers_object ops H obj" "answers_fit ops"
    and kept: "object_kept H n obj tot w" and bk: "books_right w" and wf: "tab_wf (fs_inodes w)"
    and plain: "\<not> wb_is_open (fs_write_buf w) fh" and open_on: "i \<in> ran (fs_fh_to_inode w)"
    and views: "named n i (fs_inodes w) \<Longrightarrow> views_ok obj tot views"
    and run: "fs_read ops views i fh off sz w = Some (r, w')"
  shows "object_kept H n obj tot w' \<and>
    (named n i (fs_inodes w) \<longrightarrow> (\<forall>bs. r = Reply bs \<longrightarrow> bs = obj_slice obj tot off (ucast sz)))"
proof (cases "\<exists>e. entries (fs_inodes w) i = Some e \<and> \<not> is_dir e \<and> sz \<noteq> 0 \<and> off < ie_size e")
  case False
  have "bs = obj_slice obj tot off (ucast sz)" if "named n i (fs_inodes w)" "r = Reply bs" for bs
    using run False that plain object_keptD(1) [OF kept]
    by (auto simp: fs_read_def named_def titled_def is_dir_def obj_slice_end not_less split: if_splits inode_kind.splits)
  moreover have "w' = w" using run False plain by (auto simp: fs_read_def not_less split: option.splits if_splits)
  ultimately show ?thesis using kept by blast
next
  case True
  then obtain e where e: "entries (fs_inodes w) i = Some e" "\<not> is_dir e" "sz \<noteq> 0" "\<not> off \<ge> ie_size e" by auto
  obtain q v where c: "read_cache_for ops i (ie_size e) w = (q, v)" by fastforce
  note v = cache_kept [OF kept wf e(1,2) bk c] and bv = cache_books [OF bk open_on c]
  have name: "ie_size e = tot" if "named n i (fs_inodes w)"
    using object_keptD(1) [OF kept] that e by (auto simp: titled_def named_def is_dir_def split: inode_kind.splits)
  note run = run [unfolded fs_read_def, simplified plain e(1) c this option.case if_False, simplified e(2-4)]
  show ?thesis
  proof (cases q)
    case (Inl x)
    then show ?thesis using run e v by (auto simp: not_less)
  next
    case (Inr c')
    have cc: "fs_read_cache v i = Some c'" using bv Inr by blast
    have "reading H n i obj tot c' v" if "named n i (fs_inodes w)"
      using titled_known [OF object_keptD(1)] object_keptD(3) v cc that by (fastforce simp: reading_def)
    then have "r = ReplyError EFBIG \<and> w' = v \<or> through H n obj tot i c' v w' \<and>
        (named n i (fs_inodes v) \<longrightarrow> reading H n i obj tot c' w' \<and> (\<forall>bs. r = Reply bs \<longrightarrow> bs = obj_slice obj tot off (ucast sz)))"
      using run e Inr name views v
      by (intro read_through [OF laws, where len = "ie_size e" and views = views]) (auto simp: not_less)
    then show ?thesis
      using v bv cc through_kept [of H n obj tot i c' v w'] by (auto simp: reading_def)
  qed
qed

section \<open>The other requests\<close>

lemma idle_fill:
  "sh_fill s \<noteq> FRunning \<Longrightarrow> sh_cache (fr_cache (fill_loop msg lost expected stopz turns off wfail s)) = sh_cache s"
proof (induction turns arbitrary: off wfail s)
  case (Cons turn turns)
  obtain stop out item where turn: "turn = (stop, out, item)" by (metis prod_cases3)
  have idle: "sh_fill (raise_stop stop s) \<noteq> FRunning" "sh_cache (raise_stop stop s) = sh_cache s"
    using Cons.prems by (simp_all add: shared_defs)
  have "snd (store_chunk out expected off bs wfail (raise_stop stop s)) = raise_stop stop s" for bs
    using idle(1) by (simp add: store_chunk_def write_sequential_def Let_def)
  then show ?case
    using idle Cons.IH
    by (auto simp: turn sh_fail_def Let_def split: sum.split prod.split dest!: arg_cong [where f = snd])
qed (simp add: shared_defs end_fill_def split: option.split)

lemma fill_ok:
  assumes "sh_ok obj tot s" and "stream_of obj 0 turns"
  shows "sh_ok obj tot (fr_cache (fill_from_stream msg lost stopz turns s))"
proof (cases "sh_fill s = FRunning")
  case True
  then have "fill_inv obj tot 0 0 None s" using assms(1) by (simp add: fill_inv_def lessThan_def)
  then have "fill_done obj tot (fr_cache (fill_loop msg lost tot stopz turns 0 None s))"
    using assms(2) by (intro fill_loop_done) auto
  then show ?thesis using assms(1) by (simp add: fill_done_def fill_from_stream_def sh_ok_def)
next
  case False
  then show ?thesis using assms(1) by (simp add: sh_ok_def total_size_def fill_from_stream_def idle_fill)
qed

lemma filler_kept:
  assumes kept: "object_kept H n obj tot w"
  shows "object_kept H n obj tot (next_filler ops w)"
proof (cases "fs_fillers w")
  case (Cons task tasks)
  obtain i c stopz turns where task: "task = (i, c, stopz, turns)" by (metis prod_cases4)
  define sc where "sc = fr_cache (fill_from_stream (op_error_text ops) is_link_lost stopz turns (fs_heap w c))"
  define v where "v = w\<lparr>fs_heap := (fs_heap w)(c := sc), fs_fillers := tasks\<rparr>"
  note k = object_keptD [OF kept]
  have this_one: "(i, c, stopz, turns) \<in> set (fs_fillers w)" by (simp add: Cons task)
  have ok: "sh_ok obj tot sc" if "fs_read_cache w j = Some c" "named n j (fs_inodes w)" for j
    using k(5) [OF this_one that(1)] k(3) [OF that] k(6) [OF this_one] that(2)
    unfolding sc_def by (auto intro: fill_ok)
  have v: "object_kept H n obj tot v"
    unfolding object_kept_def
  proof (intro conjI allI impI)
    show "titled H n tot (fs_inodes v)" using k(1) by (simp add: v_def)
    show "sh_ok obj tot (fs_heap v b)" if "fs_read_cache v j = Some b" "named n j (fs_inodes v)" for j b
      using that k(3) [of j b] ok [of j] by (auto simp: v_def)
    show "j < next_inode (fs_inodes v)" if "fs_read_cache v j = Some b" for j b
      using that k(2) by (simp add: v_def)
    fix j b d
    assume "(j, b, d) \<in> set (fs_fillers v)"
    then have d: "(j, b, d) \<in> set (fs_fillers w)" by (simp add: v_def Cons)
    show "j < next_inode (fs_inodes v)" "b < fs_next_cache v" "\<And>l. fs_read_cache v l = Some b \<Longrightarrow> l = j"
      "named n j (fs_inodes v) \<Longrightarrow> stream_of obj 0 (snd d)"
      using k(4-6) [OF d] by (simp_all add: v_def)
  qed
  have "object_kept H n obj tot (v\<lparr>fs_fills := f\<rparr>)" "object_kept H n obj tot (v\<lparr>fs_fills := f, fs_read_cache := (fs_read_cache w)(i := None)\<rparr>)" for f
    using v by (rule kept_same, simp_all add: v_def split: if_splits)+
  moreover have "next_filler ops w =
      (if i \<in> ran (fs_fh_to_inode w) then v\<lparr>fs_fills := finished c (fs_fills w)\<rparr>
       else v\<lparr>fs_fills := finished c (fs_fills w), fs_read_cache := (fs_read_cache w)(i := None)\<rparr>)"
    using Cons task by (simp add: next_filler_def run_filler_def v_def sc_def upd_fills_def upd_cache_def)
  ultimately show ?thesis by simp
qed (use kept in \<open>simp add: next_filler_def\<close>)

text \<open>Every request of a read-only mount whose reads of that name see coherent caches.\<close>

definition coherent_views ::
  "string \<Rightarrow> (nat \<Rightarrow> byte) \<Rightarrow> u64 \<Rightarrow> ('dev, 's, 'd) mtp_fs \<Rightarrow> request \<Rightarrow> bool" where
  "coherent_views n obj tot w rq \<longleftrightarrow>
     (case rq of RqRead views i fh off sz \<Rightarrow> named n i (fs_inodes w) \<longrightarrow> views_ok obj tot views | _ \<Rightarrow> True)"

lemma serve_kept:
  assumes laws: "shows_object ops H n tot" "sends_object ops H obj" "answers_object ops H obj" "answers_fit ops"
      "folders_within k ops"
    and kept: "object_kept H n obj tot w" and bk: "books_right w" and ro: "reads_only w"
    and reach: "tab_step\<^sup>*\<^sup>* it_new (fs_inodes w)" and rm: "room k (fs_inodes w)"
    and rq: "descriptor_checked w rq" "coherent_views n obj tot w rq" and run: "serve ops rq w = Some w'"
  shows "object_kept H n obj tot w'"
proof -
  note load = kept_load [OF laws(1,5) rm reach kept] and same = kept_same [OF kept]
  show ?thesis
  proof (cases rq)
    case (RqLookup p name)
    then show ?thesis using run load [of p] kept by (auto simp: fs_lookup_def Let_def split: option.splits)
  next
    case (RqReaddir cap i off)
    then show ?thesis using run load [of i] kept by (auto simp: fs_readdir_def Let_def)
  next
    case (RqRead views i fh off sz)
    then obtain r where r: "fs_read ops views i fh off sz w = Some (r, w')" using run by auto
    show ?thesis
      using read_kept [OF laws(1-4) kept bk tab_reach_wf [OF reach] reads_onlyD(2) [OF ro] _ _ r] rq RqRead
      by (auto simp: descriptor_checked_def coherent_views_def intro: ranI)
  next
    case (RqRelease fh)
    then show ?thesis
      using run reads_onlyD(2) [OF ro, of fh]
      by (auto simp: fs_release_def drop_read_cache_if_unused_def Let_def intro!: same split: option.splits if_splits)
  next
    case (RqEvent order epoch p)
    then show ?thesis
      using run by (auto simp: event_turn_def handle_event_def forget_dir_def invalidate_all_dirs_def
          drop_cached_bytes_def kept intro!: same split: poll.splits device_event.splits option.splits if_splits)
  next
    case RqFiller
    then show ?thesis using run filler_kept [OF kept] by auto
  qed (use run kept reads_onlyD(1) [OF ro] in \<open>auto simp: fs_getattr_def fs_setattr_def fs_opendir_def fs_statfs_def
      fs_open_def fs_write_def fs_create_def fs_mkdir_def fs_unlink_def fs_rmdir_def fs_rename_def Let_def
      alloc_fh_def intro!: same split: option.splits if_splits\<close>)
qed

lemma reads_only_close: "reads_only w \<Longrightarrow> fs_inodes (snd (fs_release ops fh w)) = fs_inodes w"
  using reads_onlyD(2) [of w fh] by (intro clean_close) (simp add: wb_is_open_def)

lemma reads_only_steps:
  assumes "folders_within k ops" and ro: "reads_only w" and "room (Suc k) (fs_inodes w)"
    and "tab_step\<^sup>*\<^sup>* it_new (fs_inodes w)" and "kernel_checked w rq" and run: "serve ops rq w = Some w'"
  shows "steps (fs_inodes w) (fs_inodes w')"
proof (rule serve_steps [OF assms(1,3,4,5) run])
  fix fh
  assume "rq = RqRelease fh"
  then have "fs_inodes w' = fs_inodes w" using run reads_only_close [OF ro, of ops fh] by auto
  then show "steps (fs_inodes w) (fs_inodes w')" by simp
qed

section \<open>From the start\<close>

text \<open>At the start there are storages only, and nothing is cached.\<close>

lemma storage_kinds:
  "(\<And>i e. entries t i = Some e \<Longrightarrow> \<exists>s. ie_kind e \<in> {Root, Storage s}) \<Longrightarrow>
   entries (snd (add_storage_at sid m now t)) i = Some e \<Longrightarrow> \<exists>s. ie_kind e \<in> {Root, Storage s}"
  by (auto simp: add_storage_at_def alloc_inode_def insert_entry_def evict_name_def push_child_def removed_entries Let_def
      split: if_splits option.splits)

lemma storages_kinds:
  assumes "\<And>i e. entries (fs_inodes w) i = Some e \<Longrightarrow> \<exists>s. ie_kind e \<in> {Root, Storage s}"
    and "entries (fs_inodes (add_storages ops ss w)) i = Some e"
  shows "\<exists>s. ie_kind e \<in> {Root, Storage s}"
  using assms
proof (induction ss arbitrary: w)
  case (Cons s ss)
  obtain now v where a: "ask (env_now ops) w = (now, v)" by fastforce
  let ?t = "snd (add_storage_at (st_id s) (storage_name s) now (fs_inodes w))"
  have v: "fs_inodes v = fs_inodes w" by (rule ask_inodes [OF a])
  show ?case
    using Cons.IH [of "upd_inodes (\<lambda>_. ?t) v"] storage_kinds [OF Cons.prems(1)] Cons.prems(2)
    by (simp add: a upd_inodes_def v)
qed simp

lemma init_kept:
  assumes run: "fs_init ops (fs_new dev policy ro limit heap env) = (Inr u, w)"
  shows "object_kept H n obj tot w"
proof (rule init_state [OF run])
  fix d
  let ?w = "(fs_new dev policy ro limit heap env)\<lparr>fs_env := d\<rparr>"
  assume t: "fs_inodes w = fs_inodes (add_storages ops (fs_storages w) ?w)"
    and l: "ledger w = ledger (fs_new dev policy ro limit heap env)"
  have new: "\<exists>s. ie_kind e \<in> {Root, Storage s}" if "entries (fs_inodes ?w) i = Some e" for i e
    using that by (auto simp: fs_new_def it_new_def split: if_splits)
  have "\<exists>s. ie_kind e \<in> {Root, Storage s}" if "entries (fs_inodes w) i = Some e" for i e
    using that unfolding t by (rule storages_kinds [rotated]) (rule new)
  then have "titled H n tot (fs_inodes w)" by (force simp: titled_def)
  moreover have "fs_read_cache w = Map.empty" "fs_fillers w = []" using l by (simp_all add: ledger_def fs_new_def)
  ultimately show ?thesis by (simp add: object_kept_def)
qed

lemma storages_mode: "fs_read_only (add_storages ops ss w) = fs_read_only w"
  by (induction ss arbitrary: w) (auto simp: ask_def upd_inodes_def split: prod.split)

lemma init_reads_only:
  assumes "fs_init ops (fs_new dev policy True limit heap env) = (Inr u, w)"
  shows "reads_only w"
proof -
  have "fs_read_only w"
    using assms by (auto simp: fs_init_def fs_new_def storages_mode Let_def split: sum.splits prod.splits dest!: call_cases)
  moreover have "fs_write_buf w = wb_new"
    by (rule init_state [OF assms]) (simp add: ledger_def fs_new_def)
  ultimately show ?thesis by (simp add: reads_only_def)
qed

definition reading_state ::
  "object_handle set \<Rightarrow> string \<Rightarrow> (nat \<Rightarrow> byte) \<Rightarrow> u64 \<Rightarrow> ('dev, 's, 'd) mtp_fs \<Rightarrow> bool" where
  "reading_state H n obj tot w \<longleftrightarrow>
     object_kept H n obj tot w \<and> books_right w \<and> reads_only w \<and> tab_step\<^sup>*\<^sup>* it_new (fs_inodes w)"

lemma mounted_reading:
  assumes laws: "shows_object ops H n tot" "sends_object ops H obj" "answers_object ops H obj" "answers_fit ops"
      "folders_within k ops"
    and run: "mounted ops k True (coherent_views n obj tot) w"
  shows "reading_state H n obj tot w"
  using run
proof (induction rule: mounted.induct)
  case (started dev policy limit heap env u w)
  let ?w = "fs_new dev policy True limit heap env"
  obtain d where "fs_inodes w = fs_inodes (add_storages ops (fs_storages w) (?w\<lparr>fs_env := d\<rparr>))"
    using init_state [OF started(1)] by metis
  moreover have "books_right w" using mounted_books [OF mounted.started [OF started]] .
  ultimately show ?case
    using storages_steps [of "fs_storages w" "?w\<lparr>fs_env := d\<rparr>" ops] started(2)
      init_kept [OF started(1)] init_reads_only [OF started(1)]
    by (simp add: reading_state_def fs_new_def steps_def)
next
  case (served w rq w')
  then have w: "object_kept H n obj tot w" "books_right w" "reads_only w" "tab_step\<^sup>*\<^sup>* it_new (fs_inodes w)"
    and k: "kernel_checked w rq" "descriptor_checked w rq" "fresh_number w" "room (Suc k) (fs_inodes w)"
    by (simp_all add: reading_state_def kernel_sends_def)
  then have rm: "room k (fs_inodes w)" by (simp add: room_def)
  show ?case
    using serve_kept [OF laws w rm k(2) served(3,4)] serve_books [OF w(2) k(3,2) served(4)]
      reads_only_mode [OF serve_mode [OF w(3) served(4)] w(3)]
      reach_steps [OF w(4) reads_only_steps [OF laws(5) w(3) k(4) w(4) k(1) served(4)]]
    by (simp add: reading_state_def)
qed

section \<open>Properties\<close>

text \<open>
  C2. Whatever a read-only mount has been asked, it shows the device's bytes: if the device
  lists, answers and streams one object under a name, then in every state the mount can be in,
  after any lookups, listings, opens, reads, closes, events, downloads and reconnections, a read
  of a file of that name through a descriptor that is open on it answers exactly the object's
  bytes from the offset on, cut at its end.
\<close>

theorem read_only_mount_shows_the_object:
  assumes "shows_object ops H n tot" and "sends_object ops H obj" and "answers_object ops H obj"
    and "answers_fit ops" and "folders_within k ops"
    and "mounted ops k True (coherent_views n obj tot) w"
    and "fs_fh_to_inode w fh = Some i" and "named n i (fs_inodes w)" and "views_ok obj tot views"
    and "fs_read ops views i fh off sz w = Some (Reply bs, w')"
  shows "bs = obj_slice obj tot off (ucast sz)"
proof -
  have w: "object_kept H n obj tot w" "books_right w" "reads_only w" "tab_wf (fs_inodes w)"
    using mounted_reading [OF assms(1-6)] tab_reach_wf by (simp_all add: reading_state_def)
  show ?thesis
    using read_kept [OF assms(1-4) w(1,2,4) reads_onlyD(2) [OF w(3)] ranI [of "fs_fh_to_inode w", OF assms(7)] assms(9) assms(10)] assms(8)
    by blast
qed

section \<open>A small run\<close>

lemma demo_reader_object:
  "shows_object demo_reader {5} ''a.txt'' 3" "sends_object demo_reader {5} demo_bytes"
  "answers_object demo_reader {5} demo_bytes" "folders_within 1 demo_reader"
proof -
  have bytes: "[1, 2, 3] ! k = demo_bytes k" if "k < 3" for k
    using that by (auto simp: demo_bytes_def less_Suc_eq numeral_3_eq_3)
  show "shows_object demo_reader {5} ''a.txt'' 3" "folders_within 1 demo_reader"
    by (auto simp: shows_object_def folders_within_def demo_reader_def demo_object_def dest!: plugged_Inr)
  show "sends_object demo_reader {5} demo_bytes"
    using bytes by (auto simp: sends_object_def demo_reader_def chunk_of_def dest!: plugged_Inr)
  show "answers_object demo_reader {5} demo_bytes"
    using demo_reader_laws(1) by (simp add: object_laws_def)
qed

definition glass_start :: "(unit, unit, demo_env) mtp_fs" where
  "glass_start = snd (fs_init demo_reader (fs_new () \<lparr>rp_timeout = 0\<rparr> True 0
     (\<lambda>_. \<lparr>sh_cache = \<lparr>sc_file = sf_new, sc_ranges = rs_new, sc_total = 0\<rparr>, sh_fill = FIdle, sh_stop = False\<rparr>)
     demo_phone))"

lemma glass_start_sel:
  "fs_inodes glass_start = snd (add_storage_at 1 ''Internal'' 0 it_new)" "fs_storages glass_start = [demo_storage]"
  "fs_env glass_start = demo_phone" "fs_next_fh glass_start = 1" "fs_fh_to_inode glass_start = Map.empty"
  "fs_read_cache glass_start = Map.empty" "fs_write_buf glass_start = wb_new" "fs_dirs_loaded glass_start 2 = None"
  by (simp_all add: glass_start_def fs_init_def fs_new_def call_def ask_def upd_inodes_def demo_reader_def demo_ops_def
      plugged_def demo_phone_def demo_storage_def storage_name_def Let_def ROOT_INODE_def)

lemma glass_start_mounted: "mounted demo_reader 1 True (coherent_views ''a.txt'' demo_bytes 3) glass_start"
proof (rule mounted.started)
  show "fs_init demo_reader (fs_new () \<lparr>rp_timeout = 0\<rparr> True 0
     (\<lambda>_. \<lparr>sh_cache = \<lparr>sc_file = sf_new, sc_ranges = rs_new, sc_total = 0\<rparr>, sh_fill = FIdle, sh_stop = False\<rparr>)
     demo_phone) = (Inr (), glass_start)"
    by (simp add: glass_start_def fs_init_def fs_new_def call_def ask_def demo_reader_def demo_ops_def plugged_def
      demo_phone_def demo_storage_def Let_def)
qed (simp add: glass_start_sel room_def it_new_def)

lemma glass_listed:
  "\<exists>dl. load_dir demo_reader 2 glass_start = glass_start\<lparr>fs_inodes := demo_tree, fs_dirs_loaded := dl\<rparr>"
proof -
  let ?t = "fs_inodes glass_start"
  have st: "entries ?t 2 = Some \<lparr>ie_inode = 2, ie_parent = 1, ie_name = ''Internal'', ie_kind = Storage 1, ie_size = 0,
      ie_mtime = 0, ie_atime = 0, ie_generation = 0\<rparr>" "generation ?t = 0"
    by (simp_all add: glass_start_sel table_eval)
  have a: "parent_handle demo_reader 2 glass_start = (Inr None, glass_start)"
    by (simp add: parent_handle_def ensure_fresh_def is_fresh_def st lift_opt_apply)
  have b: "storage_index 2 glass_start = (Inr 0, glass_start)"
    by (simp add: storage_index_def find_storage_index_def storage_walk.simps st position_def glass_start_sel(2) demo_storage_def
        lift_opt_apply)
  have c: "on_storage 0 (\<lambda>s. op_list demo_reader s None) glass_start = (Inr [demo_object (5, ''a.txt'', [1, 2, 3])], glass_start)"
    by (simp add: on_storage_def call_def demo_reader_def glass_start_sel plugged_def demo_phone_def)
  have d: "sync_children 2 (map child_of_object [demo_object (5, ''a.txt'', [1, 2, 3])]) ?t = demo_tree"
    by (simp add: glass_start_sel(1) sync_children_def sync_child_def add_child_def gone_children_def remove_all_def
        demo_tree_def child_of_object_def demo_object_def table_eval)
  have "list_into_table demo_reader 2 glass_start = (Inr (), upd_inodes (\<lambda>_. demo_tree) glass_start)"
    using a b c d by (simp add: list_into_table_def upd_inodes_def modify_op_def)
  then have "with_recovery demo_reader (\<lambda>_. list_into_table demo_reader 2) glass_start = (Inr (), upd_inodes (\<lambda>_. demo_tree) glass_start)"
    by (intro with_recovery_first) (simp_all add: is_unplugged_def)
  then show ?thesis by (auto simp: load_dir_def glass_start_sel(8) upd_inodes_def ROOT_INODE_def)
qed

lemma glass_opened:
  obtains w where "mounted demo_reader 1 True (coherent_views ''a.txt'' demo_bytes 3) w"
    "serve_all demo_reader [RqLookup 2 (Some ''a.txt''), RqOpen False 3] glass_start = Some w"
    "fs_inodes w = demo_tree" "fs_storages w = [demo_storage]" "fs_env w = demo_phone" "fs_write_buf w = wb_new"
    "fs_read_cache w = Map.empty" "fs_fh_to_inode w = [1 \<mapsto> 3]"
proof -
  obtain dl where l: "load_dir demo_reader 2 glass_start = glass_start\<lparr>fs_inodes := demo_tree, fs_dirs_loaded := dl\<rparr>"
    using glass_listed by blast
  let ?v = "glass_start\<lparr>fs_inodes := demo_tree, fs_dirs_loaded := dl\<rparr>"
  let ?w = "?v\<lparr>fs_next_fh := 2, fs_fh_to_inode := [1 \<mapsto> 3]\<rparr>"
  have look: "serve demo_reader (RqLookup 2 (Some ''a.txt'')) glass_start = Some ?v"
    by (auto simp: fs_lookup_def l Let_def split: option.split)
  have op: "serve demo_reader (RqOpen False 3) ?v = Some ?w"
    by (simp add: fs_open_def demo_tree_entries demo_file_def is_dir_def alloc_fh_def glass_start_sel read_strategy_for_def
        read_strategy_def)
  have "kernel_sends 1 glass_start (RqLookup 2 (Some ''a.txt''))" "kernel_sends 1 ?v (RqOpen False 3)"
    by (simp_all add: kernel_sends_def kernel_checked_def descriptor_checked_def fresh_number_def room_def glass_start_sel
        demo_tree_def table_eval)
  then have "mounted demo_reader 1 True (coherent_views ''a.txt'' demo_bytes 3) ?w"
    using mounted.served [OF mounted.served [OF glass_start_mounted _ _ look] _ _ op] by (simp add: coherent_views_def)
  then show ?thesis using that [of ?w] look op by (simp add: glass_start_sel)
qed

theorem read_only_mount_shows_the_object_witness:
  "\<exists>w w'. serve_all demo_reader [RqLookup 2 (Some ''a.txt''), RqOpen False 3] glass_start = Some w \<and>
     fs_read demo_reader (\<lambda>_. []) 3 1 1 10 w = Some (Reply [2, 3], w') \<and> [2, 3] = obj_slice demo_bytes 3 1 10"
proof (rule glass_opened)
  fix w
  assume w: "mounted demo_reader 1 True (coherent_views ''a.txt'' demo_bytes 3) w"
    "serve_all demo_reader [RqLookup 2 (Some ''a.txt''), RqOpen False 3] glass_start = Some w"
    "fs_inodes w = demo_tree" "fs_storages w = [demo_storage]" "fs_env w = demo_phone" "fs_write_buf w = wb_new"
    "fs_read_cache w = Map.empty" "fs_fh_to_inode w = [1 \<mapsto> 3]"
  obtain w' where run: "fs_read demo_reader (\<lambda>_. []) 3 1 1 10 w = Some (Reply [2, 3], w')"
    using demo_read_at [OF w(3-7)] by blast
  have "[2, 3] = obj_slice demo_bytes 3 1 (ucast (10 :: u32))"
    by (rule read_only_mount_shows_the_object [OF demo_reader_object(1-3) demo_reader_laws(2) demo_reader_object(4) w(1) _ _ _ run])
      (simp_all add: w named_def demo_tree_entries demo_file_def views_ok_def)
  then show ?thesis using w(2) run by auto
qed

end
