(* ===== verification/Paths.thy ===== *)
theory Paths
  imports Size_Parse
begin

text \<open>
  Where things go on disk: \<open>src/src/spool.rs\<close> (\<open>resolve_spool_dir\<close>) and
  \<open>src/src/daemon/paths.rs\<close> (\<open>resolve_mount_root\<close>, \<open>device_dir_name\<close>). A path is its string;
  \<open>path_join\<close> is \<open>Path::join\<close> on Unix. The environment variables are arguments, as in the
  code; what reads the process environment is in \<open>Programs\<close>.
\<close>

section \<open>Paths of the standard library\<close>

type_synonym path = string

definition path_join :: "path \<Rightarrow> path \<Rightarrow> path" where
  "path_join a b =
     (if b \<noteq> [] \<and> hd b = CHR ''/'' then b
      else if a = [] \<or> last a = CHR ''/'' then a @ b
      else a @ CHR ''/'' # b)"

text \<open>\<open>v.filter(|s| !s.is_empty())\<close>\<close>

definition non_empty :: "string option \<Rightarrow> string option" where
  "non_empty v = (case v of Some [] \<Rightarrow> None | _ \<Rightarrow> v)"

section \<open>The spool directory\<close>

datatype cache_convention = Xdg | MacOs

definition current_convention :: "bool \<Rightarrow> cache_convention" where
  "current_convention macos = (if macos then MacOs else Xdg)"

definition resolve_spool_dir ::
  "path option \<Rightarrow> string option \<Rightarrow> string option \<Rightarrow> cache_convention \<Rightarrow> string + path" where
  "resolve_spool_dir override xdg_cache home conv =
     (case override of
        Some dir \<Rightarrow> Inr dir
      | None \<Rightarrow>
          (let home = non_empty home;
               base = (case conv of
                 MacOs \<Rightarrow>
                   (case home of
                      Some h \<Rightarrow> Inr (path_join (path_join h ''Library'') ''Caches'')
                    | None \<Rightarrow> Inl (''can't find a cache directory: $HOME is not set. '' @
                        ''Pass --spool-dir to say where writes should be spooled.''))
               | Xdg \<Rightarrow>
                   (case non_empty xdg_cache of
                      Some c \<Rightarrow> Inr c
                    | None \<Rightarrow>
                        (case home of
                           Some h \<Rightarrow> Inr (path_join h ''.cache'')
                         | None \<Rightarrow> Inl (''can't find a cache directory: neither $XDG_CACHE_HOME nor $HOME is set. '' @
                             ''Pass --spool-dir to say where writes should be spooled.''))))
           in (case base of
                 Inl e \<Rightarrow> Inl e
               | Inr b \<Rightarrow> Inr (path_join (path_join b ''mtp-mount'') ''spool''))))"

section \<open>The mount root\<close>

definition RUNTIME_SUBDIR :: string where
  "RUNTIME_SUBDIR = ''mtp''"

definition no_root_error :: "string \<Rightarrow> string" where
  "no_root_error what =
     ''can't find a directory to mount devices under: '' @ what @ ''. '' @
     ''Pass --mount-root to say where mounts should appear.''"

definition resolve_mount_root ::
  "path option \<Rightarrow> string option \<Rightarrow> string option \<Rightarrow> string option \<Rightarrow> cache_convention \<Rightarrow> string + path" where
  "resolve_mount_root override xdg_runtime xdg_cache home conv =
     (case override of
        Some dir \<Rightarrow> Inr dir
      | None \<Rightarrow>
          (case non_empty xdg_runtime of
             Some runtime \<Rightarrow> Inr (path_join runtime RUNTIME_SUBDIR)
           | None \<Rightarrow>
               (let home = non_empty home;
                    base = (case conv of
                      MacOs \<Rightarrow>
                        (case home of
                           Some h \<Rightarrow> Inr (path_join (path_join h ''Library'') ''Caches'')
                         | None \<Rightarrow> Inl (no_root_error ''neither $XDG_RUNTIME_DIR nor $HOME is set''))
                    | Xdg \<Rightarrow>
                        (case non_empty xdg_cache of
                           Some c \<Rightarrow> Inr c
                         | None \<Rightarrow>
                             (case home of
                                Some h \<Rightarrow> Inr (path_join h ''.cache'')
                              | None \<Rightarrow> Inl (no_root_error
                                  ''none of $XDG_RUNTIME_DIR, $XDG_CACHE_HOME, or $HOME is set''))))
                in (case base of
                      Inl e \<Rightarrow> Inl e
                    | Inr b \<Rightarrow> Inr (path_join (path_join b ''mtp-mount'') ''mounts'')))))"

section \<open>A device's directory\<close>

definition MAX_DIR_NAME :: nat where
  "MAX_DIR_NAME = 64"

definition is_ascii_alphanumeric :: "char \<Rightarrow> bool" where
  "is_ascii_alphanumeric c =
     (let n = of_char c :: nat in (48 \<le> n \<and> n \<le> 57) \<or> (65 \<le> n \<and> n \<le> 90) \<or> (97 \<le> n \<and> n \<le> 122))"

definition safe_char :: "char \<Rightarrow> bool" where
  "safe_char c \<longleftrightarrow> is_ascii_alphanumeric c \<or> c = CHR ''.'' \<or> c = CHR ''_'' \<or> c = CHR ''-''"

text \<open>\<open>{:04x}\<close> of a \<open>u16\<close>.\<close>

definition hex_digit :: "nat \<Rightarrow> char" where
  "hex_digit d = char_of (if d < 10 then 48 + d else 87 + d)"

definition show_hex4 :: "u16 \<Rightarrow> string" where
  "show_hex4 x =
     (let n = unat x in
      [hex_digit (n div 4096), hex_digit (n div 256 mod 16), hex_digit (n div 16 mod 16), hex_digit (n mod 16)])"

definition usb_form :: "u16 \<Rightarrow> u16 \<Rightarrow> u64 \<Rightarrow> string" where
  "usb_form vendor product location =
     ''usb-'' @ show_hex4 vendor @ ''-'' @ show_hex4 product @ ''-'' @ show_u64 location"

text \<open>\<open>serial.map(str::trim).filter(|s| !s.is_empty())\<close>\<close>

definition usable :: "string option \<Rightarrow> string option" where
  "usable serial = non_empty (map_option trim serial)"

definition sanitize :: "string \<Rightarrow> string" where
  "sanitize s = map (\<lambda>c. if safe_char c then c else CHR ''_'') (take MAX_DIR_NAME s)"

definition device_dir_name :: "string option \<Rightarrow> u16 \<Rightarrow> u16 \<Rightarrow> u64 \<Rightarrow> string" where
  "device_dir_name serial vendor product location =
     (case usable serial of
        None \<Rightarrow> usb_form vendor product location
      | Some s \<Rightarrow>
          (let sanitized = sanitize s in
           if list_all (\<lambda>c. c = CHR ''.'') sanitized then usb_form vendor product location
           else sanitized))"

section \<open>Facts\<close>

lemma of_char_char_of: "n < 256 \<Longrightarrow> (of_char (char_of n :: char) :: nat) = n"
  by simp

lemma hex_digit_safe: "d < 16 \<Longrightarrow> safe_char (hex_digit d)"
  by (auto simp: safe_char_def is_ascii_alphanumeric_def hex_digit_def)

lemma hex_digit_inj: "d < 16 \<Longrightarrow> e < 16 \<Longrightarrow> hex_digit d = hex_digit e \<longleftrightarrow> d = e"
  by (auto simp: hex_digit_def split: if_splits dest!: arg_cong [where f = "of_char :: char \<Rightarrow> nat"])

lemma digit_safe: "d < 10 \<Longrightarrow> safe_char (digit_char d)"
  by (auto simp: safe_char_def is_ascii_alphanumeric_def digit_char_def)

lemma show_nat_safe: "list_all safe_char (show_nat n)"
  by (induction n rule: show_nat.induct) (subst show_nat.simps, auto simp: digit_safe)

lemma unat_u16: "unat (x :: u16) < 65536"
  using unsigned_less [of x, where 'a = nat] by simp

lemma show_hex4_safe: "list_all safe_char (show_hex4 x)" "length (show_hex4 x) = 4"
  using unat_u16 [of x] by (simp_all add: show_hex4_def Let_def hex_digit_safe)

lemma show_hex4_inj: "show_hex4 x = show_hex4 y \<Longrightarrow> x = y"
proof -
  assume "show_hex4 x = show_hex4 y"
  then have eq: "unat x div 4096 = unat y div 4096" "unat x div 256 mod 16 = unat y div 256 mod 16"
      "unat x div 16 mod 16 = unat y div 16 mod 16" "unat x mod 16 = unat y mod 16"
    using unat_u16 [of x] unat_u16 [of y] by (simp_all add: show_hex4_def Let_def hex_digit_inj)
  have split: "n = ((n div 4096 * 16 + n div 256 mod 16) * 16 + n div 16 mod 16) * 16 + n mod 16" for n :: nat
  proof -
    have "n div 4096 = n div 256 div 16" "n div 256 = n div 16 div 16" by (simp_all flip: div_mult2_eq)
    then show ?thesis by (metis div_mult_mod_eq)
  qed
  from split [of "unat x"] split [of "unat y"] eq have "unat x = unat y" by metis
  then show ?thesis by (simp add: word_unat_eq_iff)
qed

lemma show_nat_length: "0 < k \<Longrightarrow> n < 10 ^ k \<Longrightarrow> length (show_nat n) \<le> k"
proof (induction n arbitrary: k rule: show_nat.induct)
  case (1 n)
  show ?case
  proof (cases "n < 10")
    case False
    have "k \<noteq> 1" using False 1(3) by auto
    then obtain j where k: "k = Suc j" "0 < j" using 1(2) by (cases k) auto
    then have "n div 10 < 10 ^ j" using 1(3) by (simp add: less_mult_imp_div_less mult.commute)
    then show ?thesis using False k 1(1) by (subst show_nat.simps) simp
  qed (use 1(2) in \<open>subst show_nat.simps, simp\<close>)
qed

lemma usb_form_safe: "list_all safe_char (usb_form v p l)" "length (usb_form v p l) \<le> 34"
proof -
  have "length (show_u64 l) \<le> 20"
    using unat_u64_less [of l] by (auto simp: show_u64_def intro: show_nat_length)
  then show "length (usb_form v p l) \<le> 34" by (simp add: usb_form_def show_hex4_safe)
  show "list_all safe_char (usb_form v p l)"
    by (simp add: usb_form_def show_hex4_safe show_u64_def show_nat_safe)
      (simp add: safe_char_def is_ascii_alphanumeric_def)
qed

lemma safe_no_slash: "list_all safe_char n \<Longrightarrow> CHR ''/'' \<notin> set n"
  by (auto simp: list_all_iff safe_char_def is_ascii_alphanumeric_def)

lemma sanitize_safe: "list_all safe_char (sanitize s)" "length (sanitize s) \<le> MAX_DIR_NAME"
  by (auto simp: sanitize_def list_all_iff) (simp_all add: safe_char_def)

lemma show_nat_inj: "show_nat m = show_nat n \<longleftrightarrow> m = n"
  by (metis digits_value_show)

lemma last_path_join: "b \<noteq> [] \<Longrightarrow> last (path_join a b) = last b"
  by (auto simp: path_join_def)

lemma trim_trim: "trim (trim s) = trim s"
proof (cases "trim s = []")
  case False
  let ?t = "dropWhile is_whitespace s"
  have r: "rev (trim s) = dropWhile is_whitespace (rev ?t)" by (simp add: trim_def)
  have "\<not> is_whitespace (hd (rev (trim s)))"
    using False r hd_dropWhile [of is_whitespace "rev ?t"] by (metis dropWhile_eq_Nil_conv rev_is_Nil_conv)
  then have "\<not> is_whitespace (last (trim s))" by (simp add: hd_rev)
  moreover obtain xs where t: "?t = trim s @ xs"
    by (metis append_take_drop_id dropWhile_eq_drop rev_append rev_rev_ident r)
  then have "\<not> is_whitespace (hd (trim s))"
    using False hd_dropWhile [of is_whitespace s] by (metis append_is_Nil_conv hd_append)
  ultimately show ?thesis using False by (intro trim_id)
next
  case True
  then show ?thesis by (simp only: True) (simp add: trim_def)
qed

lemma usable_None [simp]: "usable None = None"
  by (simp add: usable_def non_empty_def)

lemma usable_Some: "usable (Some s) = (if trim s = [] then None else Some (trim s))"
  by (simp add: usable_def non_empty_def split: list.splits)

lemma usable_usable: "usable (usable serial) = usable serial"
  by (cases serial) (simp_all add: usable_Some trim_trim)

lemma device_dir_name_ok:
  "device_dir_name serial v p l \<noteq> [] \<and> length (device_dir_name serial v p l) \<le> MAX_DIR_NAME \<and>
   list_all safe_char (device_dir_name serial v p l) \<and>
   \<not> list_all (\<lambda>c. c = CHR ''.'') (device_dir_name serial v p l)"
proof -
  let ?n = "device_dir_name serial v p l"
  have usb: "usb_form v p l \<noteq> []" "\<not> list_all (\<lambda>c. c = CHR ''.'') (usb_form v p l)"
    by (simp_all add: usb_form_def)
  have "?n = usb_form v p l \<or> (\<exists>s. ?n = sanitize s \<and> \<not> list_all (\<lambda>c. c = CHR ''.'') (sanitize s))"
    by (cases "usable serial") (auto simp: device_dir_name_def Let_def)
  then consider "?n = usb_form v p l"
    | s where "?n = sanitize s" "\<not> list_all (\<lambda>c. c = CHR ''.'') (sanitize s)"
    by blast
  then show ?thesis
  proof cases
    case 1
    then show ?thesis using usb usb_form_safe [of v p l] by (simp add: MAX_DIR_NAME_def)
  next
    case (2 s)
    then show ?thesis using sanitize_safe [of s] by auto
  qed
qed

text \<open>Joining such a name is appending it, so different names give different paths.\<close>

lemma path_join_safe:
  assumes "n \<noteq> []" and "list_all safe_char n"
  shows "path_join root n = (if root = [] \<or> last root = CHR ''/'' then root @ n else root @ CHR ''/'' # n)"
proof -
  have "hd n \<noteq> CHR ''/''" using assms safe_no_slash by (metis hd_in_set)
  then show ?thesis by (simp add: path_join_def)
qed

lemma mount_point_inj:
  "path_join root (device_dir_name s v p l) = path_join root (device_dir_name s' v' p' l') \<longleftrightarrow>
   device_dir_name s v p l = device_dir_name s' v' p' l'"
  using device_dir_name_ok [of s v p l] device_dir_name_ok [of s' v' p' l'] by (auto simp: path_join_safe)

section \<open>Properties\<close>

text \<open>
  C37. A device cannot choose where it is mounted: whatever it reports as its serial number,
  its directory name is one path component of at most 64 characters from the safe alphabet,
  not empty and not made of dots only, so the mount point lies directly under the mount root.
\<close>

theorem dir_name_is_one_component:
  "let n = device_dir_name serial v p l in
     n \<noteq> [] \<and> length n \<le> MAX_DIR_NAME \<and> list_all safe_char n \<and> \<not> list_all (\<lambda>c. c = CHR ''.'') n \<and>
     (path_join root n = root @ n \<or> path_join root n = root @ ''/'' @ n)"
  using device_dir_name_ok [of serial v p l] by (auto simp: path_join_safe Let_def)

text \<open>
  Without serial numbers, two devices get the same directory exactly when vendor, product
  and port are the same: the fallback name loses nothing.
\<close>

theorem usb_names_are_injective:
  "device_dir_name None v p l = device_dir_name None v' p' l' \<longleftrightarrow> v = v' \<and> p = p' \<and> l = l'"
proof -
  have "usb_form v p l = usb_form v' p' l' \<Longrightarrow> v = v' \<and> p = p' \<and> l = l'"
    using show_hex4_safe(2) [of v] show_hex4_safe(2) [of v'] show_hex4_safe(2) [of p] show_hex4_safe(2) [of p']
      show_hex4_inj [of v v'] show_hex4_inj [of p p']
    by (auto simp: usb_form_def show_u64_def show_nat_inj word_unat_eq_iff)
  then show ?thesis by (auto simp: device_dir_name_def)
qed

text \<open>
  Whenever the spool directory can be resolved so can the mount root, and with nothing
  overridden they are never the same directory: no spool file ends up under a mount point's
  name.
\<close>

theorem roots_resolve_apart:
  "case (resolve_spool_dir None cache home conv, resolve_mount_root None runtime cache home conv) of
     (Inr spool, Inr root) \<Rightarrow> spool \<noteq> root
   | (Inr _, Inl _) \<Rightarrow> False
   | (Inl _, Inr root) \<Rightarrow> \<exists>r. runtime = Some r \<and> r \<noteq> [] \<and> root = path_join r RUNTIME_SUBDIR
   | (Inl _, Inl _) \<Rightarrow> True"
proof -
  have ends: "path_join a ''spool'' \<noteq> path_join b ''mounts''" "path_join a ''spool'' \<noteq> path_join b ''mtp''" for a b
    using last_path_join [of "''spool''" a] last_path_join [of "''mounts''" b] last_path_join [of "''mtp''" b]
    by auto
  have runtime: "non_empty runtime = Some r \<Longrightarrow> runtime = Some r \<and> r \<noteq> []" for r
    by (auto simp: non_empty_def split: option.splits list.splits)
  show ?thesis
    by (cases conv; cases "non_empty home"; cases "non_empty cache"; cases "non_empty runtime")
      (auto simp: resolve_spool_dir_def resolve_mount_root_def RUNTIME_SUBDIR_def ends dest!: runtime)
qed

end
