(* ===== verification/Hotplug.thy ===== *)
theory Hotplug
  imports Paths Device
begin

text \<open>
  From USB to the daemon: \<open>DeviceFacts\<close> of \<open>src/src/daemon/dryrun.rs\<close>, \<open>DeviceIdent\<close>
  and the two command types, the wiring of \<open>src/src/daemon/usb.rs\<close>, and the opener and the
  unplug switch of \<open>src/src/device.rs\<close>. What \<open>mtp_rs\<close> reports of a device
  (\<open>MtpDeviceInfo\<close>) is a type \<open>'i\<close> read through \<open>info_view\<close>; the stream of its
  hotplug events is a list, and the channel is the list of what was sent while the receiver
  was there.
\<close>

section \<open>What the watch reports\<close>

record device_facts =
  df_serial :: "string option"
  df_vendor_id :: u16
  df_product_id :: u16
  df_location_id :: u64
  df_manufacturer :: "string option"
  df_product :: "string option"
  df_speed :: "string option"
  df_match_reason :: "string option"
  df_label :: string

record device_ident =
  di_key :: string
  di_label :: string
  di_serial :: "string option"

definition usable_serial :: "device_facts \<Rightarrow> string option" where
  "usable_serial f = usable (df_serial f)"

definition facts_key :: "device_facts \<Rightarrow> string" where
  "facts_key f = device_dir_name (usable_serial f) (df_vendor_id f) (df_product_id f) (df_location_id f)"

definition headline :: "device_facts \<Rightarrow> string" where
  "headline f = (if df_label f = [] then ''MTP device '' @ facts_key f else df_label f)"

definition facts_ident :: "device_facts \<Rightarrow> device_ident" where
  "facts_ident f = \<lparr>di_key = facts_key f, di_label = headline f, di_serial = usable_serial f\<rparr>"

text \<open>The fields of \<open>MtpDeviceInfo\<close> and its \<open>display()\<close>.\<close>

record 'i info_view =
  iv_serial_number :: "'i \<Rightarrow> string option"
  iv_vendor_id :: "'i \<Rightarrow> u16"
  iv_product_id :: "'i \<Rightarrow> u16"
  iv_location_id :: "'i \<Rightarrow> u64"
  iv_manufacturer :: "'i \<Rightarrow> string option"
  iv_product :: "'i \<Rightarrow> string option"
  iv_speed :: "'i \<Rightarrow> string option"
  iv_match_reason :: "'i \<Rightarrow> string"
  iv_display :: "'i \<Rightarrow> string"

definition facts_of :: "'i info_view \<Rightarrow> 'i \<Rightarrow> device_facts" where
  "facts_of V i =
     \<lparr>df_serial = iv_serial_number V i, df_vendor_id = iv_vendor_id V i,
      df_product_id = iv_product_id V i, df_location_id = iv_location_id V i,
      df_manufacturer = iv_manufacturer V i, df_product = iv_product V i,
      df_speed = iv_speed V i, df_match_reason = Some (iv_match_reason V i),
      df_label = iv_display V i\<rparr>"

definition ident_of :: "'i info_view \<Rightarrow> 'i \<Rightarrow> device_ident" where
  "ident_of V i = facts_ident (facts_of V i)"

section \<open>Commands\<close>

datatype dry_run_command = DryArrived device_facts | DryLeft device_facts | DryStop string

datatype device_change = Arrived device_ident | Left device_ident

datatype command = Device device_change | GiveUp string string | Stop string

datatype 'i hotplug_event = HotplugArrived 'i | HotplugLeft 'i

text \<open>
  The two watches. The second list says, event by event, whether the receiver is still there
  (events past its end find it there); a watch returns at the first failed send.
\<close>

definition receiver_gone :: "bool list \<Rightarrow> bool" where
  "receiver_gone alive \<longleftrightarrow> alive \<noteq> [] \<and> \<not> hd alive"

fun hotplug_watch :: "'i info_view \<Rightarrow> 'i hotplug_event list \<Rightarrow> bool list \<Rightarrow> command list" where
  "hotplug_watch V [] alive = []"
| "hotplug_watch V (e # es) alive =
     (let change = (case e of HotplugArrived i \<Rightarrow> Arrived (ident_of V i) | HotplugLeft i \<Rightarrow> Left (ident_of V i))
      in if receiver_gone alive then [] else Device change # hotplug_watch V es (tl alive))"

fun dry_run_watch :: "'i info_view \<Rightarrow> 'i hotplug_event list \<Rightarrow> bool list \<Rightarrow> dry_run_command list" where
  "dry_run_watch V [] alive =
     (if receiver_gone alive then [] else [DryStop ''the USB hotplug watch ended''])"
| "dry_run_watch V (e # es) alive =
     (let command = (case e of HotplugArrived i \<Rightarrow> DryArrived (facts_of V i) | HotplugLeft i \<Rightarrow> DryLeft (facts_of V i))
      in if receiver_gone alive then [] else command # dry_run_watch V es (tl alive))"

section \<open>Opening a device\<close>

type_synonym unplug_switch = bool

definition plugged_in :: unplug_switch where
  "plugged_in = False"

definition unplug :: "unplug_switch \<Rightarrow> unplug_switch" where
  "unplug s = True"

definition replug :: "unplug_switch \<Rightarrow> unplug_switch" where
  "replug s = False"

definition switch_is_unplugged :: "unplug_switch \<Rightarrow> bool" where
  "switch_is_unplugged s = s"

record usb_opener =
  uo_serial :: "string option"
  uo_unplug :: unplug_switch

definition usb_opener_new :: "string option \<Rightarrow> unplug_switch \<Rightarrow> usb_opener" where
  "usb_opener_new serial u = \<lparr>uo_serial = serial, uo_unplug = u\<rparr>"

text \<open>The two ways \<open>mtp_rs\<close> opens a device are arguments.\<close>

definition usb_open ::
  "(string \<Rightarrow> 'd \<Rightarrow> (mtp_error + 'dev) \<times> 'd) \<Rightarrow> ('d \<Rightarrow> (mtp_error + 'dev) \<times> 'd) \<Rightarrow>
   usb_opener \<Rightarrow> 'd \<Rightarrow> (mtp_error + 'dev) \<times> 'd" where
  "usb_open open_by_serial open_first o' d =
     (if switch_is_unplugged (uo_unplug o') then (Inl Disconnected, d)
      else (case uo_serial o' of Some serial \<Rightarrow> open_by_serial serial d | None \<Rightarrow> open_first d))"

definition usb_describe :: "usb_opener \<Rightarrow> string" where
  "usb_describe o' = (case uo_serial o' of Some serial \<Rightarrow> ''device '' @ serial | None \<Rightarrow> ''the device'')"

definition usb_source_opener :: "device_ident \<Rightarrow> usb_opener" where
  "usb_source_opener ident = usb_opener_new (di_serial ident) plugged_in"

section \<open>Facts\<close>

lemma facts_ident_key [simp]: "di_key (facts_ident f) = facts_key f"
  by (simp add: facts_ident_def)

lemma ident_of_key [simp]: "di_key (ident_of V i) = facts_key (facts_of V i)"
  by (simp add: ident_of_def)

text \<open>The key is normalised already: the device name trims a serial that was trimmed before.\<close>

lemma facts_key_eq: "facts_key f = device_dir_name (df_serial f) (df_vendor_id f) (df_product_id f) (df_location_id f)"
  by (simp add: facts_key_def usable_serial_def device_dir_name_def usable_usable)

text \<open>Both watches forward the same events, and stop at the same one.\<close>

definition as_change :: "dry_run_command \<Rightarrow> command option" where
  "as_change c =
     (case c of DryArrived f \<Rightarrow> Some (Device (Arrived (facts_ident f)))
      | DryLeft f \<Rightarrow> Some (Device (Left (facts_ident f)))
      | DryStop r \<Rightarrow> None)"

lemma as_change_simps [simp]:
  "as_change (DryArrived f) = Some (Device (Arrived (facts_ident f)))"
  "as_change (DryLeft f) = Some (Device (Left (facts_ident f)))"
  "as_change (DryStop r) = None"
  by (simp_all add: as_change_def)

lemma watches_agree: "List.map_filter as_change (dry_run_watch V es alive) = hotplug_watch V es alive"
  by (induction es arbitrary: alive) (auto simp: map_filter_simps ident_of_def Let_def split: hotplug_event.split)

end
