(* ===== verification/Dry_Run.thy ===== *)
theory Dry_Run
  imports Hotplug "HOL-Library.List_Lexorder" "HOL-Library.Char_ord"
begin

text \<open>
  \<open>src/src/daemon/dryrun.rs\<close>: the reporter behind \<open>--dry-run\<close>. The writer is the list
  of lines handed to it (a failed write is ignored by the code). The hash map of open keys is
  an association list; the code only looks keys up and sorts what it iterates. Paths are
  sorted as strings: every path of the map is the mount root joined with one component.
  Counters are \<open>usize\<close>, 64 bits.
\<close>

section \<open>The reporter\<close>

datatype departure_verdict = Matched path | WouldLeak "path list" | NothingToUnmount

record tally =
  ta_arrivals :: u64
  ta_departures :: u64
  ta_matched :: u64
  ta_unmatched :: u64

definition tally_default :: tally where
  "tally_default = \<lparr>ta_arrivals = 0, ta_departures = 0, ta_matched = 0, ta_unmatched = 0\<rparr>"

record dry_run =
  dr_mount_root :: path
  dr_open :: "(string \<times> path) list"
  dr_arrived_keys :: "string list"
  dr_tally :: tally
  dr_events :: u64
  dr_out :: "string list"

definition FIELD :: nat where
  "FIELD = 16"

definition dry_run_new :: "path \<Rightarrow> dry_run" where
  "dry_run_new root =
     \<lparr>dr_mount_root = root, dr_open = [], dr_arrived_keys = [], dr_tally = tally_default,
      dr_events = 0, dr_out = []\<rparr>"

definition open_keys :: "dry_run \<Rightarrow> string list" where
  "open_keys d = sort (map fst (dr_open d))"

section \<open>Output\<close>

definition out_line :: "string \<Rightarrow> dry_run \<Rightarrow> dry_run" where
  "out_line t d = d\<lparr>dr_out := dr_out d @ [t]\<rparr>"

definition out_lines :: "string list \<Rightarrow> dry_run \<Rightarrow> dry_run" where
  "out_lines ts d = fold out_line ts d"

text \<open>\<open>{:<n}\<close>, and \<open>join\<close>.\<close>

definition pad :: "nat \<Rightarrow> string \<Rightarrow> string" where
  "pad n s = s @ replicate (n - length s) CHR '' ''"

fun join :: "string \<Rightarrow> string list \<Rightarrow> string" where
  "join sep [] = []"
| "join sep [s] = s"
| "join sep (s # t # ts) = s @ sep @ join sep (t # ts)"

definition out_field :: "string \<Rightarrow> string \<Rightarrow> dry_run \<Rightarrow> dry_run" where
  "out_field name value = out_line (''    '' @ pad FIELD name @ value)"

definition running_total :: "dry_run \<Rightarrow> dry_run" where
  "running_total d =
     out_line (''    So far: '' @ show_u64 (ta_arrivals (dr_tally d)) @ '' arrived, '' @
       show_u64 (ta_departures (dr_tally d)) @ '' left, '' @
       show_u64 (ta_matched (dr_tally d)) @ '' matched, '' @
       show_u64 (ta_unmatched (dr_tally d)) @ '' unmatched, '' @
       show_nat (length (dr_open d)) @ '' would be mounted.'') d"

definition out_facts :: "device_facts \<Rightarrow> bool \<Rightarrow> dry_run \<Rightarrow> dry_run" where
  "out_facts f full d =
     (let reported = (\<lambda>v. case v of Some s \<Rightarrow> s | None \<Rightarrow> ''(not reported)'');
          d = out_field ''serial'' (reported (df_serial f)) d;
          d = out_field ''vendor:product'' (show_hex4 (df_vendor_id f) @ '':'' @ show_hex4 (df_product_id f)) d;
          d = out_field ''location id'' (show_u64 (df_location_id f)) d;
          d = out_field ''manufacturer'' (reported (df_manufacturer f)) d;
          d = out_field ''product'' (reported (df_product f)) d
      in if full then
           out_field ''matched by'' (reported (df_match_reason f))
             (out_field ''usb speed'' (reported (df_speed f)) d)
         else d)"

definition event_header :: "string \<Rightarrow> device_facts \<Rightarrow> dry_run \<Rightarrow> dry_run" where
  "event_header what f d =
     (let d = d\<lparr>dr_events := dr_events d + 1\<rparr>;
          n = dr_events d;
          d = out_line ''------------------------------------------------------------'' d
      in out_line (''#'' @ show_u64 n @ ''  '' @ pad 10 what @ ''  '' @ headline f) d)"

section \<open>Events\<close>

definition banner :: "dry_run \<Rightarrow> dry_run" where
  "banner d =
     out_lines
       ['''',
        ''=== mtp-mountd --dry-run: nothing will be mounted ==='',
        ''Mount root it would use: '' @ dr_mount_root d,
        ''Plug a device in, wait for it to appear, then unplug it.'',
        ''Every departure should say MATCHES. Stop with Ctrl-C.'',
        ''''] d"

definition arrived :: "device_facts \<Rightarrow> dry_run \<Rightarrow> dry_run" where
  "arrived f d =
     (let key = facts_key f;
          path = path_join (dr_mount_root d) key;
          d = d\<lparr>dr_tally := (dr_tally d)\<lparr>ta_arrivals := ta_arrivals (dr_tally d) + 1\<rparr>\<rparr>;
          d = event_header ''PLUGGED IN'' f d;
          d = out_facts f True d;
          d = out_field ''mount key'' key d;
          d = out_field ''would mount at'' path d;
          d = (case map_of (dr_open d) key of
                 Some existing \<Rightarrow>
                   out_line (''    Note: '' @ key @ '' is already down as arrived (at '' @ existing @
                     ''). The daemon would keep the first mount and ignore this one.'') d
               | None \<Rightarrow> d\<lparr>dr_open := (key, path) # dr_open d\<rparr>);
          d = (if key \<in> set (dr_arrived_keys d) then d
               else d\<lparr>dr_arrived_keys := dr_arrived_keys d @ [key]\<rparr>)
      in running_total d)"

definition departure :: "string \<Rightarrow> dry_run \<Rightarrow> departure_verdict \<times> dry_run" where
  "departure key d =
     (case map_of (dr_open d) key of
        Some path \<Rightarrow> (Matched path, d\<lparr>dr_open := filter (\<lambda>p. fst p \<noteq> key) (dr_open d)\<rparr>)
      | None \<Rightarrow>
          (if dr_open d = [] then NothingToUnmount else WouldLeak (sort (map snd (dr_open d))), d))"

definition report_verdict :: "string \<Rightarrow> departure_verdict \<Rightarrow> dry_run \<Rightarrow> dry_run" where
  "report_verdict key v d =
     (case v of
        Matched path \<Rightarrow>
          out_line (''>>> MATCHES the arrival: the daemon would unmount '' @ path @ '' <<<'')
            (d\<lparr>dr_tally := (dr_tally d)\<lparr>ta_matched := ta_matched (dr_tally d) + 1\<rparr>\<rparr>)
      | WouldLeak leaked \<Rightarrow>
          out_lines
            ([''!!!'',
              ''!!! NO MATCH - nothing arrived with the key '' @ key @ '', so this departure'',
              ''!!! would take nothing down. These mounts would leak:''] @
             map (\<lambda>path. ''!!!     '' @ path) leaked @
             [''!!! Keys seen arriving: '' @ join '', '' (dr_arrived_keys d),
              ''!!! This is the bug --dry-run looks for. Please report it.'',
              ''!!!''])
            (d\<lparr>dr_tally := (dr_tally d)\<lparr>ta_unmatched := ta_unmatched (dr_tally d) + 1\<rparr>\<rparr>)
      | NothingToUnmount \<Rightarrow>
          out_lines
            [''--- NO MATCH for '' @ key @ '', but nothing is mounted, so nothing leaks.'',
             ''--- A departure with no arrival behind it: the device left twice, or it '' @
             ''went away before the watch ever reported it.'']
            (d\<lparr>dr_tally := (dr_tally d)\<lparr>ta_unmatched := ta_unmatched (dr_tally d) + 1\<rparr>\<rparr>))"

definition left :: "device_facts \<Rightarrow> dry_run \<Rightarrow> departure_verdict \<times> dry_run" where
  "left f d =
     (let key = facts_key f;
          d = d\<lparr>dr_tally := (dr_tally d)\<lparr>ta_departures := ta_departures (dr_tally d) + 1\<rparr>\<rparr>;
          d = event_header ''UNPLUGGED'' f d;
          d = out_facts f False d;
          d = out_field ''mount key'' key d;
          (verdict, d) = departure key d;
          d = report_verdict key verdict d
      in (verdict, running_total d))"

definition summary_advice :: "tally \<Rightarrow> string" where
  "summary_advice t =
     (if ta_unmatched t > 0 then
        ''PROBLEM: a departure didn't match its arrival, so the daemon would leak a '' @
        ''mount for this device. The fields above show which one disagreed.''
      else if ta_departures t > 0 then
        ''All good: every departure matched an arrival, so the daemon takes the right '' @
        ''mount down for this device.''
      else if ta_arrivals t > 0 then
        ''No departures seen. Unplug the device while this is running to check the '' @
        ''half that matters.''
      else
        ''No devices seen at all. Check the phone is unlocked and set to \"File '' @
        ''Transfer\", and try RUST_LOG=debug.'')"

definition summary :: "string \<Rightarrow> dry_run \<Rightarrow> dry_run" where
  "summary reason d =
     (let t = dr_tally d; still_open = open_keys d
      in out_lines
        ['''',
         ''=== Dry run over: '' @ reason @ '' ==='',
         ''  Arrivals:   '' @ show_u64 (ta_arrivals t),
         ''  Departures: '' @ show_u64 (ta_departures t),
         ''  Matched:    '' @ show_u64 (ta_matched t),
         ''  Unmatched:  '' @ show_u64 (ta_unmatched t),
         (if still_open = [] then ''  Would be mounted now: nothing''
          else ''  Would be mounted now: '' @ join '', '' still_open),
         '''',
         summary_advice t,
         ''''] d)"

text \<open>The loop of \<open>run\<close>; the end of the list is the channel closing.\<close>

fun dry_run_loop :: "dry_run_command list \<Rightarrow> dry_run \<Rightarrow> string \<times> dry_run" where
  "dry_run_loop [] d = (''the device watch stopped'', d)"
| "dry_run_loop (DryArrived f # cs) d = dry_run_loop cs (arrived f d)"
| "dry_run_loop (DryLeft f # cs) d = dry_run_loop cs (snd (left f d))"
| "dry_run_loop (DryStop reason # cs) d = (reason, d)"

definition dry_run_run :: "dry_run_command list \<Rightarrow> dry_run \<Rightarrow> dry_run" where
  "dry_run_run commands d =
     (let (reason, d) = dry_run_loop commands (banner d) in summary reason d)"

section \<open>What the operations change\<close>

text \<open>Printing changes no field a verdict depends on.\<close>

definition same_state :: "dry_run \<Rightarrow> dry_run \<Rightarrow> bool" where
  "same_state d d' \<longleftrightarrow> dr_mount_root d' = dr_mount_root d \<and> dr_open d' = dr_open d \<and>
     dr_arrived_keys d' = dr_arrived_keys d \<and> dr_tally d' = dr_tally d"

lemma out_line_state [simp]: "same_state d (out_line t d')  = same_state d d'"
  by (simp add: same_state_def out_line_def)

lemma out_lines_state [simp]: "same_state d (out_lines ts d') = same_state d d'"
  by (induction ts arbitrary: d') (simp_all add: out_lines_def)

lemma out_field_state [simp]: "same_state d (out_field n v d') = same_state d d'"
  by (simp add: out_field_def)

lemma out_facts_state [simp]: "same_state d (out_facts f b d') = same_state d d'"
  by (simp add: out_facts_def Let_def)

lemma running_total_state [simp]: "same_state d (running_total d') = same_state d d'"
  by (simp add: running_total_def)

lemma event_header_state [simp]: "same_state d (event_header w f d') = same_state d d'"
  by (simp add: event_header_def Let_def same_state_def out_line_def)

lemma banner_state [simp]: "same_state d (banner d') = same_state d d'"
  by (simp add: banner_def)

lemma summary_state [simp]: "same_state d (summary r d') = same_state d d'"
  by (simp add: summary_def Let_def)

lemma same_state_refl [simp]: "same_state d d"
  by (simp add: same_state_def)

text \<open>The selectors of a printed state.\<close>

lemma printed [simp]:
  assumes "\<And>d. same_state d (g d)"
  shows "dr_mount_root (g d) = dr_mount_root d" "dr_open (g d) = dr_open d"
    "dr_arrived_keys (g d) = dr_arrived_keys d" "dr_tally (g d) = dr_tally d"
  using assms [of d] by (simp_all add: same_state_def)

lemma report_verdict_fields:
  "dr_mount_root (report_verdict k v d) = dr_mount_root d"
  "dr_open (report_verdict k v d) = dr_open d"
  "dr_arrived_keys (report_verdict k v d) = dr_arrived_keys d"
  "dr_tally (report_verdict k v d) =
     (case v of Matched p \<Rightarrow> (dr_tally d)\<lparr>ta_matched := ta_matched (dr_tally d) + 1\<rparr>
      | _ \<Rightarrow> (dr_tally d)\<lparr>ta_unmatched := ta_unmatched (dr_tally d) + 1\<rparr>)"
  by (simp_all add: report_verdict_def split: departure_verdict.splits)

definition step_event :: "dry_run_command \<Rightarrow> dry_run \<Rightarrow> dry_run" where
  "step_event c d = (case c of DryArrived f \<Rightarrow> arrived f d | DryLeft f \<Rightarrow> snd (left f d) | DryStop r \<Rightarrow> d)"

lemma arrived_fields:
  "dr_mount_root (arrived f d) = dr_mount_root d"
  "dr_open (arrived f d) =
     (if map_of (dr_open d) (facts_key f) = None
      then (facts_key f, path_join (dr_mount_root d) (facts_key f)) # dr_open d else dr_open d)"
  "dr_tally (arrived f d) = (dr_tally d)\<lparr>ta_arrivals := ta_arrivals (dr_tally d) + 1\<rparr>"
  by (simp_all add: arrived_def Let_def split: option.split)

lemma filter_absent: "map_of ps k = None \<Longrightarrow> filter (\<lambda>p. fst p \<noteq> k) ps = ps"
  by (auto simp: map_of_eq_None_iff filter_id_conv)

lemma departure_fields:
  "dr_mount_root (snd (departure k d)) = dr_mount_root d"
  "dr_arrived_keys (snd (departure k d)) = dr_arrived_keys d"
  "dr_open (snd (departure k d)) = filter (\<lambda>p. fst p \<noteq> k) (dr_open d)"
  "dr_tally (snd (departure k d)) = dr_tally d"
  by (simp_all add: departure_def filter_absent split: option.split)

lemma departure_cong: "dr_open d = dr_open d' \<Longrightarrow> fst (departure k d) = fst (departure k d')"
  by (simp add: departure_def split: option.split)

lemma left_fields:
  "fst (left f d) = fst (departure (facts_key f) d)"
  "dr_mount_root (snd (left f d)) = dr_mount_root d"
  "dr_open (snd (left f d)) = filter (\<lambda>p. fst p \<noteq> facts_key f) (dr_open d)"
  "dr_tally (snd (left f d)) =
     (let t = (dr_tally d)\<lparr>ta_departures := ta_departures (dr_tally d) + 1\<rparr>
      in case fst (departure (facts_key f) d) of
           Matched p \<Rightarrow> t\<lparr>ta_matched := ta_matched t + 1\<rparr>
         | _ \<Rightarrow> t\<lparr>ta_unmatched := ta_unmatched t + 1\<rparr>)"
  by (simp_all add: left_def Let_def case_prod_unfold report_verdict_fields departure_fields
      cong: departure_cong)
    (auto simp: departure_def split: option.split)

lemmas event_fields = arrived_fields left_fields

section \<open>Histories\<close>

text \<open>A key is present when the last thing heard of it is that it arrived.\<close>

definition event_key :: "dry_run_command \<Rightarrow> string option" where
  "event_key c = (case c of DryArrived f \<Rightarrow> Some (facts_key f) | DryLeft f \<Rightarrow> Some (facts_key f) | DryStop r \<Rightarrow> None)"

definition is_arrival :: "dry_run_command \<Rightarrow> bool" where
  "is_arrival c = (case c of DryArrived f \<Rightarrow> True | _ \<Rightarrow> False)"

definition present :: "dry_run_command list \<Rightarrow> string \<Rightarrow> bool" where
  "present h k =
     (case filter (\<lambda>c. event_key c = Some k) (rev h) of [] \<Rightarrow> False | c # cs \<Rightarrow> is_arrival c)"

definition no_stop :: "dry_run_command list \<Rightarrow> bool" where
  "no_stop h = list_all (\<lambda>c. event_key c \<noteq> None) h"

definition after :: "path \<Rightarrow> dry_run_command list \<Rightarrow> dry_run" where
  "after root h = snd (dry_run_loop h (banner (dry_run_new root)))"

lemma event_simps [simp]:
  "event_key (DryArrived f) = Some (facts_key f)" "event_key (DryLeft f) = Some (facts_key f)"
  "event_key (DryStop r) = None" "is_arrival (DryArrived f)" "\<not> is_arrival (DryLeft f)"
  by (simp_all add: event_key_def is_arrival_def)

lemma present_Nil [simp]: "\<not> present [] k"
  by (simp add: present_def)

lemma present_snoc: "present (h @ [c]) k = (if event_key c = Some k then is_arrival c else present h k)"
  by (simp add: present_def)

lemma dry_run_loop_fold:
  "no_stop h \<Longrightarrow> dry_run_loop (h @ cs) d = dry_run_loop cs (fold step_event h d)"
  by (induction h arbitrary: d)
    (auto simp: no_stop_def step_event_def event_key_def split: dry_run_command.splits)

lemma after_fold: "no_stop h \<Longrightarrow> after root h = fold step_event h (banner (dry_run_new root))"
  using dry_run_loop_fold [of h "[]"] by (simp add: after_def)

lemma after_snoc: "no_stop (h @ [c]) \<Longrightarrow> after root (h @ [c]) = step_event c (after root h)"
  by (simp add: after_fold no_stop_def)

lemma after_Nil [simp]: "dr_mount_root (after root []) = root" "dr_open (after root []) = []"
  "dr_tally (after root []) = tally_default"
  by (simp_all add: after_def dry_run_new_def)

lemma no_stop_snoc: "no_stop (h @ [c]) \<longleftrightarrow> no_stop h \<and> (\<exists>f. c = DryArrived f \<or> c = DryLeft f)"
  by (auto simp: no_stop_def event_key_def split: dry_run_command.splits)

lemma map_of_filter_key: "map_of (filter (\<lambda>p. fst p \<noteq> k) ps) k' = (if k' = k then None else map_of ps k')"
  by (induction ps) auto

text \<open>The map of open keys is the set of present keys, each at its mount point.\<close>

lemma after_open:
  "no_stop h \<Longrightarrow> dr_mount_root (after root h) = root \<and> distinct (map fst (dr_open (after root h))) \<and>
     (\<forall>k. map_of (dr_open (after root h)) k = (if present h k then Some (path_join root k) else None))"
proof (induction h rule: rev_induct)
  case (snoc c h)
  then have ih: "dr_mount_root (after root h) = root" "distinct (map fst (dr_open (after root h)))"
      "\<And>k. map_of (dr_open (after root h)) k = (if present h k then Some (path_join root k) else None)"
    by (auto simp: no_stop_snoc)
  from snoc.prems consider f where "c = DryArrived f" | f where "c = DryLeft f"
    by (auto simp: no_stop_snoc)
  then show ?case
  proof cases
    case 1
    have "facts_key f \<notin> fst ` set (dr_open (after root h))" if "\<not> present h (facts_key f)"
      using ih(3) [of "facts_key f"] that by (simp add: map_of_eq_None_iff)
    then show ?thesis
      using 1 ih snoc.prems
      by (simp add: after_snoc step_event_def event_fields present_snoc)
  next
    case 2
    have "distinct (map fst (filter P (dr_open (after root h))))" for P
      using ih(2) by (rule distinct_map_filter)
    then show ?thesis
      using 2 ih snoc.prems
      by (simp add: after_snoc step_event_def event_fields present_snoc
          map_of_filter_key)
  qed
qed simp

lemma after_open_paths:
  assumes "no_stop h"
  shows "set (map snd (dr_open (after root h))) = path_join root ` {k. present h k}"
proof -
  have "distinct (map fst (dr_open (after root h)))"
    and m: "\<And>k. map_of (dr_open (after root h)) k = (if present h k then Some (path_join root k) else None)"
    using after_open [OF assms] by auto
  then have mem: "(k, p) \<in> set (dr_open (after root h)) \<longleftrightarrow> present h k \<and> p = path_join root k" for k p
    by (metis map_of_eq_Some_iff option.distinct(1) option.inject)
  show ?thesis by (auto simp: mem image_iff) (metis mem snd_conv)
qed

lemma present_key: "present h k \<Longrightarrow> \<exists>f. k = facts_key f"
proof -
  assume "present h k"
  then obtain c where "c \<in> set (filter (\<lambda>c. event_key c = Some k) (rev h))"
    by (cases "filter (\<lambda>c. event_key c = Some k) (rev h)") (auto simp: present_def)
  then have "event_key c = Some k" by simp
  then show ?thesis by (auto simp: event_key_def split: dry_run_command.splits)
qed

lemma facts_path_inj: "path_join root (facts_key f) = path_join root (facts_key g) \<longleftrightarrow> facts_key f = facts_key g"
  by (simp add: facts_key_def mount_point_inj)

lemma after_open_distinct:
  assumes "no_stop h"
  shows "distinct (map snd (dr_open (after root h)))"
proof -
  have d: "distinct (map fst (dr_open (after root h)))"
    and m: "\<And>k. map_of (dr_open (after root h)) k = (if present h k then Some (path_join root k) else None)"
    using after_open [OF assms] by auto
  have mem: "present h k \<and> p = path_join root k" if "(k, p) \<in> set (dr_open (after root h))" for k p
    using that d m [of k] by (auto dest!: map_of_is_SomeI split: if_splits)
  show ?thesis
    using d by (auto simp: distinct_map inj_on_def dest!: mem dest: present_key) (metis facts_path_inj present_key)+
qed

lemma sort_Nil [simp]: "sort xs = [] \<longleftrightarrow> xs = []"
  by (metis set_sort set_empty)

lemma after_open_empty: "no_stop h \<Longrightarrow> dr_open (after root h) = [] \<longleftrightarrow> (\<forall>k. \<not> present h k)"
  using after_open_paths [of h root] by (cases "dr_open (after root h)") auto

section \<open>Properties\<close>

text \<open>
  A departure is judged by the history of the device's key alone: it matches, with the mount
  point of that key, exactly when the last thing reported of the key was an arrival; otherwise
  the leak it announces lists, sorted, the mount points of exactly the devices still present,
  and it announces none exactly when no device is.
\<close>

theorem verdict_follows_history:
  assumes "no_stop h"
  shows "case fst (left f (after root h)) of
     Matched p \<Rightarrow> present h (facts_key f) \<and> p = path_join root (facts_key f)
   | WouldLeak ps \<Rightarrow> \<not> present h (facts_key f) \<and> ps \<noteq> [] \<and> sorted ps \<and>
       distinct ps \<and> set ps = path_join root ` {k. present h k}
   | NothingToUnmount \<Rightarrow> {k. present h k} = {}"
proof -
  have m: "map_of (dr_open (after root h)) (facts_key f) =
      (if present h (facts_key f) then Some (path_join root (facts_key f)) else None)"
    using after_open [OF assms] by blast
  show ?thesis
    using after_open_paths [OF assms, of root] after_open_empty [OF assms, of root]
      after_open_distinct [OF assms, of root]
    by (simp add: left_fields departure_def m)
qed

definition demo_phone_facts :: device_facts where
  "demo_phone_facts =
     \<lparr>df_serial = Some '' SN-1 '', df_vendor_id = 1256, df_product_id = 26720, df_location_id = 3,
      df_manufacturer = None, df_product = Some ''Phone'', df_speed = None, df_match_reason = None,
      df_label = []\<rparr>"

theorem verdict_follows_history_witness:
  "fst (left (demo_phone_facts\<lparr>df_serial := Some ''SN-2''\<rparr>) (after ''/run/mtp'' [DryArrived demo_phone_facts]))
     = WouldLeak [''/run/mtp/SN-1'']"
proof -
  have h: "no_stop [DryArrived demo_phone_facts]" by (simp add: no_stop_def event_key_def)
  have keys: "facts_key demo_phone_facts = ''SN-1''"
      "facts_key (demo_phone_facts\<lparr>df_serial := Some ''SN-2''\<rparr>) = ''SN-2''"
    by code_simp+
  have p: "present [DryArrived demo_phone_facts] k \<longleftrightarrow> k = ''SN-1''" for k
    by (simp add: present_def event_key_def keys)
  have one: "ps = [x]" if "distinct ps" "set ps = {x}" for ps and x :: path
    using that by (cases ps; cases "tl ps") auto
  show ?thesis
    using verdict_follows_history [OF h, of "demo_phone_facts\<lparr>df_serial := Some ''SN-2''\<rparr>" "''/run/mtp''"]
    unfolding keys p
    by (cases "fst (left (demo_phone_facts\<lparr>df_serial := Some ''SN-2''\<rparr>) (after ''/run/mtp'' [DryArrived demo_phone_facts]))")
      (simp_all add: one path_join_def)
qed

text \<open>The tally counts the history, up to the width of the counters.\<close>

definition matched_at :: "dry_run_command list \<Rightarrow> nat \<Rightarrow> bool" where
  "matched_at h i \<longleftrightarrow> \<not> is_arrival (h ! i) \<and> (\<exists>k. event_key (h ! i) = Some k \<and> present (take i h) k)"

lemma count_upto: "(\<And>i. i < n \<Longrightarrow> P i = Q i) \<Longrightarrow> filter P [0..<n] = filter Q [0..<n]"
  by (auto intro: filter_cong)

lemma tally_counts:
  "no_stop h \<Longrightarrow> dr_tally (after root h) =
     \<lparr>ta_arrivals = word_of_nat (length (filter is_arrival h)),
      ta_departures = word_of_nat (length (filter (\<lambda>c. \<not> is_arrival c) h)),
      ta_matched = word_of_nat (length (filter (matched_at h) [0..<length h])),
      ta_unmatched = word_of_nat (length (filter (\<lambda>i. \<not> is_arrival (h ! i) \<and> \<not> matched_at h i) [0..<length h]))\<rparr>"
proof (induction h rule: rev_induct)
  case Nil
  then show ?case by (simp add: tally_default_def)
next
  case (snoc c h)
  then have ih: "no_stop h" by (simp add: no_stop_snoc)
  have before: "matched_at (h @ [c]) i = matched_at h i" "is_arrival ((h @ [c]) ! i) = is_arrival (h ! i)"
    if "i < length h" for i
    using that by (simp_all add: matched_at_def nth_append)
  have counts:
    "length (filter (matched_at (h @ [c])) [0..<length (h @ [c])]) =
       length (filter (matched_at h) [0..<length h]) + (if matched_at (h @ [c]) (length h) then 1 else 0)"
    "length (filter (\<lambda>i. \<not> is_arrival ((h @ [c]) ! i) \<and> \<not> matched_at (h @ [c]) i) [0..<length (h @ [c])]) =
       length (filter (\<lambda>i. \<not> is_arrival (h ! i) \<and> \<not> matched_at h i) [0..<length h]) +
         (if \<not> is_arrival c \<and> \<not> matched_at (h @ [c]) (length h) then 1 else 0)"
    using before
    by (simp_all add: count_upto [of "length h" "matched_at (h @ [c])" "matched_at h"]
        count_upto [of "length h" "\<lambda>i. \<not> is_arrival ((h @ [c]) ! i) \<and> \<not> matched_at (h @ [c]) i"
          "\<lambda>i. \<not> is_arrival (h ! i) \<and> \<not> matched_at h i"])
  have m: "map_of (dr_open (after root h)) k = (if present h k then Some (path_join root k) else None)" for k
    using after_open [OF ih] by blast
  have now: "matched_at (h @ [c]) (length h) \<longleftrightarrow> \<not> is_arrival c \<and> (\<exists>k. event_key c = Some k \<and> present h k)"
    by (simp add: matched_at_def)
  from snoc.prems consider f where "c = DryArrived f" | f where "c = DryLeft f"
    by (auto simp: no_stop_snoc)
  then show ?case
  proof cases
    case 1
    then show ?thesis
      using snoc unfolding counts now by (simp add: after_snoc step_event_def event_fields ih)
  next
    case 2
    then show ?thesis
      using snoc unfolding counts now
      by (simp add: after_snoc step_event_def event_fields ih departure_def m Let_def)
  qed
qed

lemma word_of_count_pos: "n < 2 ^ 64 \<Longrightarrow> 0 < (word_of_nat n :: u64) \<longleftrightarrow> 0 < n"
  by (simp add: word_less_nat_alt unsigned_of_nat take_bit_nat_eq_self)

text \<open>
  The closing line of a dry run says that all is good exactly when some device left and
  every departure was of a device that was present: no counter, note or repeated event in
  between can hide an unmatched departure.
\<close>

theorem all_good_means_every_departure_matched:
  assumes "no_stop h" and "length h < 2 ^ 64"
  shows "take 8 (summary_advice (dr_tally (after root h))) = ''All good'' \<longleftrightarrow>
     (\<exists>i < length h. \<not> is_arrival (h ! i)) \<and>
     (\<forall>i < length h. \<not> is_arrival (h ! i) \<longrightarrow> matched_at h i)"
proof -
  let ?missed = "filter (\<lambda>i. \<not> is_arrival (h ! i) \<and> \<not> matched_at h i) [0..<length h]"
  let ?left = "filter (\<lambda>c. \<not> is_arrival c) h"
  have "length ?missed < 2 ^ 64" "length ?left < 2 ^ 64"
    using length_filter_le [of "\<lambda>i. \<not> is_arrival (h ! i) \<and> \<not> matched_at h i" "[0..<length h]"]
      length_filter_le [of "\<lambda>c. \<not> is_arrival c" h] assms(2) by (simp_all only: length_upt diff_zero le_less_trans)
  then have "0 < ta_unmatched (dr_tally (after root h)) \<longleftrightarrow> ?missed \<noteq> []"
    "0 < ta_departures (dr_tally (after root h)) \<longleftrightarrow> ?left \<noteq> []"
    by (simp_all add: tally_counts [OF assms(1)] word_of_count_pos)
  moreover have "?missed = [] \<longleftrightarrow> (\<forall>i < length h. \<not> is_arrival (h ! i) \<longrightarrow> matched_at h i)"
    by (auto simp: filter_empty_conv)
  moreover have "?left = [] \<longleftrightarrow> (\<forall>i < length h. is_arrival (h ! i))"
    by (auto simp: filter_empty_conv all_set_conv_all_nth)
  moreover have "take 8 (summary_advice t) = ''All good'' \<longleftrightarrow> \<not> 0 < ta_unmatched t \<and> 0 < ta_departures t" for t
    by (simp add: summary_advice_def)
  ultimately show ?thesis by blast
qed

theorem all_good_means_every_departure_matched_witness:
  "take 8 (summary_advice (dr_tally (after ''/m'' [DryArrived demo_phone_facts, DryLeft demo_phone_facts]))) = ''All good''"
proof -
  have "no_stop [DryArrived demo_phone_facts, DryLeft demo_phone_facts]" by (simp add: no_stop_def)
  from all_good_means_every_departure_matched [OF this, of "''/m''"]
  show ?thesis by (simp add: matched_at_def less_Suc_eq present_def exI [of _ "Suc 0"])
qed

end
