(* ===== verification/Unmount.thy ===== *)
theory Unmount
  imports Paths
begin

text \<open>
  \<open>src/src/daemon/unmount.rs\<close>: taking a mount down and proving it is gone. The operating
  system is a parameter: \<open>os_ops\<close> holds the calls the code makes, on an opaque state
  \<open>'w\<close> that every call may change, with the clock in milliseconds. \<open>umount2\<close> and the
  \<open>fusermount\<close> helpers answer what they like; what a property relies on is a hypothesis.
\<close>

section \<open>The operating system\<close>

datatype os_error = NotConnected | NoEntry | InvalidInput string | OtherOs string

text \<open>
  \<open>lstat\<close> answers whether it is a directory and its device number, \<open>stat\<close> the device
  number; a helper answers whether it succeeded, if it could be run; a directory entry that
  cannot be read is \<open>None\<close>, and its type may be unknown.
\<close>

record 'w os_ops =
  os_lstat :: "path \<Rightarrow> 'w \<Rightarrow> os_error + (bool \<times> u64)"
  os_stat :: "path \<Rightarrow> 'w \<Rightarrow> os_error + u64"
  os_detach :: "path \<Rightarrow> 'w \<Rightarrow> os_error option \<times> 'w"
  os_helper :: "string \<Rightarrow> path \<Rightarrow> 'w \<Rightarrow> bool option \<times> 'w"
  os_now :: "'w \<Rightarrow> nat"
  os_sleep :: "nat \<Rightarrow> 'w \<Rightarrow> 'w"
  os_read_dir :: "path \<Rightarrow> 'w \<Rightarrow> os_error + (string \<times> bool option) option list"
  os_create_dir_all :: "path \<Rightarrow> 'w \<Rightarrow> os_error option \<times> 'w"
  os_remove_dir :: "path \<Rightarrow> 'w \<Rightarrow> os_error option \<times> 'w"

text \<open>
  \<open>Path::parent\<close>: without its last component. A \<open>.\<close> component inside the path is kept;
  it names the same directory.
\<close>

definition strip_slashes :: "path \<Rightarrow> path" where
  "strip_slashes p =
     (let q = rev (dropWhile (\<lambda>c. c = CHR ''/'') (rev p)) in if q = [] \<and> p \<noteq> [] then ''/'' else q)"

definition path_parent :: "path \<Rightarrow> path option" where
  "path_parent p =
     (let q = strip_slashes p
      in if q = [] \<or> q = ''/'' then None
         else Some (strip_slashes (rev (dropWhile (\<lambda>c. c \<noteq> CHR ''/'') (rev q)))))"

section \<open>Is it mounted?\<close>

definition POLL_INTERVAL :: nat where
  "POLL_INTERVAL = 20"

definition is_mountpoint :: "'w os_ops \<Rightarrow> path \<Rightarrow> 'w \<Rightarrow> bool" where
  "is_mountpoint O' p w =
     (case os_lstat O' p w of
        Inl e \<Rightarrow> e = NotConnected
      | Inr (dir, dev) \<Rightarrow>
          (if \<not> dir then False
           else (case path_parent p of
                   None \<Rightarrow> False
                 | Some q \<Rightarrow> (case os_stat O' q w of Inr parent \<Rightarrow> parent \<noteq> dev | Inl _ \<Rightarrow> False))))"

section \<open>Unmounting\<close>

fun try_helpers :: "'w os_ops \<Rightarrow> string list \<Rightarrow> path \<Rightarrow> 'w \<Rightarrow> bool \<times> 'w" where
  "try_helpers O' [] p w = (False, w)"
| "try_helpers O' (h # hs) p w =
     (case os_helper O' h p w of
        (Some True, w) \<Rightarrow> (True, w)
      | (_, w) \<Rightarrow> try_helpers O' hs p w)"

definition force_unmount :: "'w os_ops \<Rightarrow> path \<Rightarrow> 'w \<Rightarrow> os_error option \<times> 'w" where
  "force_unmount O' p w =
     (if CHR 0x00 \<in> set p then (Some (InvalidInput ''mount path has a NUL byte''), w)
      else
        (case os_detach O' p w of
           (None, w) \<Rightarrow> (None, w)
         | (Some syscall_error, w) \<Rightarrow>
             (case try_helpers O' [''fusermount3'', ''fusermount''] p w of
                (True, w) \<Rightarrow> (None, w)
              | (False, w) \<Rightarrow> (if is_mountpoint O' p w then (Some syscall_error, w) else (None, w)))))"

text \<open>\<open>None\<close> is the wait that never returns.\<close>

partial_function (option) wait_loop :: "'w os_ops \<Rightarrow> path \<Rightarrow> nat \<Rightarrow> 'w \<Rightarrow> (bool \<times> 'w) option" where
  "wait_loop O' p deadline w =
     (if \<not> is_mountpoint O' p w then Some (True, w)
      else if os_now O' w \<ge> deadline then Some (False, w)
      else wait_loop O' p deadline (os_sleep O' POLL_INTERVAL w))"

declare wait_loop.simps [code]

definition wait_until_unmounted :: "'w os_ops \<Rightarrow> path \<Rightarrow> nat \<Rightarrow> 'w \<Rightarrow> (bool \<times> 'w) option" where
  "wait_until_unmounted O' p timeout w = wait_loop O' p (os_now O' w + timeout) w"

section \<open>What a previous daemon left\<close>

text \<open>One entry: \<open>continue\<close> leaves the list as it is.\<close>

definition clean_entry ::
  "'w os_ops \<Rightarrow> path \<Rightarrow> string \<times> bool option \<Rightarrow> path list \<Rightarrow> 'w \<Rightarrow> (path list \<times> 'w) option" where
  "clean_entry O' root entry cleaned w =
     (if snd entry \<noteq> Some True then Some (cleaned, w)
      else
        (let p = path_join root (fst entry)
         in if is_mountpoint O' p w then
              (case force_unmount O' p w of
                 (Some e, w) \<Rightarrow> Some (cleaned, w)
               | (None, w) \<Rightarrow>
                   (case wait_until_unmounted O' p 5000 w of
                      None \<Rightarrow> None
                    | Some (False, w) \<Rightarrow> Some (cleaned, w)
                    | Some (True, w) \<Rightarrow> Some (cleaned @ [p], snd (os_remove_dir O' p w))))
            else Some (cleaned, snd (os_remove_dir O' p w))))"

fun clean_entries ::
  "'w os_ops \<Rightarrow> path \<Rightarrow> (string \<times> bool option) list \<Rightarrow> path list \<Rightarrow> 'w \<Rightarrow> (path list \<times> 'w) option" where
  "clean_entries O' root [] cleaned w = Some (cleaned, w)"
| "clean_entries O' root (e # es) cleaned w =
     (case clean_entry O' root e cleaned w of
        None \<Rightarrow> None
      | Some (cleaned, w) \<Rightarrow> clean_entries O' root es cleaned w)"

definition clean_stale_mounts :: "'w os_ops \<Rightarrow> path \<Rightarrow> 'w \<Rightarrow> (path list \<times> 'w) option" where
  "clean_stale_mounts O' root w =
     (case os_read_dir O' root w of
        Inl e \<Rightarrow> Some ([], w)
      | Inr entries \<Rightarrow> clean_entries O' root (List.map_filter (\<lambda>e. e) entries) [] w)"

section \<open>Facts\<close>

text \<open>The only thing asked of the clock: sleeping lets at least that time pass.\<close>

definition clock_advances :: "'w os_ops \<Rightarrow> bool" where
  "clock_advances O' \<longleftrightarrow> (\<forall>d w. os_now O' w + d \<le> os_now O' (os_sleep O' d w))"

lemma wait_loop_returns:
  assumes "clock_advances O'"
  shows "\<exists>b w'. wait_loop O' p deadline w = Some (b, w') \<and> (b \<longleftrightarrow> \<not> is_mountpoint O' p w') \<and>
    (\<not> b \<longrightarrow> deadline \<le> os_now O' w')"
proof (induction "deadline - os_now O' w" arbitrary: w rule: less_induct)
  case less
  show ?case
  proof (cases "is_mountpoint O' p w \<and> os_now O' w < deadline")
    case True
    have "os_now O' w + POLL_INTERVAL \<le> os_now O' (os_sleep O' POLL_INTERVAL w)"
      using assms by (simp add: clock_advances_def)
    then have "deadline - os_now O' (os_sleep O' POLL_INTERVAL w) < deadline - os_now O' w"
      using True unfolding POLL_INTERVAL_def by linarith
    from less [OF this] show ?thesis using True by (subst wait_loop.simps) simp
  next
    case False
    then show ?thesis by (subst wait_loop.simps) auto
  qed
qed

lemma wait_returns:
  "clock_advances O' \<Longrightarrow> \<exists>b w'. wait_until_unmounted O' p timeout w = Some (b, w') \<and>
     (b \<longleftrightarrow> \<not> is_mountpoint O' p w') \<and> (\<not> b \<longrightarrow> os_now O' w + timeout \<le> os_now O' w')"
  using wait_loop_returns [of O' p "os_now O' w + timeout" w] by (simp add: wait_until_unmounted_def)

text \<open>What sleeping keeps, waiting keeps.\<close>

lemma wait_loop_keeps:
  "wait_loop O' p deadline w = Some r \<Longrightarrow> (\<And>d w. K w \<Longrightarrow> K (os_sleep O' d w)) \<Longrightarrow> K w \<Longrightarrow> K (snd r)"
proof (induction rule: wait_loop.raw_induct [rotated, consumes 1, case_names step])
  case (step loop O' p deadline w r)
  show ?case
  proof (cases "is_mountpoint O' p w \<and> \<not> os_now O' w \<ge> deadline")
    case True
    then have "loop O' p deadline (os_sleep O' POLL_INTERVAL w) = Some r" using step by simp
    then show ?thesis using step.IH step.prems by blast
  qed (use step in \<open>auto split: if_splits\<close>)
qed

lemma wait_keeps:
  assumes "\<And>d w. K w \<Longrightarrow> K (os_sleep O' d w)" and "wait_until_unmounted O' p t w = Some (b, v)" and "K w"
  shows "K v"
  using wait_loop_keeps [where K = K, OF assms(2) [unfolded wait_until_unmounted_def] assms(1) assms(3)] by simp

lemma wait_done: "\<not> is_mountpoint O' p w \<Longrightarrow> wait_until_unmounted O' p t w = Some (True, w)"
  by (simp add: wait_until_unmounted_def wait_loop.simps)

text \<open>An unmount that fails names the system call's error and leaves the mount in place.\<close>

lemma force_unmount_fails:
  "force_unmount O' p w = (Some e, w') \<Longrightarrow>
     CHR 0x00 \<in> set p \<and> w' = w \<or> is_mountpoint O' p w' \<and> fst (os_detach O' p w) = Some e"
  by (auto simp: force_unmount_def split: if_splits prod.splits option.splits bool.splits)

text \<open>
  The calls of a sweep, as far as they touch the mount points in \<open>P\<close>, a set of names of
  different directories: unmounting one and waiting for it leaves the others alone, and
  removing a directory that is no mount point changes none. Nothing is asked of whether an
  unmount works.
\<close>

definition sweeps_apart :: "'w os_ops \<Rightarrow> path set \<Rightarrow> bool" where
  "sweeps_apart O' P \<longleftrightarrow>
     (\<forall>p \<in> P. \<forall>q \<in> P. \<forall>w.
        (q \<noteq> p \<longrightarrow> is_mountpoint O' q (snd (os_detach O' p w)) = is_mountpoint O' q w \<and>
           (\<forall>h. is_mountpoint O' q (snd (os_helper O' h p w)) = is_mountpoint O' q w) \<and>
           (\<forall>t b v. wait_until_unmounted O' p t w = Some (b, v) \<longrightarrow> is_mountpoint O' q v = is_mountpoint O' q w)) \<and>
        (\<not> is_mountpoint O' p w \<longrightarrow> is_mountpoint O' q (snd (os_remove_dir O' p w)) = is_mountpoint O' q w))"

lemma sweeps_apartD:
  assumes "sweeps_apart O' P" and "p \<in> P" and "q \<in> P"
  shows "q \<noteq> p \<Longrightarrow> os_detach O' p w = (r, v) \<Longrightarrow> is_mountpoint O' q v = is_mountpoint O' q w"
    and "q \<noteq> p \<Longrightarrow> os_helper O' h p w = (b, v) \<Longrightarrow> is_mountpoint O' q v = is_mountpoint O' q w"
    and "q \<noteq> p \<Longrightarrow> wait_until_unmounted O' p t w = Some (c, v) \<Longrightarrow> is_mountpoint O' q v = is_mountpoint O' q w"
    and "\<not> is_mountpoint O' p w \<Longrightarrow> is_mountpoint O' q (snd (os_remove_dir O' p w)) = is_mountpoint O' q w"
  using assms unfolding sweeps_apart_def by (metis snd_conv)+

lemma helpers_apart:
  assumes "sweeps_apart O' P" and "p \<in> P" and "q \<in> P" and "q \<noteq> p"
  shows "try_helpers O' hs p w = (b, v) \<Longrightarrow> is_mountpoint O' q v = is_mountpoint O' q w"
proof (induction hs arbitrary: w)
  case (Cons h hs)
  obtain c u where h: "os_helper O' h p w = (c, u)" by fastforce
  then show ?case
    using Cons sweeps_apartD(2) [OF assms h] by (auto split: option.splits bool.splits)
qed simp

lemma force_apart:
  assumes "sweeps_apart O' P" and "p \<in> P" and "q \<in> P" and "q \<noteq> p" and "force_unmount O' p w = (r, v)"
  shows "is_mountpoint O' q v = is_mountpoint O' q w"
proof -
  obtain d u where d: "os_detach O' p w = (d, u)" by fastforce
  obtain b x where h: "try_helpers O' [''fusermount3'', ''fusermount''] p u = (b, x)" by fastforce
  have "v = w \<or> v = u \<or> v = x"
    using assms(5) d h by (auto simp: force_unmount_def split: if_splits option.splits bool.splits)
  then show ?thesis using sweeps_apartD(1) [OF assms(1-4) d] helpers_apart [OF assms(1-4) h] by auto
qed

text \<open>What sweeping one entry does to the mount points of \<open>P\<close>.\<close>

definition swept :: "'w os_ops \<Rightarrow> path set \<Rightarrow> path set \<Rightarrow> 'w \<Rightarrow> 'w \<Rightarrow> bool" where
  "swept O' P S w v \<longleftrightarrow>
     (\<forall>q \<in> P - S. is_mountpoint O' q v = is_mountpoint O' q w) \<and>
     (\<forall>p \<in> S. is_mountpoint O' p v \<longrightarrow> is_mountpoint O' p w \<and> (\<exists>u. is_mountpoint O' p u \<and> is_mountpoint O' p (snd (force_unmount O' p u))))"

lemma clean_entry_swept:
  assumes laws: "sweeps_apart O' P" "clock_advances O'" and p: "path_join root (fst e) \<in> P"
  defines "p \<equiv> path_join root (fst e)"
  shows "\<exists>v. clean_entry O' root e cleaned w =
      Some (cleaned @ (if snd e = Some True \<and> is_mountpoint O' p w \<and> \<not> is_mountpoint O' p v then [p] else []), v) \<and>
    swept O' P (if snd e = Some True then {p} else {}) w v"
proof (cases "snd e = Some True")
  case False
  then show ?thesis by (simp add: clean_entry_def swept_def)
next
  case dir: True
  have p: "p \<in> P" using p by (simp add: p_def)
  note apart = sweeps_apartD [OF laws(1) p]
  show ?thesis
  proof (cases "is_mountpoint O' p w")
    case False
    then show ?thesis
      using dir apart(4) [OF _ False] p by (simp add: clean_entry_def p_def [symmetric] swept_def)
  next
    case True
    obtain f u where f: "force_unmount O' p w = (f, u)" by fastforce
    have others: "is_mountpoint O' q u = is_mountpoint O' q w" if "q \<in> P" "q \<noteq> p" for q
      by (rule force_apart [OF laws(1) p that f])
    obtain b v where wait: "wait_until_unmounted O' p 5000 u = Some (b, v)" "b \<longleftrightarrow> \<not> is_mountpoint O' p v"
      using wait_returns [OF laws(2)] by metis
    have still: "is_mountpoint O' p u" if "f \<noteq> None \<or> \<not> b"
    proof (cases f)
      case None
      then show ?thesis using that wait wait_done [of O' p u 5000] by auto
    next
      case (Some x)
      then show ?thesis using force_unmount_fails f True by metis
    qed
    have entry: "clean_entry O' root e cleaned w =
        (if f \<noteq> None then Some (cleaned, u) else if b then Some (cleaned @ [p], snd (os_remove_dir O' p v)) else Some (cleaned, v))"
      using dir True f wait(1) by (simp add: clean_entry_def p_def [symmetric] split: option.split bool.split)
    consider "f \<noteq> None" | "f = None" "b" | "f = None" "\<not> b" by blast
    then show ?thesis
    proof cases
      case 1
      then show ?thesis using entry True dir still others f by (auto simp: swept_def intro!: exI [of _ w])
    next
      case 2
      have v: "is_mountpoint O' q v = is_mountpoint O' q w" if "q \<in> P" "q \<noteq> p" for q
        using apart(3) [OF that wait(1)] others [OF that] by simp
      then show ?thesis using entry 2 True dir wait(2) apart(4) p by (auto simp: swept_def)
    next
      case 3
      have "is_mountpoint O' q v = is_mountpoint O' q w" if "q \<in> P" "q \<noteq> p" for q
        using apart(3) [OF that wait(1)] others [OF that] by simp
      then show ?thesis using entry 3 True dir wait(2) still f by (auto simp: swept_def intro!: exI [of _ w])
    qed
  qed
qed

definition dir_paths :: "path \<Rightarrow> (string \<times> bool option) list \<Rightarrow> path list" where
  "dir_paths root es = map (\<lambda>e. path_join root (fst e)) (filter (\<lambda>e. snd e = Some True) es)"

text \<open>The sweep always comes to an end.\<close>

lemma clean_entry_returns: "clock_advances O' \<Longrightarrow> \<exists>r. clean_entry O' root e cleaned w = Some r"
proof -
  assume c: "clock_advances O'"
  obtain f w1 where f: "force_unmount O' (path_join root (fst e)) w = (f, w1)" by fastforce
  obtain b w2 where b: "wait_until_unmounted O' (path_join root (fst e)) 5000 w1 = Some (b, w2)"
    using wait_returns [OF c] by metis
  show ?thesis
    by (cases f; cases b) (simp_all add: clean_entry_def Let_def f b)
qed

lemma clean_entries_returns: "clock_advances O' \<Longrightarrow> \<exists>r. clean_entries O' root es cleaned w = Some r"
proof (induction es arbitrary: cleaned w)
  case (Cons e es)
  then show ?case using clean_entry_returns [of O' root e cleaned w] by fastforce
qed simp

lemma clean_stale_mounts_returns: "clock_advances O' \<Longrightarrow> \<exists>r. clean_stale_mounts O' root w = Some r"
  using clean_entries_returns [of O' root _ "[]" w] by (cases "os_read_dir O' root w") (simp_all add: clean_stale_mounts_def)

lemma dir_paths_simps [simp]:
  "dir_paths root [] = []"
  "dir_paths root (e # es) = (if snd e = Some True then [path_join root (fst e)] else []) @ dir_paths root es"
  by (simp_all add: dir_paths_def)

lemma swept_chain:
  assumes "swept O' P S w u" and "swept O' P T u v" and "S \<subseteq> P" and "T \<subseteq> P"
  shows "swept O' P (S \<union> T) w v"
  using assms unfolding swept_def by blast

lemma clean_entries_swept:
  assumes laws: "sweeps_apart O' P" "clock_advances O'"
  shows "\<forall>e \<in> set es. path_join root (fst e) \<in> P \<Longrightarrow> distinct (dir_paths root es) \<Longrightarrow>
    \<exists>v. clean_entries O' root es cleaned w =
        Some (cleaned @ filter (\<lambda>p. is_mountpoint O' p w \<and> \<not> is_mountpoint O' p v) (dir_paths root es), v) \<and>
      swept O' P (set (dir_paths root es)) w v"
proof (induction es arbitrary: cleaned w)
  case Nil
  then show ?case by (simp add: swept_def)
next
  case (Cons e es)
  let ?p = "path_join root (fst e)" and ?S = "if snd e = Some True then {path_join root (fst e)} else {}"
  have P: "?S \<subseteq> P" "set (dir_paths root es) \<subseteq> P" using Cons.prems(1) by (auto simp: dir_paths_def)
  obtain u where u: "clean_entry O' root e cleaned w =
      Some (cleaned @ (if snd e = Some True \<and> is_mountpoint O' ?p w \<and> \<not> is_mountpoint O' ?p u then [?p] else []), u)"
      "swept O' P ?S w u"
    using clean_entry_swept [OF laws, of root e cleaned w] Cons.prems(1) by auto
  let ?c = "cleaned @ (if snd e = Some True \<and> is_mountpoint O' ?p w \<and> \<not> is_mountpoint O' ?p u then [?p] else [])"
  obtain v where v: "clean_entries O' root es ?c u =
      Some (?c @ filter (\<lambda>p. is_mountpoint O' p u \<and> \<not> is_mountpoint O' p v) (dir_paths root es), v)"
      "swept O' P (set (dir_paths root es)) u v"
    using Cons.IH [of ?c u] Cons.prems by auto
  have "is_mountpoint O' p u = is_mountpoint O' p w" if "p \<in> set (dir_paths root es)" for p
    using that u(2) P Cons.prems(2) by (auto simp: swept_def split: if_splits)
  then have "filter (\<lambda>p. is_mountpoint O' p u \<and> \<not> is_mountpoint O' p v) (dir_paths root es) =
      filter (\<lambda>p. is_mountpoint O' p w \<and> \<not> is_mountpoint O' p v) (dir_paths root es)"
    by (intro filter_cong) auto
  moreover have "is_mountpoint O' ?p v = is_mountpoint O' ?p u" if "snd e = Some True"
    using that v(2) P(1) Cons.prems(2) by (auto simp: swept_def)
  moreover have "swept O' P (set (dir_paths root (e # es))) w v"
    using swept_chain [OF u(2) v(2) P] by (simp split: if_splits)
  ultimately show ?case using u(1) v(1) by (auto split: if_splits)
qed

section \<open>Properties\<close>

text \<open>
  Waiting for an unmount always returns, and its answer is a proof: true exactly when the
  path is no mount point in the state it returns, and false only when the whole timeout has
  passed with the path still mounted.
\<close>

theorem unmount_wait_is_proof:
  assumes "clock_advances O'"
  shows "\<exists>b w'. wait_until_unmounted O' p timeout w = Some (b, w') \<and>
     (b \<longleftrightarrow> \<not> is_mountpoint O' p w') \<and> (\<not> b \<longrightarrow> os_now O' w + timeout \<le> os_now O' w')"
  using assms by (rule wait_returns)

definition slow_os :: "nat os_ops" where
  "slow_os =
     \<lparr>os_lstat = (\<lambda>p w. if w < 50 then Inl NotConnected else Inr (False, 1)), os_stat = (\<lambda>p w. Inr 1),
      os_detach = (\<lambda>p w. (None, w)), os_helper = (\<lambda>h p w. (None, w)), os_now = (\<lambda>w. w),
      os_sleep = (\<lambda>d w. w + d), os_read_dir = (\<lambda>p w. Inr []),
      os_create_dir_all = (\<lambda>p w. (None, w)), os_remove_dir = (\<lambda>p w. (None, w))\<rparr>"

theorem unmount_wait_is_proof_witness:
  "\<exists>b w'. wait_until_unmounted slow_os ''/mnt'' 30 0 = Some (b, w') \<and>
     (b \<longleftrightarrow> \<not> is_mountpoint slow_os ''/mnt'' w') \<and> (\<not> b \<longrightarrow> 30 \<le> os_now slow_os w')"
  using unmount_wait_is_proof [of slow_os "''/mnt''" 30 0]
  by (simp add: clock_advances_def slow_os_def)

text \<open>
  C36. What a crashed daemon left is cleared as far as the system lets it: the sweep always
  returns; it reports exactly the directories of the root that were mount points and are no
  longer, in the order of the listing; it makes none a mount point, and leaves every other
  mount alone; and a directory that is still a mount point at the end is one where the forced
  unmount, the system call and both helpers, met the mount and did not take it down.
\<close>

theorem sweep_is_complete:
  assumes "clock_advances O'" and "sweeps_apart O' P" and "os_read_dir O' root w = Inr entries"
    and "ps = dir_paths root (List.map_filter (\<lambda>e. e) entries)" and "distinct ps"
    and "\<forall>e \<in> set (List.map_filter (\<lambda>e. e) entries). path_join root (fst e) \<in> P"
  shows "\<exists>v. clean_stale_mounts O' root w = Some (filter (\<lambda>p. is_mountpoint O' p w \<and> \<not> is_mountpoint O' p v) ps, v) \<and>
     (\<forall>q \<in> P. q \<notin> set ps \<longrightarrow> is_mountpoint O' q v = is_mountpoint O' q w) \<and>
     (\<forall>p \<in> set ps. is_mountpoint O' p v \<longrightarrow>
        is_mountpoint O' p w \<and> (\<exists>u. is_mountpoint O' p u \<and> is_mountpoint O' p (snd (force_unmount O' p u))))"
proof -
  obtain v where "clean_entries O' root (List.map_filter (\<lambda>e. e) entries) [] w =
      Some (filter (\<lambda>p. is_mountpoint O' p w \<and> \<not> is_mountpoint O' p v) ps, v)" "swept O' P (set ps) w v"
    using clean_entries_swept [OF assms(2,1,6), of "[]" w] assms(4,5) by auto
  moreover from this(1) have "clean_stale_mounts O' root w =
      Some (filter (\<lambda>p. is_mountpoint O' p w \<and> \<not> is_mountpoint O' p v) ps, v)"
    by (simp add: clean_stale_mounts_def assms(3))
  ultimately show ?thesis unfolding swept_def by (intro exI [of _ v]) blast
qed

text \<open>
  A system that is its set of dead mounts, where the system call is refused to the daemon, and
  the helper works everywhere but on one path.
\<close>

definition dead_mounts_os :: "(nat \<times> string set) os_ops" where
  "dead_mounts_os =
     \<lparr>os_lstat = (\<lambda>p w. if p \<in> snd w then Inl NotConnected else Inl NoEntry), os_stat = (\<lambda>p w. Inr 1),
      os_detach = (\<lambda>p w. (Some (OtherOs ''EPERM''), w)),
      os_helper = (\<lambda>h p w. if h = ''fusermount'' \<and> p \<noteq> ''/m/SN3'' then (Some True, (fst w, snd w - {p})) else (None, w)),
      os_now = fst, os_sleep = (\<lambda>d w. (fst w + d, snd w)),
      os_read_dir = (\<lambda>p w. Inr [Some (''SN1'', Some True), None, Some (''log'', Some False), Some (''SN2'', Some True),
        Some (''SN3'', Some True)]),
      os_create_dir_all = (\<lambda>p w. (None, w)), os_remove_dir = (\<lambda>p w. (None, w))\<rparr>"

lemma dead_mounts_point: "is_mountpoint dead_mounts_os p w \<longleftrightarrow> p \<in> snd w"
  by (simp add: is_mountpoint_def dead_mounts_os_def)

lemma dead_mounts_laws: "clock_advances dead_mounts_os" "sweeps_apart dead_mounts_os P"
proof -
  show "clock_advances dead_mounts_os" by (simp add: clock_advances_def dead_mounts_os_def)
  have "snd v = snd w" if "wait_until_unmounted dead_mounts_os p t w = Some (b, v)" for p t w b v
    by (rule wait_keeps [OF _ that]) (simp_all add: dead_mounts_os_def)
  then have wait: "q \<in> snd v \<longleftrightarrow> q \<in> snd w" if "wait_until_unmounted dead_mounts_os p t w = Some (b, v)" for p t w b v q
    using that by blast
  have "q \<in> snd (snd (os_detach dead_mounts_os p w)) \<longleftrightarrow> q \<in> snd w"
      "q \<in> snd (snd (os_remove_dir dead_mounts_os p w)) \<longleftrightarrow> q \<in> snd w"
      "q \<noteq> p \<Longrightarrow> q \<in> snd (snd (os_helper dead_mounts_os h p w)) \<longleftrightarrow> q \<in> snd w" for p q h w
    by (simp_all add: dead_mounts_os_def)
  with wait show "sweeps_apart dead_mounts_os P"
    unfolding sweeps_apart_def dead_mounts_point by blast
qed

theorem sweep_is_complete_witness:
  "\<exists>v. clean_stale_mounts dead_mounts_os ''/m'' (0, {''/m/SN2'', ''/m/SN3'', ''/x''}) =
      Some (filter (\<lambda>p. p \<in> {''/m/SN2'', ''/m/SN3'', ''/x''} \<and> p \<notin> snd v) [''/m/SN1'', ''/m/SN2'', ''/m/SN3''], v) \<and>
    ''/x'' \<in> snd v \<and> ''/m/SN2'' \<notin> snd v"
proof -
  let ?es = "[Some (''SN1'', Some True), None, Some (''log'', Some False), Some (''SN2'', Some True), Some (''SN3'', Some True)]"
  have r: "os_read_dir dead_mounts_os ''/m'' (0, {''/m/SN2'', ''/m/SN3'', ''/x''}) = Inr ?es"
    by (simp add: dead_mounts_os_def)
  have ps: "[''/m/SN1'', ''/m/SN2'', ''/m/SN3''] = dir_paths ''/m'' (List.map_filter (\<lambda>e. e) ?es)"
    by (simp add: map_filter_simps path_join_def)
  have works: "''/m/SN2'' \<notin> snd (snd (force_unmount dead_mounts_os ''/m/SN2'' u))" for u
    by (simp add: force_unmount_def dead_mounts_os_def)
  have d: "distinct [''/m/SN1'', ''/m/SN2'', ''/m/SN3'']" by simp
  have u: "\<forall>e \<in> set (List.map_filter (\<lambda>e. e) ?es). path_join ''/m'' (fst e) \<in> UNIV" by simp
  obtain v where v: "clean_stale_mounts dead_mounts_os ''/m'' (0, {''/m/SN2'', ''/m/SN3'', ''/x''}) =
      Some (filter (\<lambda>p. p \<in> {''/m/SN2'', ''/m/SN3'', ''/x''} \<and> p \<notin> snd v) [''/m/SN1'', ''/m/SN2'', ''/m/SN3''], v)"
      "\<forall>q \<in> UNIV. q \<notin> set [''/m/SN1'', ''/m/SN2'', ''/m/SN3''] \<longrightarrow> (q \<in> snd v) = (q \<in> {''/m/SN2'', ''/m/SN3'', ''/x''})"
      "\<forall>p \<in> set [''/m/SN1'', ''/m/SN2'', ''/m/SN3'']. p \<in> snd v \<longrightarrow> p \<in> {''/m/SN2'', ''/m/SN3'', ''/x''} \<and>
         (\<exists>u. p \<in> snd u \<and> p \<in> snd (snd (force_unmount dead_mounts_os p u)))"
    using sweep_is_complete [OF dead_mounts_laws r ps d u] unfolding dead_mounts_point snd_conv by (elim exE conjE)
  have "''/x'' \<in> snd v" using v(2) by simp
  moreover have "''/m/SN2'' \<notin> snd v" using v(3) works by force
  ultimately show ?thesis using v(1) by blast
qed

end
