(* ===== verification/Supervisor.thy ===== *)
theory Supervisor
  imports Unmount Dry_Run Fs_Changes
begin

text \<open>
  \<open>src/src/daemon/supervisor.rs\<close>: the loop that owns every mount of the daemon. Its world
  \<open>'w\<close> is what it shares with the rest of the machine: the operating system, the device
  source, \<open>fuser\<close>'s sessions \<open>'sess\<close> and, behind each session, the mounted filesystem. The
  calls into it are the argument \<open>host\<close>. What the code logs is left out. The hash map of
  mounts is an association list, and the one iteration over it takes its order as an argument;
  an \<open>Arc\<close> of a stop flag is its index in the list of all flags made. The thread that joins a
  session (\<open>umount_and_join\<close>) is the call \<open>ho_join\<close>, made where it is spawned.
\<close>

section \<open>State\<close>

record ('dev, 's, 'd, 'sess, 'w) host =
  ho_os :: "'w os_ops"
  ho_open :: "device_ident \<Rightarrow> 'w \<Rightarrow> (mtp_error + 'dev) \<times> 'w"
  ho_fresh :: "'w \<Rightarrow> cache_heap \<times> 'd"
  ho_spawn_mount :: "('dev, 's, 'd) mtp_fs \<Rightarrow> path \<Rightarrow> mount_option list \<Rightarrow> 'w \<Rightarrow> (os_error + 'sess) \<times> 'w"
  ho_fills :: "'sess \<Rightarrow> 'w \<Rightarrow> tracker_state \<times> cache_heap"
  ho_set_fills :: "'sess \<Rightarrow> tracker_state \<times> cache_heap \<Rightarrow> 'w \<Rightarrow> 'w"
  ho_wakes :: "'sess \<Rightarrow> 'w \<Rightarrow> wake_up list \<times> 'w"
  ho_join :: "'sess \<Rightarrow> 'w \<Rightarrow> 'w"

definition DEFAULT_UNMOUNT_TIMEOUT :: nat where
  "DEFAULT_UNMOUNT_TIMEOUT = 10000"

definition DEFAULT_STOP_TIMEOUT :: nat where
  "DEFAULT_STOP_TIMEOUT = 5000"

record supervisor_config =
  sc_mount_root :: path
  sc_spool_dir :: path
  sc_read_only :: bool
  sc_unmount_timeout :: nat
  sc_full_download_limit :: u64

definition config_new :: "path \<Rightarrow> path \<Rightarrow> bool \<Rightarrow> supervisor_config" where
  "config_new root spool ro =
     \<lparr>sc_mount_root = root, sc_spool_dir = spool, sc_read_only = ro,
      sc_unmount_timeout = DEFAULT_UNMOUNT_TIMEOUT, sc_full_download_limit = DEFAULT_FULL_DOWNLOAD_LIMIT\<rparr>"

record 'sess active_mount =
  am_path :: path
  am_label :: string
  am_session :: 'sess
  am_watcher_stop :: nat

record ('sess, 'w) supervisor =
  sv_config :: supervisor_config
  sv_mounts :: "(string \<times> 'sess active_mount) list"
  sv_watchers :: "bool list"
  sv_world :: 'w

definition supervisor_new :: "supervisor_config \<Rightarrow> 'w \<Rightarrow> ('sess, 'w) supervisor" where
  "supervisor_new config w = \<lparr>sv_config = config, sv_mounts = [], sv_watchers = [], sv_world = w\<rparr>"

definition mounted_keys :: "('sess, 'w) supervisor \<Rightarrow> string list" where
  "mounted_keys s = sort (map fst (sv_mounts s))"

section \<open>Mounting\<close>

definition daemon_fs ::
  "('dev, 's, 'd, 'sess, 'w) host \<Rightarrow> supervisor_config \<Rightarrow> 'dev \<Rightarrow> 'w \<Rightarrow> ('dev, 's, 'd) mtp_fs" where
  "daemon_fs H config device w =
     (case ho_fresh H w of (heap, env) \<Rightarrow>
        fs_new device (policy_from_secs 0) (sc_read_only config) (sc_full_download_limit config) heap env)"

definition sup_mount ::
  "('dev, 's, 'd, 'sess, 'w) host \<Rightarrow> device_ident \<Rightarrow> ('sess, 'w) supervisor \<Rightarrow> ('sess, 'w) supervisor" where
  "sup_mount H ident s =
     (case map_of (sv_mounts s) (di_key ident) of
        Some existing \<Rightarrow> s
      | None \<Rightarrow>
          (let p = path_join (sc_mount_root (sv_config s)) (di_key ident)
           in case os_create_dir_all (ho_os H) p (sv_world s) of
                (Some e, w) \<Rightarrow> s\<lparr>sv_world := w\<rparr>
              | (None, w) \<Rightarrow>
                  (case ho_open H ident w of
                     (Inl e, w) \<Rightarrow> s\<lparr>sv_world := snd (os_remove_dir (ho_os H) p w)\<rparr>
                   | (Inr device, w) \<Rightarrow>
                       (let fs = daemon_fs H (sv_config s) device w
                        in case ho_spawn_mount H fs p (mount_options fs) w of
                             (Inl e, w) \<Rightarrow> s\<lparr>sv_world := snd (os_remove_dir (ho_os H) p w)\<rparr>
                           | (Inr session, w) \<Rightarrow>
                               s\<lparr>sv_world := w, sv_watchers := sv_watchers s @ [False],
                                 sv_mounts := (di_key ident,
                                   \<lparr>am_path = p, am_label = di_label ident, am_session = session,
                                    am_watcher_stop = length (sv_watchers s)\<rparr>) # sv_mounts s\<rparr>))))"

text \<open>
  One turn of a mount's watcher thread: what \<open>wait_timeout\<close> found and the stop flag as it
  is read afterwards.
\<close>

datatype watcher_result = Sends command | Ends | Waits

definition watcher_turn :: "string \<Rightarrow> string option \<Rightarrow> bool \<Rightarrow> watcher_result" where
  "watcher_turn key found stop =
     (case found of Some reason \<Rightarrow> Sends (GiveUp key reason) | None \<Rightarrow> (if stop then Ends else Waits))"

section \<open>Unmounting\<close>

text \<open>
  \<open>fills.stop_and_wait\<close> on the filesystem behind the session: tell the downloads to stop, then
  wait with what the other threads leave at each wake-up.
\<close>

definition stop_fills ::
  "('dev, 's, 'd, 'sess, 'w) host \<Rightarrow> 'sess \<Rightarrow> 'w \<Rightarrow> bool \<times> 'w" where
  "stop_fills H sess w =
     (let deadline = os_now (ho_os H) w + DEFAULT_STOP_TIMEOUT;
          (t, h) = ho_fills H sess w;
          (t, h) = begin_stop t h;
          (wakes, w) = ho_wakes H sess (ho_set_fills H sess (t, h) w)
      in (wait_idle deadline t wakes = Some True, w))"

definition sup_unmount ::
  "('dev, 's, 'd, 'sess, 'w) host \<Rightarrow> string \<Rightarrow> string \<Rightarrow> ('sess, 'w) supervisor \<Rightarrow> ('sess, 'w) supervisor option" where
  "sup_unmount H key reason s =
     (case map_of (sv_mounts s) key of
        None \<Rightarrow> Some s
      | Some m \<Rightarrow>
          (let s = s\<lparr>sv_mounts := filter (\<lambda>p. fst p \<noteq> key) (sv_mounts s),
                     sv_watchers := (sv_watchers s)[am_watcher_stop m := True]\<rparr>;
               (forced, w) = force_unmount (ho_os H) (am_path m) (sv_world s);
               (stopped, w) = stop_fills H (am_session m) w;
               w = ho_join H (am_session m) w
           in case wait_until_unmounted (ho_os H) (am_path m) (sc_unmount_timeout (sv_config s)) w of
                None \<Rightarrow> None
              | Some (True, w) \<Rightarrow> Some (s\<lparr>sv_world := snd (os_remove_dir (ho_os H) (am_path m) w)\<rparr>)
              | Some (False, w) \<Rightarrow> Some (s\<lparr>sv_world := w\<rparr>)))"

fun unmount_keys ::
  "('dev, 's, 'd, 'sess, 'w) host \<Rightarrow> string list \<Rightarrow> ('sess, 'w) supervisor \<Rightarrow> ('sess, 'w) supervisor option" where
  "unmount_keys H [] s = Some s"
| "unmount_keys H (key # ks) s =
     (case sup_unmount H key ''the daemon is shutting down'' s of
        None \<Rightarrow> None
      | Some s \<Rightarrow> unmount_keys H ks s)"

definition unmount_all ::
  "('dev, 's, 'd, 'sess, 'w) host \<Rightarrow> (string list \<Rightarrow> string list) \<Rightarrow> ('sess, 'w) supervisor \<Rightarrow>
   ('sess, 'w) supervisor option" where
  "unmount_all H order s =
     (case unmount_keys H (order (map fst (sv_mounts s))) s of
        None \<Rightarrow> None
      | Some s \<Rightarrow>
          Some (s\<lparr>sv_world := snd (os_remove_dir (ho_os H) (sc_mount_root (sv_config s)) (sv_world s))\<rparr>))"

section \<open>The loop\<close>

text \<open>
  The end of the list is every sender being gone, the \<open>Err\<close> of \<open>recv\<close>. The supervisor keeps
  a sender of its own, so in a running daemon this case stands for a loop that still waits: what
  holds of it holds of the state after the commands so far, and a run that ends has a \<open>Stop\<close>
  among its commands.
\<close>

fun sup_loop ::
  "('dev, 's, 'd, 'sess, 'w) host \<Rightarrow> command list \<Rightarrow> ('sess, 'w) supervisor \<Rightarrow>
   (string \<times> ('sess, 'w) supervisor) option" where
  "sup_loop H [] s = Some (''every event source is gone'', s)"
| "sup_loop H (Device (Arrived ident) # cs) s = sup_loop H cs (sup_mount H ident s)"
| "sup_loop H (Device (Left ident) # cs) s =
     (case sup_unmount H (di_key ident) ''the device was unplugged'' s of
        None \<Rightarrow> None | Some s \<Rightarrow> sup_loop H cs s)"
| "sup_loop H (GiveUp key reason # cs) s =
     (case sup_unmount H key reason s of None \<Rightarrow> None | Some s \<Rightarrow> sup_loop H cs s)"
| "sup_loop H (Stop reason # cs) s = Some (reason, s)"

definition sup_run ::
  "('dev, 's, 'd, 'sess, 'w) host \<Rightarrow> (string list \<Rightarrow> string list) \<Rightarrow> command list \<Rightarrow>
   ('sess, 'w) supervisor \<Rightarrow> ('sess, 'w) supervisor option" where
  "sup_run H order commands s =
     (let s = s\<lparr>sv_world := snd (os_create_dir_all (ho_os H) (sc_mount_root (sv_config s)) (sv_world s))\<rparr>
      in case sup_loop H commands s of
           None \<Rightarrow> None
         | Some (stop_reason, s) \<Rightarrow> unmount_all H order s)"

end
