(* ===== verification/Supervisor_Facts.thy ===== *)
theory Supervisor_Facts
  imports Supervisor
begin

text \<open>
  What holds of the supervisor: its books (one mount per key, at the key's directory, with a
  watcher of its own that is told to stop exactly when the mount goes), that an unmount always
  returns and never removes a live mount's directory, that a run that is stopped leaves nothing
  mounted but where the system refuses the unmount, and that a dry run predicts it.
\<close>

section \<open>What the operations change\<close>

lemma sup_mount_cases:
  obtains (kept) w' where "sup_mount H ident s = s\<lparr>sv_world := w'\<rparr>"
  | (mounted) w' session where "map_of (sv_mounts s) (di_key ident) = None"
      "sup_mount H ident s =
         s\<lparr>sv_world := w', sv_watchers := sv_watchers s @ [False],
           sv_mounts := (di_key ident,
             \<lparr>am_path = path_join (sc_mount_root (sv_config s)) (di_key ident), am_label = di_label ident,
              am_session = session, am_watcher_stop = length (sv_watchers s)\<rparr>) # sv_mounts s\<rparr>"
proof (cases "map_of (sv_mounts s) (di_key ident)")
  case (Some m)
  then have "sup_mount H ident s = s\<lparr>sv_world := sv_world s\<rparr>" by (simp add: sup_mount_def)
  then show ?thesis by (rule kept)
next
  case None
  let ?p = "path_join (sc_mount_root (sv_config s)) (di_key ident)"
  obtain r1 w1 where 1: "os_create_dir_all (ho_os H) ?p (sv_world s) = (r1, w1)" by fastforce
  obtain r2 w2 where 2: "ho_open H ident w1 = (r2, w2)" by fastforce
  show ?thesis
  proof (cases r1)
    case (Some e)
    then show ?thesis using 1 \<open>map_of _ _ = None\<close> kept by (simp add: sup_mount_def)
  next
    case r1: None
    show ?thesis
    proof (cases r2)
      case (Inl e)
      then show ?thesis using 1 2 r1 \<open>map_of _ _ = None\<close> kept by (simp add: sup_mount_def)
    next
      case (Inr dev)
      let ?fs = "daemon_fs H (sv_config s) dev w2"
      obtain r3 w3 where 3: "ho_spawn_mount H ?fs ?p (mount_options ?fs) w2 = (r3, w3)" by fastforce
      show ?thesis
        using 1 2 3 r1 Inr \<open>map_of _ _ = None\<close> kept mounted by (cases r3) (simp_all add: sup_mount_def Let_def)
    qed
  qed
qed

text \<open>An unmount of a mounted key, as far as it returns.\<close>

lemma sup_unmount_absent: "map_of (sv_mounts s) key = None \<Longrightarrow> sup_unmount H key reason s = Some s"
  by (simp add: sup_unmount_def)

text \<open>The world once the mount was forced off, its downloads told to stop and its session let go.\<close>

definition torn_down :: "('dev, 's, 'd, 'sess, 'w) host \<Rightarrow> 'sess active_mount \<Rightarrow> 'w \<Rightarrow> 'w" where
  "torn_down H m w =
     ho_join H (am_session m) (snd (stop_fills H (am_session m) (snd (force_unmount (ho_os H) (am_path m) w))))"

lemma sup_unmount_present:
  "map_of (sv_mounts s) key = Some m \<Longrightarrow> sup_unmount H key reason s =
     (case wait_until_unmounted (ho_os H) (am_path m) (sc_unmount_timeout (sv_config s)) (torn_down H m (sv_world s)) of
        None \<Rightarrow> None
      | Some (b, w') \<Rightarrow> Some (s\<lparr>
          sv_mounts := filter (\<lambda>p. fst p \<noteq> key) (sv_mounts s),
          sv_watchers := (sv_watchers s)[am_watcher_stop m := True],
          sv_world := (if b then snd (os_remove_dir (ho_os H) (am_path m) w') else w')\<rparr>))"
  by (simp add: sup_unmount_def torn_down_def case_prod_unfold Let_def split: option.split prod.split bool.split)

lemma sup_unmount_returns:
  assumes "clock_advances (ho_os H)"
  obtains s' where "sup_unmount H key reason s = Some s'"
    and "sv_config s' = sv_config s" "sv_mounts s' = filter (\<lambda>p. fst p \<noteq> key) (sv_mounts s)"
proof (cases "map_of (sv_mounts s) key")
  case None
  then show ?thesis using that [of s] by (simp add: sup_unmount_absent filter_absent)
next
  case (Some m)
  with wait_returns [OF assms, of "am_path m" "sc_unmount_timeout (sv_config s)" "torn_down H m (sv_world s)"]
  show ?thesis using that by (auto simp: sup_unmount_present)
qed

section \<open>The books\<close>

definition books_ok :: "('sess, 'w) supervisor \<Rightarrow> bool" where
  "books_ok s \<longleftrightarrow>
     distinct (map fst (sv_mounts s)) \<and>
     (\<forall>(k, m) \<in> set (sv_mounts s). am_path m = path_join (sc_mount_root (sv_config s)) k) \<and>
     distinct (map (\<lambda>p. am_watcher_stop (snd p)) (sv_mounts s)) \<and>
     (\<lambda>p. am_watcher_stop (snd p)) ` set (sv_mounts s) = {i. i < length (sv_watchers s) \<and> \<not> sv_watchers s ! i}"

lemma books_ok_world [simp]: "books_ok (s\<lparr>sv_world := w\<rparr>) = books_ok s"
  by (simp add: books_ok_def)

lemma books_ok_new: "books_ok (supervisor_new config w)"
  by (simp add: books_ok_def supervisor_new_def)

lemma books_ok_mount: "books_ok s \<Longrightarrow> books_ok (sup_mount H ident s) \<and> sv_config (sup_mount H ident s) = sv_config s"
proof (cases rule: sup_mount_cases [of H ident s])
  case (mounted w' session)
  assume s: "books_ok s"
  have "{i. i < Suc (length ws) \<and> \<not> (ws @ [False]) ! i} = insert (length ws) {i. i < length ws \<and> \<not> ws ! i}"
    for ws :: "bool list"
    by (auto simp: nth_append less_Suc_eq)
  moreover have "length (sv_watchers s) \<notin> (\<lambda>p. am_watcher_stop (snd p)) ` set (sv_mounts s)"
    using s by (auto simp: books_ok_def)
  ultimately show ?thesis
    using s mounted by (auto simp: books_ok_def map_of_eq_None_iff)
qed simp

lemma books_ok_unmount:
  assumes s: "books_ok s" and u: "sup_unmount H key reason s = Some s'"
  shows "books_ok s' \<and> sv_config s' = sv_config s"
proof (cases "map_of (sv_mounts s) key")
  case None
  then show ?thesis using s u by (simp add: sup_unmount_absent)
next
  case (Some m)
  then have km: "(key, m) \<in> set (sv_mounts s)" by (rule map_of_SomeD)
  obtain w' where s': "s' = s\<lparr>
            sv_mounts := filter (\<lambda>p. fst p \<noteq> key) (sv_mounts s),
            sv_watchers := (sv_watchers s)[am_watcher_stop m := True], sv_world := w'\<rparr>"
    using u by (auto simp: sup_unmount_present [OF Some] split: option.splits)
  let ?stop = "\<lambda>p. am_watcher_stop (snd p)"
  have keys: "fst p = key \<longleftrightarrow> ?stop p = am_watcher_stop m" if "p \<in> set (sv_mounts s)" for p
    using s km that unfolding books_ok_def distinct_map
    by (metis (mono_tags, lifting) fst_conv inj_on_eq_iff snd_conv)
  have "?stop ` {p \<in> set (sv_mounts s). fst p \<noteq> key} = ?stop ` set (sv_mounts s) - {am_watcher_stop m}"
    using keys by auto
  also have "\<dots> = {i. i < length (sv_watchers s) \<and> \<not> sv_watchers s ! i} - {am_watcher_stop m}"
    using s by (simp add: books_ok_def)
  also have "\<dots> = {i. i < length (sv_watchers s) \<and> \<not> (sv_watchers s)[am_watcher_stop m := True] ! i}"
  proof -
    have "\<not> ws[j := True] ! i \<longleftrightarrow> \<not> ws ! i \<and> i \<noteq> j" if "i < length ws" for ws :: "bool list" and i j
      using that by (cases "i = j") auto
    then show ?thesis by auto
  qed
  finally show ?thesis
    using s by (auto simp: s' books_ok_def distinct_map_filter)
qed

lemma sup_loop_books:
  "sup_loop H cs s = Some (reason, s') \<Longrightarrow> books_ok s \<Longrightarrow> books_ok s' \<and> sv_config s' = sv_config s"
proof (induction H cs s rule: sup_loop.induct)
  case (2 H ident cs s)
  then show ?case using books_ok_mount [of s H ident] by simp
qed (auto split: option.splits dest: books_ok_unmount)

section \<open>Runs\<close>

lemma sup_loop_returns:
  assumes "clock_advances (ho_os H)"
  shows "\<exists>reason s'. sup_loop H cs s = Some (reason, s')"
proof (induction cs arbitrary: s)
  case (Cons c cs)
  have u: "\<exists>s'. sup_unmount H key reason s = Some s'" for key reason
    by (rule sup_unmount_returns [OF assms]) blast
  show ?case
  proof (cases c)
    case (Device d)
    then show ?thesis
      using Cons.IH u [of _ "''the device was unplugged''"] by (cases d) (auto split: option.splits)
  next
    case (GiveUp key reason)
    then show ?thesis using Cons.IH u [of key reason] by (auto split: option.splits)
  qed simp
qed simp

lemma unmount_keys_returns:
  assumes "clock_advances (ho_os H)"
  shows "\<exists>s'. unmount_keys H ks s = Some s' \<and> sv_config s' = sv_config s \<and>
    sv_mounts s' = filter (\<lambda>p. fst p \<notin> set ks) (sv_mounts s)"
proof (induction ks arbitrary: s)
  case (Cons k ks)
  obtain s1 where 1: "sup_unmount H k ''the daemon is shutting down'' s = Some s1" "sv_config s1 = sv_config s"
    "sv_mounts s1 = filter (\<lambda>p. fst p \<noteq> k) (sv_mounts s)"
    by (rule sup_unmount_returns [OF assms])
  with Cons.IH [of s1] show ?case by (auto simp: conj_commute)
qed simp

lemma unmount_keys_books: "unmount_keys H ks s = Some s' \<Longrightarrow> books_ok s \<Longrightarrow> books_ok s'"
  by (induction ks arbitrary: s) (auto split: option.splits dest: books_ok_unmount)

section \<open>What stays mounted\<close>

text \<open>
  The mount points in \<open>P\<close>, a set of names of different directories: of the calls the
  supervisor makes only a mount that succeeds makes one of them a mount point, the one it was
  asked for. Nothing is asked of whether an unmount works.
\<close>

definition no_new_mount :: "'w os_ops \<Rightarrow> path set \<Rightarrow> 'w \<Rightarrow> 'w \<Rightarrow> bool" where
  "no_new_mount O' P w v \<longleftrightarrow> (\<forall>p \<in> P. is_mountpoint O' p v \<longrightarrow> is_mountpoint O' p w)"

definition mounts_only_by_spawn :: "('dev, 's, 'd, 'sess, 'w) host \<Rightarrow> path set \<Rightarrow> bool" where
  "mounts_only_by_spawn H P \<longleftrightarrow>
     (\<forall>w. let quiet = no_new_mount (ho_os H) P w in
        (\<forall>q. quiet (snd (os_create_dir_all (ho_os H) q w)) \<and> quiet (snd (os_remove_dir (ho_os H) q w)) \<and>
           quiet (snd (os_detach (ho_os H) q w)) \<and> (\<forall>h. quiet (snd (os_helper (ho_os H) h q w)))) \<and>
        (\<forall>d. quiet (os_sleep (ho_os H) d w)) \<and> (\<forall>i. quiet (snd (ho_open H i w))) \<and>
        (\<forall>sess. (\<forall>th. quiet (ho_set_fills H sess th w)) \<and> quiet (snd (ho_wakes H sess w)) \<and> quiet (ho_join H sess w)) \<and>
        (\<forall>fs q opts r v. q \<in> P \<longrightarrow> ho_spawn_mount H fs q opts w = (r, v) \<longrightarrow>
           no_new_mount (ho_os H) (if isl r then P else P - {q}) w v))"

lemma no_new_same [simp, intro]: "no_new_mount O' P w w"
  by (simp add: no_new_mount_def)

lemma no_new_trans: "no_new_mount O' P u v \<Longrightarrow> no_new_mount O' P v w \<Longrightarrow> no_new_mount O' P u w"
  by (simp add: no_new_mount_def)

lemma no_new_mono: "no_new_mount O' P w v \<Longrightarrow> Q \<subseteq> P \<Longrightarrow> no_new_mount O' Q w v"
  by (auto simp: no_new_mount_def)

lemma only_by_spawnD:
  assumes "mounts_only_by_spawn H P"
  shows "no_new_mount (ho_os H) P w (snd (os_create_dir_all (ho_os H) q w))"
    and "no_new_mount (ho_os H) P w (snd (os_remove_dir (ho_os H) q w))"
    and "no_new_mount (ho_os H) P w (snd (os_detach (ho_os H) q w))"
    and "no_new_mount (ho_os H) P w (snd (os_helper (ho_os H) h q w))"
    and "no_new_mount (ho_os H) P w (os_sleep (ho_os H) d w)"
    and "no_new_mount (ho_os H) P w (snd (ho_open H i w))"
    and "no_new_mount (ho_os H) P w (ho_set_fills H sess th w)"
    and "no_new_mount (ho_os H) P w (snd (ho_wakes H sess w))"
    and "no_new_mount (ho_os H) P w (ho_join H sess w)"
    and "q \<in> P \<Longrightarrow> ho_spawn_mount H fs q opts w = (Inl e, v) \<Longrightarrow> no_new_mount (ho_os H) P w v"
    and "q \<in> P \<Longrightarrow> ho_spawn_mount H fs q opts w = (Inr session, v) \<Longrightarrow> no_new_mount (ho_os H) (P - {q}) w v"
proof -
  let ?quiet = "no_new_mount (ho_os H) P w"
  note 1 = spec [OF assms [unfolded mounts_only_by_spawn_def Let_def], of w]
  note 2 = conjunct2 [OF 1] note 3 = conjunct2 [OF 2] note 4 = conjunct2 [OF 3] note 5 = conjunct2 [OF 4]
  note calls = spec [OF conjunct1 [OF 1], of q] and sessions = spec [OF conjunct1 [OF 4], of sess]
  show "?quiet (snd (os_create_dir_all (ho_os H) q w))" and "?quiet (snd (os_remove_dir (ho_os H) q w))"
    and "?quiet (snd (os_detach (ho_os H) q w))" and "?quiet (snd (os_helper (ho_os H) h q w))"
    using calls by blast+
  show "?quiet (os_sleep (ho_os H) d w)" and "?quiet (snd (ho_open H i w))" using 2 3 by blast+
  show "?quiet (ho_set_fills H sess th w)" and "?quiet (snd (ho_wakes H sess w))" and "?quiet (ho_join H sess w)"
    using sessions by blast+
  show "?quiet v" if "q \<in> P" "ho_spawn_mount H fs q opts w = (Inl e, v)"
    using 5 [rule_format, OF that] by simp
  show "no_new_mount (ho_os H) (P - {q}) w v" if "q \<in> P" "ho_spawn_mount H fs q opts w = (Inr session, v)"
    using 5 [rule_format, OF that] by simp
qed

lemma force_no_new:
  assumes laws: "mounts_only_by_spawn H P"
  shows "no_new_mount (ho_os H) P w (snd (force_unmount (ho_os H) p w))"
proof -
  have h: "no_new_mount (ho_os H) P w (snd (try_helpers (ho_os H) hs p w))" for hs w
  proof (induction hs arbitrary: w)
    case (Cons h hs)
    obtain b v where b: "os_helper (ho_os H) h p w = (b, v)" by fastforce
    then have "no_new_mount (ho_os H) P w v" using only_by_spawnD(4) [OF laws, of w h p] by simp
    with no_new_trans [OF this Cons.IH] show ?case by (auto simp: b split: option.split bool.split)
  qed simp
  obtain r u where d: "os_detach (ho_os H) p w = (r, u)" by fastforce
  then have u: "no_new_mount (ho_os H) P w u" using only_by_spawnD(3) [OF laws, of w p] by simp
  show ?thesis
    using u no_new_trans [OF u h [of u "[''fusermount3'', ''fusermount'']"]]
    by (cases "try_helpers (ho_os H) [''fusermount3'', ''fusermount''] p u")
      (auto simp: force_unmount_def d split: option.split bool.split)
qed

lemma stop_fills_no_new:
  assumes laws: "mounts_only_by_spawn H P"
  shows "no_new_mount (ho_os H) P w (snd (stop_fills H sess w))"
  using no_new_trans [OF only_by_spawnD(7) [OF laws] only_by_spawnD(8) [OF laws]]
  by (simp add: stop_fills_def Let_def split: prod.split) (metis snd_conv)

text \<open>Once forced off, a mount point stays off until something is mounted there.\<close>

lemma unmounted_no_new:
  assumes laws: "mounts_only_by_spawn H P"
    and "wait_until_unmounted (ho_os H) q t (torn_down H m w) = Some (b, v)"
  shows "no_new_mount (ho_os H) P (snd (force_unmount (ho_os H) (am_path m) w))
    (if b then snd (os_remove_dir (ho_os H) q v) else v)"
proof -
  let ?f = "snd (force_unmount (ho_os H) (am_path m) w)"
  have t: "no_new_mount (ho_os H) P ?f (torn_down H m w)"
    unfolding torn_down_def by (rule no_new_trans [OF stop_fills_no_new [OF laws] only_by_spawnD(9) [OF laws]])
  have "no_new_mount (ho_os H) P ?f v"
    by (rule wait_keeps [where K = "no_new_mount (ho_os H) P ?f", OF _ assms(2) t])
      (rule no_new_trans [OF _ only_by_spawnD(5) [OF laws]])
  then show ?thesis using no_new_trans [OF _ only_by_spawnD(2) [OF laws]] by simp
qed

text \<open>A mount point the forced unmount met and did not take down.\<close>

definition unmount_refused :: "'w os_ops \<Rightarrow> path \<Rightarrow> bool" where
  "unmount_refused O' p \<longleftrightarrow> (\<exists>u. is_mountpoint O' p u \<and> is_mountpoint O' p (snd (force_unmount O' p u)))"

text \<open>Every mount point has a reason: it was there before, it is in the table, or it was refused.\<close>

definition mount_paths :: "('sess, 'w) supervisor \<Rightarrow> path set" where
  "mount_paths s = (\<lambda>p. am_path (snd p)) ` set (sv_mounts s)"

definition accounted :: "'w os_ops \<Rightarrow> path set \<Rightarrow> 'w \<Rightarrow> ('sess, 'w) supervisor \<Rightarrow> bool" where
  "accounted O' P w s \<longleftrightarrow>
     (\<forall>p \<in> P. is_mountpoint O' p (sv_world s) \<longrightarrow>
        is_mountpoint O' p w \<or> p \<in> mount_paths s \<or> unmount_refused O' p)"

lemma sup_mount_accounted:
  assumes laws: "mounts_only_by_spawn H P" and p: "path_join (sc_mount_root (sv_config s)) (di_key ident) \<in> P"
    and "accounted (ho_os H) P w s"
  shows "accounted (ho_os H) P w (sup_mount H ident s)"
proof -
  let ?p = "path_join (sc_mount_root (sv_config s)) (di_key ident)"
  obtain r1 w1 where 1: "os_create_dir_all (ho_os H) ?p (sv_world s) = (r1, w1)" by fastforce
  obtain r2 w2 where 2: "ho_open H ident w1 = (r2, w2)" by fastforce
  have n1: "no_new_mount (ho_os H) P (sv_world s) w1" using only_by_spawnD(1) [OF laws, of "sv_world s" ?p] 1 by simp
  then have n2: "no_new_mount (ho_os H) P (sv_world s) w2"
    using no_new_trans [OF n1] only_by_spawnD(6) [OF laws, of w1 ident] 2 by simp
  note rem = only_by_spawnD(2) [OF laws, of _ ?p]
  have keep: "accounted (ho_os H) P w (s\<lparr>sv_world := v\<rparr>)" if "no_new_mount (ho_os H) P (sv_world s) v" for v
    using assms(3) that by (auto simp: accounted_def no_new_mount_def mount_paths_def)
  show ?thesis
  proof (cases "map_of (sv_mounts s) (di_key ident) \<noteq> None \<or> r1 \<noteq> None \<or> isl r2")
    case True
    then show ?thesis
      using 1 2 assms(3) keep [OF n1] keep [OF no_new_trans [OF n2 rem]]
      by (cases "map_of (sv_mounts s) (di_key ident)"; cases r1; cases r2) (simp_all add: sup_mount_def Let_def)
  next
    case False
    then obtain dev where dev: "r2 = Inr dev" by (cases r2) auto
    let ?fs = "daemon_fs H (sv_config s) dev w2"
    obtain r3 w3 where 3: "ho_spawn_mount H ?fs ?p (mount_options ?fs) w2 = (r3, w3)" by fastforce
    show ?thesis
    proof (cases r3)
      case (Inl e)
      then show ?thesis
        using False 1 2 3 dev keep [OF no_new_trans [OF no_new_trans [OF n2 only_by_spawnD(10) [OF laws p]] rem]]
        by (simp add: sup_mount_def Let_def)
    next
      case (Inr session)
      have "no_new_mount (ho_os H) (P - {?p}) (sv_world s) w3"
        using no_new_trans [OF no_new_mono [OF n2] only_by_spawnD(11) [OF laws p]] 3 Inr by fastforce
      then show ?thesis
        using assms(3) False 1 2 3 dev Inr
        by (auto simp: sup_mount_def Let_def accounted_def no_new_mount_def mount_paths_def)
    qed
  qed
qed

lemma sup_unmount_accounted:
  assumes laws: "mounts_only_by_spawn H P" and books: "books_ok s"
    and run: "sup_unmount H key reason s = Some s'" and "accounted (ho_os H) P w s"
  shows "accounted (ho_os H) P w s'"
proof (cases "map_of (sv_mounts s) key")
  case None
  then show ?thesis using run assms(4) by (simp add: sup_unmount_absent)
next
  case (Some m)
  let ?f = "snd (force_unmount (ho_os H) (am_path m) (sv_world s))"
  obtain b v where wait: "wait_until_unmounted (ho_os H) (am_path m) (sc_unmount_timeout (sv_config s))
      (torn_down H m (sv_world s)) = Some (b, v)"
    and s': "s' = s\<lparr>sv_mounts := filter (\<lambda>p. fst p \<noteq> key) (sv_mounts s),
          sv_watchers := (sv_watchers s)[am_watcher_stop m := True],
          sv_world := (if b then snd (os_remove_dir (ho_os H) (am_path m) v) else v)\<rparr>"
    using run by (auto simp: sup_unmount_present [OF Some] split: option.splits)
  have after: "is_mountpoint (ho_os H) p ?f" if "p \<in> P" "is_mountpoint (ho_os H) p (sv_world s')" for p
    using unmounted_no_new [OF laws wait] that unfolding no_new_mount_def s' by simp
  have before: "is_mountpoint (ho_os H) p (sv_world s)" if "p \<in> P" "is_mountpoint (ho_os H) p (sv_world s')" for p
    using force_no_new [OF laws] after [OF that] that(1) unfolding no_new_mount_def by blast
  have kept: "p \<in> mount_paths s'" if listed: "p \<in> mount_paths s" and that: "p \<noteq> am_path m" for p
  proof -
    from listed obtain e where e: "e \<in> set (sv_mounts s)" "p = am_path (snd e)" by (auto simp: mount_paths_def)
    have "map_of (sv_mounts s) (fst e) = Some (snd e)" using books e(1) by (simp add: books_ok_def)
    then have "fst e \<noteq> key" using Some that e(2) by (metis option.inject)
    with e show ?thesis by (force simp: mount_paths_def s')
  qed
  have "is_mountpoint (ho_os H) p w \<or> p \<in> mount_paths s' \<or> unmount_refused (ho_os H) p"
    if "p \<in> P" "is_mountpoint (ho_os H) p (sv_world s')" for p
  proof (cases "p = am_path m")
    case True
    then show ?thesis using before [OF that] after [OF that] unfolding unmount_refused_def by blast
  next
    case False
    then show ?thesis using before [OF that] that(1) assms(4) kept unfolding accounted_def by blast
  qed
  then show ?thesis unfolding accounted_def by blast
qed

text \<open>Every device that arrives has its directory in \<open>P\<close>.\<close>

definition arrivals_within :: "path \<Rightarrow> path set \<Rightarrow> command list \<Rightarrow> bool" where
  "arrivals_within root P cs \<longleftrightarrow> (\<forall>ident. Device (Arrived ident) \<in> set cs \<longrightarrow> path_join root (di_key ident) \<in> P)"

lemma sup_loop_accounted:
  assumes laws: "mounts_only_by_spawn H P"
  shows "sup_loop H cs s = Some (reason, s') \<Longrightarrow> books_ok s \<Longrightarrow> arrivals_within (sc_mount_root (sv_config s)) P cs \<Longrightarrow>
    accounted (ho_os H) P w s \<Longrightarrow> accounted (ho_os H) P w s'"
proof (induction cs arbitrary: s)
  case (Cons c cs)
  have rest: "arrivals_within (sc_mount_root (sv_config s)) P cs" using Cons.prems(3) by (simp add: arrivals_within_def)
  have gone: "accounted (ho_os H) P w s'"
    if "sup_unmount H key why s = Some u" "sup_loop H cs u = Some (reason, s')" for key why u
    using Cons.IH [OF that(2)] books_ok_unmount [OF Cons.prems(2) that(1)] rest
      sup_unmount_accounted [OF laws Cons.prems(2) that(1) Cons.prems(4)] by simp
  show ?case
  proof (cases c)
    case (Device d)
    show ?thesis
    proof (cases d)
      case (Arrived ident)
      then have "path_join (sc_mount_root (sv_config s)) (di_key ident) \<in> P"
        using Cons.prems(3) Device by (simp add: arrivals_within_def)
      from sup_mount_accounted [OF laws this Cons.prems(4)] show ?thesis
        using Cons.IH [of "sup_mount H ident s"] Cons.prems(1) books_ok_mount [OF Cons.prems(2), of H ident] rest
          Device Arrived by simp
    qed (use Cons.prems(1) Device gone in \<open>auto split: option.splits\<close>)
  next
    case (GiveUp key why)
    then show ?thesis using Cons.prems(1) gone by (auto split: option.splits)
  qed (use Cons.prems in simp)
qed simp

text \<open>The reason of the first \<open>Stop\<close> among the commands.\<close>

fun first_stop :: "command list \<Rightarrow> string option" where
  "first_stop [] = None"
| "first_stop (Stop reason # cs) = Some reason"
| "first_stop (_ # cs) = first_stop cs"

lemma sup_loop_stops: "sup_loop H cs s = Some (r, s') \<Longrightarrow> first_stop cs = Some reason \<Longrightarrow> r = reason"
  by (induction H cs s rule: sup_loop.induct) (auto split: option.splits)

lemma unmount_keys_accounted:
  assumes laws: "mounts_only_by_spawn H P"
  shows "unmount_keys H ks s = Some s' \<Longrightarrow> books_ok s \<Longrightarrow> accounted (ho_os H) P w s \<Longrightarrow> accounted (ho_os H) P w s'"
proof (induction ks arbitrary: s)
  case (Cons k ks)
  then show ?case
    using sup_unmount_accounted [OF laws] books_ok_unmount [of s H k] by (auto split: option.splits)
qed simp

lemma sup_run_ends:
  fixes H :: "('dev, 's, 'd, 'sess, 'w) host"
  assumes "clock_advances (ho_os H)" and "\<forall>ks. set (order ks) = set ks"
    and laws: "mounts_only_by_spawn H P" and "arrivals_within (sc_mount_root config) P cs"
    and "first_stop cs = Some reason"
  shows "\<exists>s s'. sup_loop H cs ((supervisor_new config w)\<lparr>sv_world :=
        snd (os_create_dir_all (ho_os H) (sc_mount_root config) w)\<rparr>) = Some (reason, s) \<and>
     sup_run H order cs (supervisor_new config w) = Some s' \<and> sv_mounts s' = [] \<and> list_all id (sv_watchers s') \<and>
     (\<forall>p \<in> P. is_mountpoint (ho_os H) p (sv_world s') \<longrightarrow> is_mountpoint (ho_os H) p w \<or> unmount_refused (ho_os H) p)"
proof -
  define s0 where "s0 = (supervisor_new config w :: ('sess, 'w) supervisor)\<lparr>sv_world :=
    snd (os_create_dir_all (ho_os H) (sc_mount_root config) w)\<rparr>"
  obtain r s1 where "sup_loop H cs s0 = Some (r, s1)"
    using sup_loop_returns [OF assms(1)] by metis
  with sup_loop_stops [OF _ assms(5)] have 1: "sup_loop H cs s0 = Some (reason, s1)" by fastforce
  have b0: "books_ok s0" by (simp add: s0_def books_ok_new)
  with sup_loop_books [OF 1] have b1: "books_ok s1" "sv_config s1 = config"
    by (simp_all add: s0_def supervisor_new_def)
  obtain s2 where 2: "unmount_keys H (order (map fst (sv_mounts s1))) s1 = Some s2" "sv_mounts s2 = []"
      "sv_config s2 = config"
    using unmount_keys_returns [OF assms(1), of "order (map fst (sv_mounts s1))" s1] assms(2) b1(2)
    by (auto simp: filter_empty_conv)
  have "books_ok s2" by (rule unmount_keys_books [OF 2(1) b1(1)])
  then have w: "list_all id (sv_watchers s2)"
    using 2(2) by (auto simp: books_ok_def list_all_length)
  have "accounted (ho_os H) P w s0"
    using only_by_spawnD(1) [OF laws, of w "sc_mount_root config"]
    by (auto simp: s0_def accounted_def no_new_mount_def)
  with sup_loop_accounted [OF laws 1 b0] assms(4) have "accounted (ho_os H) P w s1"
    by (simp add: s0_def supervisor_new_def)
  from unmount_keys_accounted [OF laws 2(1) b1(1) this]
  have a: "accounted (ho_os H) P w s2" .
  let ?s = "s2\<lparr>sv_world := snd (os_remove_dir (ho_os H) (sc_mount_root config) (sv_world s2))\<rparr>"
  have "is_mountpoint (ho_os H) p w \<or> unmount_refused (ho_os H) p"
    if "p \<in> P" "is_mountpoint (ho_os H) p (sv_world ?s)" for p
    using that a only_by_spawnD(2) [OF laws, of "sv_world s2" "sc_mount_root config"] 2(2)
    by (auto simp: accounted_def no_new_mount_def mount_paths_def)
  moreover have "sup_run H order cs (supervisor_new config w) = Some ?s"
    using 1 2(1,3) by (simp add: sup_run_def unmount_all_def s0_def supervisor_new_def)
  ultimately show ?thesis
    using 1 2(2) w by (intro exI [of _ s1] exI [of _ ?s]) (simp add: s0_def)
qed

section \<open>The dry run and the daemon\<close>

text \<open>A machine where mounting works.\<close>

definition mounts_work :: "('dev, 's, 'd, 'sess, 'w) host \<Rightarrow> bool" where
  "mounts_work H \<longleftrightarrow>
     (\<forall>p w. fst (os_create_dir_all (ho_os H) p w) = None) \<and>
     (\<forall>i w. \<not> isl (fst (ho_open H i w))) \<and>
     (\<forall>fs p os w. \<not> isl (fst (ho_spawn_mount H fs p os w)))"

lemma sup_mount_works:
  assumes "mounts_work H" and "map_of (sv_mounts s) (di_key ident) = None"
  obtains session n where "sv_mounts (sup_mount H ident s) =
      (di_key ident, \<lparr>am_path = path_join (sc_mount_root (sv_config s)) (di_key ident), am_label = di_label ident,
         am_session = session, am_watcher_stop = n\<rparr>) # sv_mounts s"
proof -
  let ?p = "path_join (sc_mount_root (sv_config s)) (di_key ident)"
  obtain w1 where 1: "os_create_dir_all (ho_os H) ?p (sv_world s) = (None, w1)"
    using assms(1) by (metis mounts_work_def prod.collapse)
  have "\<not> isl (fst (ho_open H ident w1))" using assms(1) by (simp add: mounts_work_def)
  then obtain dev w2 where 2: "ho_open H ident w1 = (Inr dev, w2)"
    by (cases "ho_open H ident w1"; cases "fst (ho_open H ident w1)") auto
  let ?fs = "daemon_fs H (sv_config s) dev w2"
  have "\<not> isl (fst (ho_spawn_mount H ?fs ?p (mount_options ?fs) w2))" using assms(1) by (simp add: mounts_work_def)
  then obtain sess w3 where 3: "ho_spawn_mount H ?fs ?p (mount_options ?fs) w2 = (Inr sess, w3)"
    by (cases "ho_spawn_mount H ?fs ?p (mount_options ?fs) w2"; cases "fst (ho_spawn_mount H ?fs ?p (mount_options ?fs) w2)") auto
  show ?thesis by (rule that [of sess "length (sv_watchers s)"]) (simp add: sup_mount_def assms(2) 1 2 3)
qed

definition mount_table :: "('sess, 'w) supervisor \<Rightarrow> (string \<times> path) list" where
  "mount_table s = map (\<lambda>(k, m). (k, am_path m)) (sv_mounts s)"

lemma mount_table_keys [simp]: "map fst (mount_table s) = map fst (sv_mounts s)"
  by (auto simp: mount_table_def)

lemma map_of_mount_table: "map_of (mount_table s) k = map_option am_path (map_of (sv_mounts s) k)"
  by (simp add: mount_table_def map_of_map)

definition predicts :: "dry_run \<Rightarrow> ('sess, 'w) supervisor \<Rightarrow> bool" where
  "predicts d s \<longleftrightarrow> dr_mount_root d = sc_mount_root (sv_config s) \<and> dr_open d = mount_table s"

lemma predicts_arrival:
  assumes "mounts_work H" and "predicts d s"
  shows "predicts (arrived f d) (sup_mount H (facts_ident f) s)"
proof -
  have config: "sv_config (sup_mount H (facts_ident f) s) = sv_config s"
    by (cases rule: sup_mount_cases [of H "facts_ident f" s]) simp_all
  have same: "map_of (dr_open d) (facts_key f) = map_option am_path (map_of (sv_mounts s) (facts_key f))"
    using assms(2) by (simp add: predicts_def map_of_mount_table)
  show ?thesis
  proof (cases "map_of (sv_mounts s) (facts_key f)")
    case None
    obtain session n where "sv_mounts (sup_mount H (facts_ident f) s) =
        (facts_key f, \<lparr>am_path = path_join (sc_mount_root (sv_config s)) (facts_key f),
           am_label = di_label (facts_ident f), am_session = session, am_watcher_stop = n\<rparr>) # sv_mounts s"
      by (rule sup_mount_works [OF assms(1), of s "facts_ident f"]) (simp_all add: None)
    then show ?thesis
      using None assms(2) same config by (simp add: predicts_def arrived_fields mount_table_def)
  next
    case (Some m)
    then show ?thesis
      using assms(2) same by (simp add: predicts_def arrived_fields mount_table_def sup_mount_def)
  qed
qed

lemma predicts_departure:
  assumes "clock_advances (ho_os H)" and "predicts d s"
  shows "\<exists>s'. sup_unmount H (facts_key f) reason s = Some s' \<and> predicts (snd (left f d)) s'"
proof -
  obtain s' where "sup_unmount H (facts_key f) reason s = Some s'" "sv_config s' = sv_config s"
    "sv_mounts s' = filter (\<lambda>p. fst p \<noteq> facts_key f) (sv_mounts s)"
    by (rule sup_unmount_returns [OF assms(1)])
  then show ?thesis
    using assms(2)
    by (auto simp: predicts_def left_fields mount_table_def filter_map comp_def case_prod_unfold)
qed

lemma dry_run_simulates:
  assumes "mounts_work H" and "clock_advances (ho_os H)"
  shows "predicts d s \<Longrightarrow>
    \<exists>reason s'. sup_loop H (hotplug_watch V es alive) s = Some (reason, s') \<and>
      predicts (snd (dry_run_loop (dry_run_watch V es alive) d)) s'"
proof (induction es arbitrary: alive d s)
  case (Cons e es)
  show ?case
  proof (cases "receiver_gone alive")
    case False
    show ?thesis
    proof (cases e)
      case (HotplugArrived i)
      then show ?thesis
        using False Cons.IH [OF predicts_arrival [OF assms(1) Cons.prems, of "facts_of V i"], of "tl alive"]
        by (simp add: ident_of_def)
    next
      case (HotplugLeft i)
      obtain s1 where "sup_unmount H (facts_key (facts_of V i)) ''the device was unplugged'' s = Some s1"
        "predicts (snd (left (facts_of V i) d)) s1"
        using predicts_departure [OF assms(2) Cons.prems] by blast
      then show ?thesis using HotplugLeft False Cons.IH [of "snd (left (facts_of V i) d)" s1 "tl alive"] by simp
    qed
  qed (use Cons.prems in simp)
qed simp

section \<open>A machine for the witnesses\<close>

text \<open>Its state is the clock and the set of dead mounts; everything works.\<close>

definition demo_machine :: "(nat \<times> path set) os_ops" where
  "demo_machine =
     \<lparr>os_lstat = (\<lambda>p w. if p \<in> snd w then Inl NotConnected else Inl NoEntry), os_stat = (\<lambda>p w. Inr 1),
      os_detach = (\<lambda>p w. (None, (fst w, snd w - {p}))), os_helper = (\<lambda>h p w. (None, w)), os_now = fst,
      os_sleep = (\<lambda>d w. (fst w + d, snd w)), os_read_dir = (\<lambda>p w. Inr []),
      os_create_dir_all = (\<lambda>p w. (None, w)), os_remove_dir = (\<lambda>p w. (None, w))\<rparr>"

definition demo_host :: "(unit, unit, unit, path, nat \<times> path set) host" where
  "demo_host =
     \<lparr>ho_os = demo_machine, ho_open = (\<lambda>i w. (Inr (), w)),
      ho_fresh = (\<lambda>w. (\<lambda>c. \<lparr>sh_cache = \<lparr>sc_file = sf_new, sc_ranges = rs_new, sc_total = 0\<rparr>,
        sh_fill = FIdle, sh_stop = False\<rparr>, ())),
      ho_spawn_mount = (\<lambda>fs p opts w. (Inr p, (fst w, insert p (snd w)))),
      ho_fills = (\<lambda>sess w. (tracker_default, \<lambda>c. \<lparr>sh_cache = \<lparr>sc_file = sf_new, sc_ranges = rs_new, sc_total = 0\<rparr>,
        sh_fill = FIdle, sh_stop = False\<rparr>)),
      ho_set_fills = (\<lambda>sess th w. w), ho_wakes = (\<lambda>sess w. ([], w)), ho_join = (\<lambda>sess w. w)\<rparr>"

definition demo_config :: supervisor_config where
  "demo_config = config_new ''/run/mtp'' ''/cache'' False"

definition demo_ident :: device_ident where
  "demo_ident = \<lparr>di_key = ''SN-1'', di_label = ''Phone'', di_serial = Some ''SN-1''\<rparr>"

lemma demo_point: "is_mountpoint demo_machine p w \<longleftrightarrow> p \<in> snd w"
  by (simp add: is_mountpoint_def demo_machine_def)

lemma demo_host_laws: "clock_advances (ho_os demo_host)" "mounts_work demo_host"
  by (simp_all add: clock_advances_def mounts_work_def demo_host_def demo_machine_def)

definition demo_view :: "device_facts info_view" where
  "demo_view =
     \<lparr>iv_serial_number = df_serial, iv_vendor_id = df_vendor_id, iv_product_id = df_product_id,
      iv_location_id = df_location_id, iv_manufacturer = df_manufacturer, iv_product = df_product,
      iv_speed = df_speed, iv_match_reason = (\<lambda>f. ''class''), iv_display = df_label\<rparr>"

section \<open>Properties\<close>

text \<open>
  C22. In every state the daemon's loop reaches, its books are right: no key is mounted twice,
  each mount is at its key's own directory under the mount root, and the watchers that have
  not been told to stop are exactly those of the current mounts, one each.
\<close>

theorem one_mount_and_watcher_per_device:
  "case sup_loop H cs (supervisor_new config w) of
     None \<Rightarrow> True
   | Some (reason, s) \<Rightarrow>
       distinct (map fst (sv_mounts s)) \<and>
       list_all (\<lambda>(k, m). am_path m = path_join (sc_mount_root config) k) (sv_mounts s) \<and>
       distinct (map (am_watcher_stop \<circ> snd) (sv_mounts s)) \<and>
       (am_watcher_stop \<circ> snd) ` set (sv_mounts s) = {i. i < length (sv_watchers s) \<and> \<not> sv_watchers s ! i}"
proof (cases "sup_loop H cs (supervisor_new config w)")
  case (Some rs)
  obtain reason s where rs: "rs = (reason, s)" by fastforce
  with sup_loop_books [OF _ books_ok_new] Some have "books_ok s" "sv_config s = config"
    by (fastforce simp: supervisor_new_def)+
  then show ?thesis
    unfolding Some rs by (simp add: books_ok_def comp_def list_all_iff)
qed simp

text \<open>
  C23. Taking a mount down always returns and forgets the mount, and the directory is removed
  only in a state where it has just been found to be no mount point; when the timeout passes
  first, the directory is left alone.
\<close>

theorem unmount_never_removes_a_live_mount:
  assumes "clock_advances (ho_os H)" and "map_of (sv_mounts s) key = Some m"
  shows "\<exists>b v s'. wait_until_unmounted (ho_os H) (am_path m) (sc_unmount_timeout (sv_config s))
       (torn_down H m (sv_world s)) = Some (b, v) \<and>
     sup_unmount H key reason s = Some s' \<and> sv_mounts s' = filter (\<lambda>p. fst p \<noteq> key) (sv_mounts s) \<and>
     sv_world s' = (if is_mountpoint (ho_os H) (am_path m) v then v else snd (os_remove_dir (ho_os H) (am_path m) v))"
proof -
  obtain b v where "wait_until_unmounted (ho_os H) (am_path m) (sc_unmount_timeout (sv_config s))
       (torn_down H m (sv_world s)) = Some (b, v)" "b \<longleftrightarrow> \<not> is_mountpoint (ho_os H) (am_path m) v"
    using wait_returns [OF assms(1), of "am_path m" "sc_unmount_timeout (sv_config s)" "torn_down H m (sv_world s)"]
    by auto
  then show ?thesis
    by (intro exI [of _ b] exI [of _ v]) (simp add: sup_unmount_present [OF assms(2)])
qed

theorem unmount_never_removes_a_live_mount_witness:
  "\<exists>s'. sup_unmount demo_host ''SN-1'' ''gone''
     (sup_mount demo_host demo_ident (supervisor_new demo_config (0, {}))) = Some s' \<and> sv_mounts s' = []"
proof -
  obtain m where m: "sv_mounts (sup_mount demo_host demo_ident (supervisor_new demo_config (0, {}))) = [(''SN-1'', m)]"
    by (rule sup_mount_works [OF demo_host_laws(2), of "supervisor_new demo_config (0, {})" demo_ident])
      (simp_all add: supervisor_new_def demo_ident_def)
  then show ?thesis
    using unmount_never_removes_a_live_mount [OF demo_host_laws(1),
        of "sup_mount demo_host demo_ident (supervisor_new demo_config (0, {}))" "''SN-1''" m "''gone''"]
    by auto
qed

text \<open>
  C21. A daemon that is stopped leaves nothing behind: if a \<open>Stop\<close> is among its commands, its
  loop ends at the first one and the run returns with no mount in its table and every watcher
  told to stop, whatever order the last mounts are taken down in; and a directory that is a
  mount point at the end was one before the run, or is one where the forced unmount, the
  system call and both helpers, met the mount and did not take it down.
\<close>

theorem run_ends_with_nothing_mounted:
  assumes "clock_advances (ho_os H)" and "\<forall>ks. set (order ks) = set ks"
    and "mounts_only_by_spawn H P" and "arrivals_within (sc_mount_root config) P cs"
    and "first_stop cs = Some reason"
  shows "\<exists>s s'. sup_loop H cs ((supervisor_new config w)\<lparr>sv_world :=
        snd (os_create_dir_all (ho_os H) (sc_mount_root config) w)\<rparr>) = Some (reason, s) \<and>
     sup_run H order cs (supervisor_new config w) = Some s' \<and> sv_mounts s' = [] \<and> list_all id (sv_watchers s') \<and>
     (\<forall>p \<in> P. is_mountpoint (ho_os H) p (sv_world s') \<longrightarrow> is_mountpoint (ho_os H) p w \<or>
        (\<exists>u. is_mountpoint (ho_os H) p u \<and> is_mountpoint (ho_os H) p (snd (force_unmount (ho_os H) p u))))"
  using sup_run_ends [OF assms] unfolding unmount_refused_def .

lemma demo_spawns: "mounts_only_by_spawn demo_host UNIV"
proof -
  have os: "ho_os demo_host = demo_machine" by (simp add: demo_host_def)
  show ?thesis
    unfolding mounts_only_by_spawn_def no_new_mount_def os demo_point
    by (auto simp: demo_host_def demo_machine_def)
qed

lemma demo_forced: "\<not> is_mountpoint demo_machine p (snd (force_unmount demo_machine p u)) \<or> CHR 0x00 \<in> set p"
  unfolding demo_point by (simp add: force_unmount_def demo_machine_def)

theorem run_ends_with_nothing_mounted_witness:
  "\<exists>s'. sup_run demo_host rev [Device (Arrived demo_ident), Stop ''got SIGTERM''] (supervisor_new demo_config (0, {})) =
     Some s' \<and> sv_mounts s' = [] \<and> list_all id (sv_watchers s') \<and>
     \<not> is_mountpoint demo_machine ''/run/mtp/SN-1'' (sv_world s')"
proof -
  have "arrivals_within (sc_mount_root demo_config) UNIV [Device (Arrived demo_ident), Stop ''got SIGTERM'']"
    by (simp add: arrivals_within_def)
  note run = run_ends_with_nothing_mounted [OF demo_host_laws(1) _ demo_spawns this, of rev]
  have "ho_os demo_host = demo_machine" by (simp add: demo_host_def)
  moreover have "\<not> is_mountpoint demo_machine p (0, {})" for p by (simp add: demo_point)
  moreover have "\<not> is_mountpoint demo_machine ''/run/mtp/SN-1'' (snd (force_unmount demo_machine ''/run/mtp/SN-1'' u))" for u
    using demo_forced [of "''/run/mtp/SN-1''" u] by simp
  ultimately show ?thesis using run [of "''got SIGTERM''" "(0, {})"] by auto
qed

text \<open>
  C20. A dry run predicts the daemon: on a machine where mounting works, fed the same hotplug
  events, the daemon has exactly the keys mounted that the dry run reports, each at the path
  the dry run printed.
\<close>

theorem dry_run_predicts_daemon:
  fixes H :: "('dev, 's, 'd, 'sess, 'w) host"
  assumes "mounts_work H" and "clock_advances (ho_os H)"
  shows "\<exists>reason s. sup_loop H (hotplug_watch V es alive) (supervisor_new config w) = Some (reason, s) \<and>
     (let d = after (sc_mount_root config) (dry_run_watch V es alive)
      in mounted_keys s = open_keys d \<and>
         (\<forall>k. map_option am_path (map_of (sv_mounts s) k) = map_of (dr_open d) k))"
proof -
  have "predicts (banner (dry_run_new (sc_mount_root config))) (supervisor_new config w :: ('sess, 'w) supervisor)"
    by (simp add: predicts_def dry_run_new_def supervisor_new_def mount_table_def)
  from dry_run_simulates [OF assms this, of V es alive] show ?thesis
    by (auto simp: after_def predicts_def mounted_keys_def open_keys_def map_of_mount_table)
qed

theorem dry_run_predicts_daemon_witness:
  "\<exists>reason s. sup_loop demo_host (hotplug_watch demo_view [HotplugArrived demo_phone_facts] [])
       (supervisor_new demo_config (0, {})) = Some (reason, s) \<and> mounted_keys s = [''SN-1'']"
proof -
  have "facts_key (facts_of demo_view demo_phone_facts) = ''SN-1''" by code_simp
  then have "open_keys (after ''/run/mtp'' (dry_run_watch demo_view [HotplugArrived demo_phone_facts] [])) = [''SN-1'']"
    by (simp add: open_keys_def after_def arrived_fields receiver_gone_def dry_run_new_def)
  then show ?thesis
    using dry_run_predicts_daemon [OF demo_host_laws(2,1), of demo_view "[HotplugArrived demo_phone_facts]" "[]"
        demo_config "(0, {})"]
    by (auto simp: Let_def demo_config_def config_new_def)
qed

end
