(* ===== verification/Programs.thy ===== *)
theory Programs
  imports Supervisor_Facts
begin

text \<open>
  The two programs around the mount: \<open>main\<close> of \<open>src/src/main.rs\<close> (one device, one mount
  point) and of \<open>src/src/bin/mtp-mountd.rs\<close> (the daemon), from the parsed command line to the
  exit code, with the hints they print (\<open>hints.rs\<close>), the preparation of the spool directory
  (\<open>spool.rs\<close>) and the signal handler (\<open>shutdown.rs\<close>). Printing is an effect on the
  world. A program that never ends is \<open>None\<close>. Parsing the command line and the help text are
  \<open>clap\<close>'s.
\<close>

section \<open>Hints\<close>

abbreviation newline :: string where
  "newline \<equiv> [CHR 0x0A]"

definition BUSY_HINT :: string where
  "BUSY_HINT = join newline
     [''Another program already claimed the USB interface.'',
      '''',
      ''On Linux that's almost always gvfs: run `gio mount -l` to find the device,'',
      ''then `gio mount -u <mount-uri>` to release it. To stop gvfs from grabbing'',
      ''devices at all: `systemctl --user mask gvfs-mtp-volume-monitor`.'',
      '''',
      ''On macOS it's `ptpcamerad`: stop it with `sudo killall ptpcamerad`, then'',
      ''reconnect the device (launchd starts it again on the next connect).'']"

definition PERMISSION_HINT :: string where
  "PERMISSION_HINT = join newline
     [''The OS denied access to the USB device.'',
      '''',
      ''On Linux this is a missing udev rule: your user has no write access to'',
      ''/dev/bus/usb/*. Add yourself to the `plugdev` group, or install a udev rule'',
      ''for the device's vendor ID.'',
      ''See: https://github.com/vdavid/mtp-mount#requirements'']"

text \<open>The two tests on an error are those of \<open>mtp_rs\<close>.\<close>

definition open_failure_hint :: "('e \<Rightarrow> bool) \<Rightarrow> ('e \<Rightarrow> bool) \<Rightarrow> 'e \<Rightarrow> string option" where
  "open_failure_hint exclusive denied e =
     (if exclusive e then Some BUSY_HINT else if denied e then Some PERMISSION_HINT else None)"

text \<open>\<open>str::lines\<close>: a last line without its newline is a line, an empty one is not.\<close>

definition strip_return :: "string \<Rightarrow> string" where
  "strip_return s = (if s \<noteq> [] \<and> last s = CHR 0x0D then butlast s else s)"

fun lines_from :: "string \<Rightarrow> string \<Rightarrow> string list" where
  "lines_from line [] = (if line = [] then [] else [line])"
| "lines_from line (c # cs) =
     (if c = CHR 0x0A then strip_return line # lines_from [] cs else lines_from (line @ [c]) cs)"

definition indent :: "string \<Rightarrow> string \<Rightarrow> string" where
  "indent text prefix =
     join newline (map (\<lambda>line. if line = [] then [] else prefix @ line) (lines_from [] text))"

section \<open>Signals\<close>

datatype signal = Terminate | Interrupt

definition signal_name :: "signal \<Rightarrow> string" where
  "signal_name s = (case s of Terminate \<Rightarrow> ''SIGTERM'' | Interrupt \<Rightarrow> ''SIGINT'')"

text \<open>
  What the handler is called with: nothing when one of the two streams could not be set up,
  else the first signal that comes, if one does.
\<close>

definition signal_heard :: "bool \<Rightarrow> bool \<Rightarrow> signal option \<Rightarrow> string option" where
  "signal_heard term_failed int_failed first =
     (if term_failed then None else if int_failed then None else map_option signal_name first)"

section \<open>The machine a program runs on\<close>

record environment =
  en_runtime_dir :: "string option"
  en_cache_home :: "string option"
  en_home :: "string option"
  en_macos :: bool

record ('dev, 's, 'd, 'sess, 'w, 'i) machine =
  mc_host :: "('dev, 's, 'd, 'sess, 'w) host"
  mc_view :: "'i info_view"
  mc_print :: "string \<Rightarrow> 'w \<Rightarrow> 'w"
  mc_complain :: "string \<Rightarrow> 'w \<Rightarrow> 'w"
  mc_os_text :: "os_error \<Rightarrow> string"
  mc_mtp_text :: "mtp_error \<Rightarrow> string"
  mc_exclusive :: "mtp_error \<Rightarrow> bool"
  mc_denied :: "mtp_error \<Rightarrow> bool"
  mc_tempfile_in :: "path \<Rightarrow> 'w \<Rightarrow> os_error option \<times> 'w"
  mc_list :: "'w \<Rightarrow> (mtp_error + 'i list) \<times> 'w"
  mc_open_by_serial :: "string \<Rightarrow> 'w \<Rightarrow> (mtp_error + 'dev) \<times> 'w"
  mc_open_first :: "'w \<Rightarrow> (mtp_error + 'dev) \<times> 'w"
  mc_serial :: "'dev \<Rightarrow> string"
  mc_fresh :: "path \<Rightarrow> string option \<Rightarrow> 'w \<Rightarrow> cache_heap \<times> 'd"
  mc_runtime :: "'w \<Rightarrow> os_error option \<times> 'w"
  mc_watch :: "'w \<Rightarrow> mtp_error option \<times> 'w"
  mc_umount_and_join :: "'sess \<Rightarrow> 'w \<Rightarrow> os_error option \<times> 'w"
  mc_session_join :: "'sess \<Rightarrow> 'w \<Rightarrow> os_error option \<times> 'w"

datatype exit = Exit nat | Aborted

section \<open>The directories\<close>

definition spool_dir_from_env :: "environment \<Rightarrow> path option \<Rightarrow> string + path" where
  "spool_dir_from_env env override =
     resolve_spool_dir override (en_cache_home env) (en_home env) (current_convention (en_macos env))"

definition mount_root_from_env :: "environment \<Rightarrow> path option \<Rightarrow> string + path" where
  "mount_root_from_env env override =
     resolve_mount_root override (en_runtime_dir env) (en_cache_home env) (en_home env)
       (current_convention (en_macos env))"

definition spool_error :: "path \<Rightarrow> string \<Rightarrow> string" where
  "spool_error dir source =
     ''can't use the spool directory '' @ dir @ '': '' @ source @
     ''. Pass --spool-dir to point it at a writable directory on disk.''"

definition prepare_spool_dir ::
  "('dev, 's, 'd, 'sess, 'w, 'i) machine \<Rightarrow> path \<Rightarrow> 'w \<Rightarrow> (string + unit) \<times> 'w" where
  "prepare_spool_dir M dir w =
     (case os_create_dir_all (ho_os (mc_host M)) dir w of
        (Some e, w) \<Rightarrow> (Inl (spool_error dir (mc_os_text M e)), w)
      | (None, w) \<Rightarrow>
          (case mc_tempfile_in M dir w of
             (Some e, w) \<Rightarrow> (Inl (spool_error dir (mc_os_text M e)), w)
           | (None, w) \<Rightarrow> (Inr (), w)))"

text \<open>\<open>spool_dir_from_env(..).and_then(|dir| prepare_spool_dir(&dir).map(|()| dir))\<close>\<close>

definition usable_spool_dir ::
  "('dev, 's, 'd, 'sess, 'w, 'i) machine \<Rightarrow> environment \<Rightarrow> path option \<Rightarrow> 'w \<Rightarrow> (string + path) \<times> 'w" where
  "usable_spool_dir M env override w =
     (case spool_dir_from_env env override of
        Inl e \<Rightarrow> (Inl e, w)
      | Inr dir \<Rightarrow>
          (case prepare_spool_dir M dir w of (Inl e, w) \<Rightarrow> (Inl e, w) | (Inr _, w) \<Rightarrow> (Inr dir, w)))"

section \<open>mtp-mount\<close>

record cli =
  cl_mountpoint :: "string option"
  cl_device :: "string option"
  cl_read_only :: bool
  cl_list :: bool
  cl_spool_dir :: "path option"
  cl_reconnect_timeout :: u64
  cl_full_download_limit :: u64

definition DEFAULT_FULL_DOWNLOAD_LIMIT_ARG :: string where
  "DEFAULT_FULL_DOWNLOAD_LIMIT_ARG = ''4G''"

fun print_all :: "('dev, 's, 'd, 'sess, 'w, 'i) machine \<Rightarrow> string list \<Rightarrow> 'w \<Rightarrow> 'w" where
  "print_all M [] w = w"
| "print_all M (t # ts) w = print_all M ts (mc_print M t w)"

definition device_line :: "'i info_view \<Rightarrow> nat \<times> 'i \<Rightarrow> string" where
  "device_line V ni =
     (case ni of (n, i) \<Rightarrow>
        ''  ['' @ show_nat n @ ''] '' @
        (case iv_manufacturer V i of Some m \<Rightarrow> m | None \<Rightarrow> ''Unknown'') @ '' '' @
        (case iv_product V i of Some p \<Rightarrow> p | None \<Rightarrow> ''Unknown'') @ '' (serial: '' @
        (case iv_serial_number V i of Some s \<Rightarrow> s | None \<Rightarrow> ''(no serial)'') @ '', USB '' @
        show_hex4 (iv_vendor_id V i) @ '':'' @ show_hex4 (iv_product_id V i) @ '')'')"

definition list_devices :: "('dev, 's, 'd, 'sess, 'w, 'i) machine \<Rightarrow> 'w \<Rightarrow> exit \<times> 'w" where
  "list_devices M w =
     (case mc_list M w of
        (Inr devices, w) \<Rightarrow>
          (if devices = [] then
             (Exit 0, print_all M
               [''No MTP devices found.'', '''',
                ''Make sure your device is unlocked, USB mode is set to'',
                ''\"File Transfer\", and the USB debugging prompt is accepted.''] w)
           else
             (Exit 0, print_all M
               ([''Found '' @ show_nat (length devices) @ '' MTP device(s):'' @ newline] @
                map (device_line (mc_view M)) (enumerate 0 devices) @
                ['''', ''Use -d SERIAL to mount a specific device.'']) w))
      | (Inl e, w) \<Rightarrow> (Exit 1, mc_complain M (''Failed to list devices: '' @ mc_mtp_text M e) w))"

text \<open>
  The loop of \<open>main\<close>, which waits for the end: each turn is what \<open>wait_timeout\<close> found,
  the signal noted by then and whether the session's thread has ended. The result is
  \<open>gave_up\<close> and the signal noted in the last turn; \<open>None\<close>: still waiting.
\<close>

type_synonym turn = "string option \<times> string option \<times> bool"

fun wait_for_end :: "turn list \<Rightarrow> (bool \<times> string option) option" where
  "wait_for_end [] = None"
| "wait_for_end ((found, signalled, ended) # turns) =
     (if found \<noteq> None then Some (True, signalled)
      else if signalled \<noteq> None \<or> ended then Some (False, signalled)
      else wait_for_end turns)"

definition announce :: "('dev, 's, 'd, 'sess, 'w, 'i) machine \<Rightarrow> string option \<Rightarrow> 'w \<Rightarrow> 'w" where
  "announce M noted w =
     (case noted of None \<Rightarrow> w | Some name \<Rightarrow> mc_print M (newline @ ''Got '' @ name @ '', unmounting...'') w)"

text \<open>From the end of the loop on; \<open>noted\<close> is the signal noted by then.\<close>

definition finish_mount ::
  "('dev, 's, 'd, 'sess, 'w, 'i) machine \<Rightarrow> bool \<Rightarrow> string option \<Rightarrow> 'sess \<Rightarrow> 'w \<Rightarrow> exit \<times> 'w" where
  "finish_mount M gave_up noted session w =
     (let (ended, w) = (if gave_up \<or> noted \<noteq> None then mc_umount_and_join M session w
                        else mc_session_join M session w);
          (stopped, w) = stop_fills (mc_host M) session w;
          w = (if stopped then w else mc_complain M
            (''A download was still finishing when we stopped waiting; '' @
             ''the device may need a moment before it answers again.'') w)
      in case ended of
           Some e \<Rightarrow> (Exit 1, mc_complain M (''Mount ended with an error: '' @ mc_os_text M e) w)
         | None \<Rightarrow> (Exit (if gave_up then 1 else 0), w))"

definition open_device ::
  "('dev, 's, 'd, 'sess, 'w, 'i) machine \<Rightarrow> string option \<Rightarrow> 'w \<Rightarrow> (mtp_error + 'dev) \<times> 'w" where
  "open_device M serial w = (case serial of Some s \<Rightarrow> mc_open_by_serial M s w | None \<Rightarrow> mc_open_first M w)"

text \<open>The serial a reconnect will ask for.\<close>

definition reopen_serial :: "('dev, 's, 'd, 'sess, 'w, 'i) machine \<Rightarrow> 'dev \<Rightarrow> 'w \<Rightarrow> string option \<times> 'w" where
  "reopen_serial M device w =
     (case trim (mc_serial M device) of
        [] \<Rightarrow> (None, mc_complain M
          (''Note: this device reports no serial number, so a reconnect '' @
           ''opens whichever MTP device is available.'') w)
      | c # cs \<Rightarrow> (Some (c # cs), w))"

text \<open>
  From the device that was opened on. \<open>late\<close> is a signal that comes between the last turn of
  the loop and the decision how to end the session.
\<close>

definition cli_serve ::
  "('dev, 's, 'd, 'sess, 'w, 'i) machine \<Rightarrow> cli \<Rightarrow> string \<Rightarrow> path \<Rightarrow> turn list \<Rightarrow> string option \<Rightarrow> 'dev \<Rightarrow>
   'w \<Rightarrow> (exit \<times> 'w) option" where
  "cli_serve M cli mountpoint spool_dir turns late device w =
     (let (serial, w) = reopen_serial M device w;
          (heap, d) = mc_fresh M spool_dir serial w;
          fs = fs_new device (policy_from_secs (cl_reconnect_timeout cli)) (cl_read_only cli)
            (cl_full_download_limit cli) heap d
      in case ho_spawn_mount (mc_host M) fs mountpoint (mount_options fs) w of
        (Inl e, w) \<Rightarrow> Some (Exit 1, mc_complain M (''Mount failed: '' @ mc_os_text M e) w)
      | (Inr session, w) \<Rightarrow>
     (let w = mc_print M ''Mounted. Press Ctrl+C to unmount.'' w
      in case wait_for_end turns of
           None \<Rightarrow> None
         | Some (gave_up, signalled) \<Rightarrow>
             (let noted = (if signalled = None then late else signalled)
              in Some (finish_mount M gave_up noted session (announce M noted w)))))"

definition cli_mount ::
  "('dev, 's, 'd, 'sess, 'w, 'i) machine \<Rightarrow> cli \<Rightarrow> string \<Rightarrow> path \<Rightarrow> turn list \<Rightarrow> string option \<Rightarrow>
   'w \<Rightarrow> (exit \<times> 'w) option" where
  "cli_mount M cli mountpoint spool_dir turns late w =
     (let label = (case cl_device cli of Some s \<Rightarrow> s | None \<Rightarrow> ''first available device'');
          w = mc_print M (''Mounting '' @ label @ '' at '' @ mountpoint @ ''...'') w
      in case mc_runtime M w of
        (Some e, w) \<Rightarrow> Some (Aborted, w)
      | (None, w) \<Rightarrow>
     (case open_device M (cl_device cli) w of
        (Inl e, w) \<Rightarrow>
          (let w = mc_complain M (''Failed to open MTP device: '' @ mc_mtp_text M e) w
           in Some (Exit 1,
             (case open_failure_hint (mc_exclusive M) (mc_denied M) e of
                Some hint \<Rightarrow> mc_complain M hint (mc_complain M '''' w) | None \<Rightarrow> w)))
      | (Inr device, w) \<Rightarrow> cli_serve M cli mountpoint spool_dir turns late device w))"

definition cli_main ::
  "('dev, 's, 'd, 'sess, 'w, 'i) machine \<Rightarrow> environment \<Rightarrow> cli \<Rightarrow> turn list \<Rightarrow> string option \<Rightarrow>
   'w \<Rightarrow> (exit \<times> 'w) option" where
  "cli_main M env cli turns late w =
     (if cl_list cli then Some (list_devices M w)
      else case cl_mountpoint cli of
        None \<Rightarrow> Some (Exit 1, mc_complain M ''Error: <MOUNTPOINT> is required (or use --list to see devices)'' w)
      | Some mountpoint \<Rightarrow>
     (case usable_spool_dir M env (cl_spool_dir cli) w of
        (Inl e, w) \<Rightarrow> Some (Exit 1, mc_complain M e w)
      | (Inr spool_dir, w) \<Rightarrow> cli_mount M cli mountpoint spool_dir turns late w))"

section \<open>mtp-mountd\<close>

record daemon_cli =
  dc_mount_root :: "path option"
  dc_spool_dir :: "path option"
  dc_read_only :: bool
  dc_full_download_limit :: u64
  dc_dry_run :: bool

text \<open>What comes through the channel: the hotplug watch, the watchers and the signal send.\<close>

definition run_dry_run ::
  "('dev, 's, 'd, 'sess, 'w, 'i) machine \<Rightarrow> path \<Rightarrow> dry_run_command list \<Rightarrow> 'w \<Rightarrow> exit \<times> 'w" where
  "run_dry_run M mount_root events w =
     (case mc_runtime M w of
        (Some e, w) \<Rightarrow> (Exit 1, mc_complain M (''Can't start the async runtime: '' @ mc_os_text M e) w)
      | (None, w) \<Rightarrow>
          (case mc_watch M w of
             (Some e, w) \<Rightarrow> (Exit 1, mc_complain M (''Can't watch for USB devices: '' @ mc_mtp_text M e) w)
           | (None, w) \<Rightarrow> (Exit 0, print_all M (dr_out (dry_run_run events (dry_run_new mount_root))) w)))"

text \<open>From the spool directory on; \<open>order\<close> is the order the last mounts are taken down in.\<close>

definition run_supervisor ::
  "('dev, 's, 'd, 'sess, 'w, 'i) machine \<Rightarrow> supervisor_config \<Rightarrow> (string list \<Rightarrow> string list) \<Rightarrow> command list \<Rightarrow>
   'w \<Rightarrow> (exit \<times> 'w) option" where
  "run_supervisor M config order commands w =
     (case clean_stale_mounts (ho_os (mc_host M)) (sc_mount_root config) w of
        None \<Rightarrow> None
      | Some (cleaned, w) \<Rightarrow>
     (case mc_runtime M w of
        (Some e, w) \<Rightarrow> Some (Exit 1, mc_complain M (''Can't start the async runtime: '' @ mc_os_text M e) w)
      | (None, w) \<Rightarrow>
     (case mc_watch M w of
        (Some e, w) \<Rightarrow> Some (Exit 1, mc_complain M (''Can't watch for USB devices: '' @ mc_mtp_text M e) w)
      | (None, w) \<Rightarrow>
          (case sup_run (mc_host M) order commands (supervisor_new config w) of
             None \<Rightarrow> None
           | Some s \<Rightarrow> Some (Exit 0, sv_world s)))))"

definition daemon_main ::
  "('dev, 's, 'd, 'sess, 'w, 'i) machine \<Rightarrow> environment \<Rightarrow> daemon_cli \<Rightarrow> (string list \<Rightarrow> string list) \<Rightarrow>
   dry_run_command list \<Rightarrow> command list \<Rightarrow> 'w \<Rightarrow> (exit \<times> 'w) option" where
  "daemon_main M env cli order events commands w =
     (case mount_root_from_env env (dc_mount_root cli) of
        Inl e \<Rightarrow> Some (Exit 1, mc_complain M e w)
      | Inr mount_root \<Rightarrow>
     (if dc_dry_run cli then Some (run_dry_run M mount_root events w)
      else case usable_spool_dir M env (dc_spool_dir cli) w of
        (Inl e, w) \<Rightarrow> Some (Exit 1, mc_complain M e w)
      | (Inr spool_dir, w) \<Rightarrow>
          run_supervisor M
            ((config_new mount_root spool_dir (dc_read_only cli))\<lparr>sc_full_download_limit := dc_full_download_limit cli\<rparr>)
            order commands w))"

section \<open>Facts\<close>

text \<open>The default the help text shows is the limit the filesystem uses.\<close>

lemma default_limit_argument: "parse_size DEFAULT_FULL_DOWNLOAD_LIMIT_ARG = Inr DEFAULT_FULL_DOWNLOAD_LIMIT"
proof -
  have t: "trim ''4G'' = ''4G''" "trim ''G'' = ''G''" "map ascii_lower ''G'' = ''g''"
    "takeWhile is_ascii_digit ''4G'' = ''4''" "dropWhile is_ascii_digit ''4G'' = ''G''" by code_simp+
  have "suffix_multiplier ''g'' = Some (1024 * 1024 * 1024)" by (simp add: suffix_multiplier_def)
  moreover have "parse_u64 ''4'' = Some 4"
    by (simp add: parse_u64_def digits_value_def)
  moreover have "checked_mul 4 (1024 * 1024 * 1024 :: u64) = Some (4 * 1024 * 1024 * 1024)"
    by (simp add: checked_mul_def)
  ultimately show ?thesis
    unfolding DEFAULT_FULL_DOWNLOAD_LIMIT_ARG_def DEFAULT_FULL_DOWNLOAD_LIMIT_def parse_size_def Let_def t
    by simp
qed

text \<open>Both programs settle the spool directory before any device is touched.\<close>

lemma bad_spool_touches_no_device:
  assumes "usable_spool_dir M env (cl_spool_dir cli) w = (Inl e, w')"
    and "\<not> cl_list cli" and "cl_mountpoint cli = Some p"
  shows "cli_main M env cli turns late w = Some (Exit 1, mc_complain M e w')"
  using assms by (simp add: cli_main_def)

lemma usable_spool_dir_ok:
  "usable_spool_dir M env override w = (Inr dir, w') \<longleftrightarrow>
     spool_dir_from_env env override = Inr dir \<and> prepare_spool_dir M dir w = (Inr (), w')"
  by (auto simp: usable_spool_dir_def split: sum.splits prod.splits)

text \<open>A dry run reads the environment, starts the watch and prints: no machine call can matter.\<close>

lemma dry_run_only_watches:
  assumes "dc_dry_run cli"
  shows "daemon_main (M\<lparr>mc_host := H', mc_tempfile_in := tf, mc_list := ls, mc_open_by_serial := op,
      mc_open_first := op1, mc_umount_and_join := uj, mc_session_join := sj\<rparr>) env cli order events commands w =
    daemon_main M env cli order' events commands' w"
proof -
  have p: "print_all (M\<lparr>mc_host := H', mc_tempfile_in := tf, mc_list := ls, mc_open_by_serial := op,
      mc_open_first := op1, mc_umount_and_join := uj, mc_session_join := sj\<rparr>) ts w = print_all M ts w" for ts w
    by (induction ts arbitrary: w) simp_all
  show ?thesis
    using assms by (simp add: daemon_main_def run_dry_run_def p split: sum.split prod.split option.split)
qed

text \<open>The daemon proper, from the sweep on.\<close>

lemma run_supervisor_returns:
  fixes M :: "('dev, 's, 'd, 'sess, 'w, 'i) machine"
  assumes "clock_advances (ho_os (mc_host M))"
    and runs: "\<And>w. \<exists>s. sup_run (mc_host M) order commands (supervisor_new config w) = Some s"
  shows "\<exists>c w'. run_supervisor M config order commands w = Some (Exit c, w') \<and> c \<le> 1 \<and>
    (c = 0 \<longrightarrow> (\<exists>cleaned w1 w2 w3 s.
       clean_stale_mounts (ho_os (mc_host M)) (sc_mount_root config) w = Some (cleaned, w1) \<and>
       mc_runtime M w1 = (None, w2) \<and> mc_watch M w2 = (None, w3) \<and>
       sup_run (mc_host M) order commands (supervisor_new config w3) = Some s \<and> w' = sv_world s))"
proof -
  obtain cleaned w1 where s: "clean_stale_mounts (ho_os (mc_host M)) (sc_mount_root config) w = Some (cleaned, w1)"
    using clean_stale_mounts_returns [OF assms(1)] by (metis surj_pair)
  obtain r w2 where r: "mc_runtime M w1 = (r, w2)" by fastforce
  obtain v w3 where v: "mc_watch M w2 = (v, w3)" by fastforce
  obtain z where z: "sup_run (mc_host M) order commands (supervisor_new config w3) = Some z" using runs by blast
  show ?thesis
  proof (cases r)
    case None
    then show ?thesis using s r v z by (cases v) (simp_all add: run_supervisor_def)
  qed (simp add: run_supervisor_def s r)
qed

text \<open>The reason of the first \<open>Stop\<close> that a dry run is sent.\<close>

fun first_dry_stop :: "dry_run_command list \<Rightarrow> string option" where
  "first_dry_stop [] = None"
| "first_dry_stop (DryStop reason # cs) = Some reason"
| "first_dry_stop (_ # cs) = first_dry_stop cs"

lemma dry_run_loop_stops: "first_dry_stop cs = Some reason \<Longrightarrow> fst (dry_run_loop cs d) = reason"
  by (induction cs d rule: dry_run_loop.induct) simp_all

text \<open>The exit status of a mount, from the end of the wait on.\<close>

definition session_end ::
  "('dev, 's, 'd, 'sess, 'w, 'i) machine \<Rightarrow> bool \<Rightarrow> 'sess \<Rightarrow> 'w \<Rightarrow> os_error option" where
  "session_end M unmounting session w =
     fst (if unmounting then mc_umount_and_join M session w else mc_session_join M session w)"

lemma finish_mount_status:
  "fst (finish_mount M gave_up noted session w) =
     Exit (if gave_up \<or> session_end M (gave_up \<or> noted \<noteq> None) session w \<noteq> None then 1 else 0)"
  by (auto simp: finish_mount_def session_end_def Let_def split: prod.splits option.splits)

lemma wait_for_end_gives_up:
  "wait_for_end turns = Some (True, noted) \<Longrightarrow> \<exists>reason ended. (Some reason, noted, ended) \<in> set turns"
  by (induction turns rule: wait_for_end.induct) (auto split: if_splits)

text \<open>
  \<open>mtp-mount\<close> exits with 0 only when a session was mounted as the flags say, the filesystem
  did not give up on the device and the session ended without an error.
\<close>

lemma cli_serve_zero:
  fixes M :: "('dev, 's, 'd, 'sess, 'w, 'i) machine"
  assumes "cli_serve M cli mountpoint spool_dir turns late device w = Some (Exit 0, w')"
  shows "\<exists>(fs :: ('dev, 's, 'd) mtp_fs) session noted w1 w2 w3. fs_read_only fs = cl_read_only cli \<and>
    ho_spawn_mount (mc_host M) fs mountpoint (mount_options fs) w1 = (Inr session, w2) \<and>
    wait_for_end turns = Some (False, noted) \<and>
    session_end M ((if noted = None then late else noted) \<noteq> None) session w3 = None"
proof -
  obtain serial w1 where 1: "reopen_serial M device w = (serial, w1)" by fastforce
  obtain heap d where 2: "mc_fresh M spool_dir serial w1 = (heap, d)" by fastforce
  define fs where "fs = (fs_new device (policy_from_secs (cl_reconnect_timeout cli)) (cl_read_only cli)
    (cl_full_download_limit cli) heap d :: ('dev, 's, 'd) mtp_fs)"
  obtain u w2 where u: "ho_spawn_mount (mc_host M) fs mountpoint (mount_options fs) w1 = (u, w2)" by fastforce
  have serve: "cli_serve M cli mountpoint spool_dir turns late device w =
    (case u of
       Inl e \<Rightarrow> Some (Exit 1, mc_complain M (''Mount failed: '' @ mc_os_text M e) w2)
     | Inr session \<Rightarrow>
         (case wait_for_end turns of
            None \<Rightarrow> None
          | Some (gave_up, signalled) \<Rightarrow>
              (let noted = (if signalled = None then late else signalled)
               in Some (finish_mount M gave_up noted session
                    (announce M noted (mc_print M ''Mounted. Press Ctrl+C to unmount.'' w2))))))"
    by (simp add: cli_serve_def 1 2 Let_def fs_def [symmetric] u split: sum.split)
  from assms obtain session gave_up noted where *: "u = Inr session" "wait_for_end turns = Some (gave_up, noted)"
      "fst (finish_mount M gave_up (if noted = None then late else noted) session
        (announce M (if noted = None then late else noted) (mc_print M ''Mounted. Press Ctrl+C to unmount.'' w2))) = Exit 0"
    unfolding serve Let_def by (cases u) (simp, cases "wait_for_end turns", auto)
  from *(3) have "\<not> gave_up" "session_end M ((if noted = None then late else noted) \<noteq> None) session
      (announce M (if noted = None then late else noted) (mc_print M ''Mounted. Press Ctrl+C to unmount.'' w2)) = None"
    unfolding finish_mount_status by (auto split: if_splits)
  moreover have "fs_read_only fs = cl_read_only cli" by (simp add: fs_def fs_new_def)
  ultimately have "fs_read_only fs = cl_read_only cli \<and>
    ho_spawn_mount (mc_host M) fs mountpoint (mount_options fs) w1 = (Inr session, w2) \<and>
    wait_for_end turns = Some (False, noted) \<and>
    session_end M ((if noted = None then late else noted) \<noteq> None) session
      (announce M (if noted = None then late else noted) (mc_print M ''Mounted. Press Ctrl+C to unmount.'' w2)) = None"
    using u *(1,2) by simp
  then show ?thesis by (intro exI)
qed

lemma cli_mount_zero:
  "cli_mount M cli mountpoint spool_dir turns late w = Some (Exit 0, w') \<Longrightarrow>
     \<exists>device w1 w2. open_device M (cl_device cli) w1 = (Inr device, w2) \<and>
       cli_serve M cli mountpoint spool_dir turns late device w2 = Some (Exit 0, w')"
  by (auto simp: cli_mount_def Let_def split: prod.splits option.splits sum.splits)

lemma mount_exit_zero:
  fixes M :: "('dev, 's, 'd, 'sess, 'w, 'i) machine"
  assumes "cli_main M env cli turns late w = Some (Exit 0, w')" and "\<not> cl_list cli"
  shows "\<exists>mountpoint (fs :: ('dev, 's, 'd) mtp_fs) session noted w1 w2 w3. cl_mountpoint cli = Some mountpoint \<and>
    fs_read_only fs = cl_read_only cli \<and>
    ho_spawn_mount (mc_host M) fs mountpoint (mount_options fs) w1 = (Inr session, w2) \<and>
    wait_for_end turns = Some (False, noted) \<and>
    session_end M ((if noted = None then late else noted) \<noteq> None) session w3 = None"
proof -
  from assms obtain mountpoint spool_dir w1 where "cl_mountpoint cli = Some mountpoint"
      "cli_mount M cli mountpoint spool_dir turns late w1 = Some (Exit 0, w')"
    by (auto simp: cli_main_def split: option.splits prod.splits sum.splits)
  moreover from cli_mount_zero [OF this(2)] obtain device w2 where
      "cli_serve M cli mountpoint spool_dir turns late device w2 = Some (Exit 0, w')" by blast
  from cli_serve_zero [OF this] have "\<exists>(fs :: ('dev, 's, 'd) mtp_fs) session noted w1 w2 w3. fs_read_only fs = cl_read_only cli \<and>
    ho_spawn_mount (mc_host M) fs mountpoint (mount_options fs) w1 = (Inr session, w2) \<and>
    wait_for_end turns = Some (False, noted) \<and>
    session_end M ((if noted = None then late else noted) \<noteq> None) session w3 = None" .
  ultimately show ?thesis by (intro exI [of _ mountpoint]) simp
qed

section \<open>Properties\<close>

text \<open>
  C40. A daemon that is stopped ends, with status 0 or 1. It is stopped when a \<open>Stop\<close> is among
  what its channel brings (without one it waits on). Status 0 means one of two things: a dry
  run, which printed its report with the summary for the reason of that \<open>Stop\<close>; or a run of
  the supervisor, configured from the command line, after the spool directory was prepared and
  the sweep had run, which ended for that reason with no mount in its table, every watcher
  told to stop, and no directory a mount point that was none when the supervisor started,
  unless the forced unmount met a mount there and did not take it down.
\<close>

theorem daemon_main_returns:
  fixes M :: "('dev, 's, 'd, 'sess, 'w, 'i) machine"
  defines "H \<equiv> mc_host M"
  assumes "clock_advances (ho_os H)" and "\<forall>ks. set (order ks) = set ks" and "mounts_only_by_spawn H P"
    and "\<forall>root. mount_root_from_env env (dc_mount_root cli) = Inr root \<longrightarrow> arrivals_within root P commands"
    and "if dc_dry_run cli then first_dry_stop events = Some reason else first_stop commands = Some reason"
  shows "\<exists>c w'. daemon_main M env cli order events commands w = Some (Exit c, w') \<and> c \<le> 1 \<and>
    (c = 0 \<longrightarrow> (\<exists>root. mount_root_from_env env (dc_mount_root cli) = Inr root \<and>
      (if dc_dry_run cli then
         \<exists>w1 w2 d. mc_runtime M w = (None, w1) \<and> mc_watch M w1 = (None, w2) \<and>
           dry_run_loop events (banner (dry_run_new root)) = (reason, d) \<and>
           w' = print_all M (dr_out (summary reason d)) w2
       else
         \<exists>config cleaned w0 w1 w2 w3 s t. sc_mount_root config = root \<and>
           sc_read_only config = dc_read_only cli \<and>
           sc_full_download_limit config = dc_full_download_limit cli \<and>
           usable_spool_dir M env (dc_spool_dir cli) w = (Inr (sc_spool_dir config), w0) \<and>
           clean_stale_mounts (ho_os H) root w0 = Some (cleaned, w1) \<and>
           mc_runtime M w1 = (None, w2) \<and> mc_watch M w2 = (None, w3) \<and>
           sup_loop H commands ((supervisor_new config w3)\<lparr>sv_world :=
             snd (os_create_dir_all (ho_os H) root w3)\<rparr>) = Some (reason, t) \<and>
           sup_run H order commands (supervisor_new config w3) = Some s \<and>
           sv_mounts s = [] \<and> list_all id (sv_watchers s) \<and> w' = sv_world s \<and>
           (\<forall>p \<in> P. is_mountpoint (ho_os H) p w' \<longrightarrow> is_mountpoint (ho_os H) p w3 \<or>
             (\<exists>u. is_mountpoint (ho_os H) p u \<and> is_mountpoint (ho_os H) p (snd (force_unmount (ho_os H) p u)))))))"
proof (cases "mount_root_from_env env (dc_mount_root cli)")
  case (Inl e)
  then show ?thesis by (simp add: daemon_main_def)
next
  case (Inr root)
  show ?thesis
  proof (cases "dc_dry_run cli")
    case True
    obtain d where d: "dry_run_loop events (banner (dry_run_new root)) = (reason, d)"
      using dry_run_loop_stops assms(6) True by (metis prod.collapse)
    obtain r w1 where r: "mc_runtime M w = (r, w1)" by fastforce
    obtain v w2 where v: "mc_watch M w1 = (v, w2)" by fastforce
    show ?thesis
      using True d by (cases r; cases v) (simp_all add: daemon_main_def Inr run_dry_run_def dry_run_run_def r v)
  next
    case False
    obtain d w1 where d: "usable_spool_dir M env (dc_spool_dir cli) w = (d, w1)" by fastforce
    show ?thesis
    proof (cases d)
      case (Inl e)
      with d False Inr show ?thesis by (simp add: daemon_main_def)
    next
      case d_ok: (Inr dir)
      define config where "config = (config_new root dir (dc_read_only cli))
        \<lparr>sc_full_download_limit := dc_full_download_limit cli\<rparr>"
      have config: "sc_mount_root config = root" "sc_read_only config = dc_read_only cli"
          "sc_full_download_limit config = dc_full_download_limit cli" "sc_spool_dir config = dir"
        by (simp_all add: config_def config_new_def)
      have stop: "first_stop commands = Some reason" using assms(6) False by simp
      have within: "arrivals_within (sc_mount_root config) P commands" using assms(5) Inr config(1) by simp
      note ends = sup_run_ends [OF assms(2,3,4) within stop, unfolded unmount_refused_def]
      have "\<exists>s. sup_run (mc_host M) order commands (supervisor_new config w) = Some s" for w
        using ends [of w] unfolding H_def by blast
      from run_supervisor_returns [OF assms(2) [unfolded H_def] this, of w1]
      obtain c w' where run: "run_supervisor M config order commands w1 = Some (Exit c, w')" "c \<le> 1"
        and zero: "c = 0 \<longrightarrow> (\<exists>cleaned w2 w3 w4 s. clean_stale_mounts (ho_os H) root w1 = Some (cleaned, w2) \<and>
           mc_runtime M w2 = (None, w3) \<and> mc_watch M w3 = (None, w4) \<and>
           sup_run H order commands (supervisor_new config w4) = Some s \<and> w' = sv_world s)"
        unfolding H_def config(1) by (elim exE conjE)
      have main: "daemon_main M env cli order events commands w = Some (Exit c, w')"
        using d d_ok False Inr run(1) by (simp add: daemon_main_def config_def)
      show ?thesis
      proof (cases "c = 0")
        case True
        from zero [rule_format, OF this] obtain cleaned w2 w3 w4 s where z:
            "clean_stale_mounts (ho_os H) root w1 = Some (cleaned, w2)"
            "mc_runtime M w2 = (None, w3)" "mc_watch M w3 = (None, w4)"
            "sup_run H order commands (supervisor_new config w4) = Some s" "w' = sv_world s"
          by (elim exE conjE)
        obtain t s2 where t: "sup_loop H commands ((supervisor_new config w4)\<lparr>sv_world :=
              snd (os_create_dir_all (ho_os H) root w4)\<rparr>) = Some (reason, t)"
            "sup_run H order commands (supervisor_new config w4) = Some s2" "sv_mounts s2 = []"
            "list_all id (sv_watchers s2)"
            "\<forall>p \<in> P. is_mountpoint (ho_os H) p (sv_world s2) \<longrightarrow> is_mountpoint (ho_os H) p w4 \<or>
               (\<exists>u. is_mountpoint (ho_os H) p u \<and> is_mountpoint (ho_os H) p (snd (force_unmount (ho_os H) p u)))"
          using ends [of w4] unfolding config(1) by (elim exE conjE)
        have "s2 = s" using t(2) z(4) by simp
        show ?thesis
          by (rule exI [of _ 0], rule exI [of _ w'], intro conjI impI exI [of _ root])
            (simp_all only: main True Inr if_False False, simp,
             use config d d_ok z t \<open>s2 = s\<close> in \<open>intro exI [of _ config] exI [of _ cleaned] exI [of _ w1] exI [of _ w2]
               exI [of _ w3] exI [of _ w4] exI [of _ s] exI [of _ t], simp\<close>)
      qed (use main run(2) in simp)
    qed
  qed
qed

definition demo_programs :: "(unit, unit, unit, path, nat \<times> path set, device_facts) machine" where
  "demo_programs =
     \<lparr>mc_host = demo_host, mc_view = demo_view, mc_print = (\<lambda>t w. w), mc_complain = (\<lambda>t w. w),
      mc_os_text = (\<lambda>e. ''''), mc_mtp_text = (\<lambda>e. ''''), mc_exclusive = (\<lambda>e. False), mc_denied = (\<lambda>e. False),
      mc_tempfile_in = (\<lambda>p w. (None, w)), mc_list = (\<lambda>w. (Inr [], w)),
      mc_open_by_serial = (\<lambda>s w. (Inr (), w)), mc_open_first = (\<lambda>w. (Inr (), w)), mc_serial = (\<lambda>d. ''SN-1''),
      mc_fresh = (\<lambda>dir serial. ho_fresh demo_host), mc_runtime = (\<lambda>w. (None, w)), mc_watch = (\<lambda>w. (None, w)),
      mc_umount_and_join = (\<lambda>s w. (None, w)), mc_session_join = (\<lambda>s w. (None, w))\<rparr>"

definition demo_daemon_cli :: daemon_cli where
  "demo_daemon_cli = \<lparr>dc_mount_root = Some ''/run/mtp'', dc_spool_dir = Some ''/cache'', dc_read_only = True,
     dc_full_download_limit = 0, dc_dry_run = False\<rparr>"

definition demo_environment :: environment where
  "demo_environment = \<lparr>en_runtime_dir = None, en_cache_home = None, en_home = None, en_macos = False\<rparr>"

theorem daemon_main_returns_witness:
  "\<exists>c w'. daemon_main demo_programs demo_environment demo_daemon_cli rev []
     [Device (Arrived demo_ident), Stop ''got SIGTERM''] (0, {}) = Some (Exit c, w') \<and> c \<le> 1"
proof -
  have H: "mc_host demo_programs = demo_host" by (simp add: demo_programs_def)
  have "if dc_dry_run demo_daemon_cli then first_dry_stop [] = Some ''got SIGTERM''
      else first_stop [Device (Arrived demo_ident), Stop ''got SIGTERM''] = Some ''got SIGTERM''"
    by (simp add: demo_daemon_cli_def)
  from daemon_main_returns [where M = demo_programs and P = UNIV and order = rev and w = "(0, {})", unfolded H,
      OF demo_host_laws(1) _ demo_spawns _ this, of demo_environment]
  show ?thesis by (auto simp: arrivals_within_def)
qed

end
