(* ===== verification/Harness.thy ===== *)
theory Harness
  imports Prelude
begin

text \<open>
  What the fuzz targets of \<open>src/fuzz/fuzz_targets/\<close> share: an input is cut into steps, each
  step runs code of the program beside a simple model, and a check that fails is a panic. A
  panic is \<open>None\<close>. A target that never panics on any input proves what the fuzzer samples.
\<close>

section \<open>Checks and steps\<close>

definition check :: "bool \<Rightarrow> 's \<Rightarrow> 's option" where
  "check p s = (if p then Some s else None)"

lemma check_eq_Some [simp]: "check p s = Some s' \<longleftrightarrow> p \<and> s' = s"
  by (auto simp: check_def)

fun run_steps :: "('c \<Rightarrow> 's \<Rightarrow> 's option) \<Rightarrow> 'c list \<Rightarrow> 's \<Rightarrow> 's option" where
  "run_steps step [] s = Some s"
| "run_steps step (c # cs) s = (case step c s of None \<Rightarrow> None | Some s \<Rightarrow> run_steps step cs s)"

lemma run_steps_append: "run_steps step (cs @ ds) s = (case run_steps step cs s of None \<Rightarrow> None | Some s \<Rightarrow> run_steps step ds s)"
  by (induction cs arbitrary: s) (auto split: option.splits)

text \<open>\<open>slice::chunks_exact\<close>: whole chunks only, a shorter rest is dropped.\<close>

function chunks_exact :: "nat \<Rightarrow> 'a list \<Rightarrow> 'a list list" where
  "chunks_exact n xs = (if n = 0 \<or> length xs < n then [] else take n xs # chunks_exact n (drop n xs))"
  by auto
termination by (relation "measure (\<lambda>(n, xs). length xs)") auto

declare chunks_exact.simps [simp del]

lemma chunks_length: "c \<in> set (chunks_exact n xs) \<Longrightarrow> length c = n"
proof (induction n xs rule: chunks_exact.induct)
  case (1 n xs)
  then show ?case by (subst (asm) (2) chunks_exact.simps) (auto split: if_splits)
qed

text \<open>\<open>data[i]\<close> of a chunk long enough.\<close>

lemma length_3E:
  assumes "length c = 3"
  obtains x y z where "c = [x, y, z]"
  using assms by (auto simp: numeral_eq_Suc length_Suc_conv)

lemma length_4E:
  assumes "length c = 4"
  obtains w x y z where "c = [w, x, y, z]"
  using assms by (auto simp: numeral_eq_Suc length_Suc_conv)

text \<open>\<open>from_le_bytes\<close>, as a number.\<close>

fun le_value :: "byte list \<Rightarrow> nat" where
  "le_value [] = 0"
| "le_value (b # bs) = unat b + 256 * le_value bs"

lemma le_value_less: "le_value bs < 256 ^ length bs"
proof (induction bs)
  case (Cons b bs)
  have "unat b < 256" using unsigned_less [of b] by simp
  with Cons show ?case by simp
qed simp

section \<open>The invariant of a target\<close>

text \<open>
  \<open>inv k s\<close> is what holds when at most \<open>k\<close> more steps follow: no check of a step can fail
  then, and the invariant is kept.
\<close>

locale harness =
  fixes step :: "'c \<Rightarrow> 's \<Rightarrow> 's option"
    and ok :: "'c \<Rightarrow> bool"
    and inv :: "nat \<Rightarrow> 's \<Rightarrow> bool"
  assumes step_passes: "ok c \<Longrightarrow> inv (Suc k) s \<Longrightarrow> \<exists>s'. step c s = Some s' \<and> inv k s'"
begin

lemma passes: "list_all ok cs \<Longrightarrow> inv (length cs + k) s \<Longrightarrow> \<exists>s'. run_steps step cs s = Some s' \<and> inv k s'"
proof (induction cs arbitrary: s)
  case (Cons c cs)
  then obtain s1 where "step c s = Some s1" "inv (length cs + k) s1"
    using step_passes [of c "length cs + k" s] by auto
  with Cons show ?case by simp
qed simp

lemma prefix_passes:
  assumes "run_steps step (cs @ ds) s \<noteq> None"
  shows "run_steps step cs s \<noteq> None"
  using assms by (induction cs arbitrary: s) (auto split: option.splits)

end

end
