(* ===== verification/Fuzz_Ranges.thy ===== *)
theory Fuzz_Ranges
  imports Ranges Harness
begin

text \<open>
  \<open>src/fuzz/fuzz_targets/fuzz_range_set.rs\<close>: the range set beside a bitmap of 512 offsets. A
  step is three bytes: an insert, or a query checked against the bitmap's gaps; after each,
  the ranges must be canonical and hold exactly the bitmap's bytes. The theorem: no input
  makes a check fail, so the range set is equivalent to the bitmap.
\<close>

section \<open>The bitmap\<close>

definition LIMIT :: u64 where
  "LIMIT = 512"

text \<open>\<open>model[a..b]\<close> assigned \<open>true\<close>: out of bounds is a panic.\<close>

definition set_slots :: "nat \<Rightarrow> nat \<Rightarrow> bool list \<Rightarrow> bool list option" where
  "set_slots a b m =
     (if a \<le> b \<and> b \<le> length m then Some (take a m @ replicate (b - a) True @ drop b m) else None)"

text \<open>One turn of the loop of \<open>gaps\<close>: the runs closed so far, and the one that is open.\<close>

definition gap_turn :: "bool list \<Rightarrow> u64 \<Rightarrow> range list \<times> u64 option \<Rightarrow> (range list \<times> u64 option) option" where
  "gap_turn m i st =
     (if length m \<le> unat i then None
      else case st of (out, run) \<Rightarrow>
        (case (m ! unat i, run) of
           (False, None) \<Rightarrow> Some (out, Some i)
         | (True, Some s) \<Rightarrow> Some (out @ [Range s i], None)
         | _ \<Rightarrow> Some (out, run)))"

definition gaps :: "bool list \<Rightarrow> u64 \<Rightarrow> u64 \<Rightarrow> range list option" where
  "gaps m st en =
     (case run_steps (gap_turn m) (map of_nat [unat st..<unat (max en st)]) ([], None) of
        None \<Rightarrow> None
      | Some (out, run) \<Rightarrow> Some (out @ (case run of Some s \<Rightarrow> [Range s en] | None \<Rightarrow> [])))"

fun complement_from :: "u64 \<Rightarrow> range list \<Rightarrow> range list" where
  "complement_from cursor [] = (if cursor < LIMIT then [Range cursor LIMIT] else [])"
| "complement_from cursor (r # rs) =
     (if r_start r > cursor then [Range cursor (r_start r)] else []) @ complement_from (r_end r) rs"

definition complement :: "range list \<Rightarrow> range list" where
  "complement rs = complement_from 0 rs"

section \<open>The target\<close>

fun windows_apart :: "range list \<Rightarrow> bool" where
  "windows_apart (r # s # rs) \<longleftrightarrow> r_end r < r_start s \<and> windows_apart (s # rs)"
| "windows_apart _ \<longleftrightarrow> True"

text \<open>What is checked after every step.\<close>

definition set_agrees :: "range_set \<times> bool list \<Rightarrow> (range_set \<times> bool list) option" where
  "set_agrees sm =
     (case sm of (s, m) \<Rightarrow>
        (case gaps m 0 LIMIT of
           None \<Rightarrow> None
         | Some g \<Rightarrow>
             check (windows_apart (as_slice s) \<and> list_all (\<lambda>r. r_start r < r_end r) (as_slice s) \<and>
               g = complement (as_slice s)) (s, m)))"

definition range_step :: "byte list \<Rightarrow> range_set \<times> bool list \<Rightarrow> (range_set \<times> bool list) option" where
  "range_step chunk sm =
     (case sm of (s, m) \<Rightarrow>
        (let start = ucast (chunk ! 1) * 2; len = ucast (chunk ! 2)
         in if chunk ! 0 mod 2 = 0 then
              (let en = min (start + len) LIMIT; start = min start en
               in case set_slots (unat start) (unat en) m of
                    None \<Rightarrow> None
                  | Some m \<Rightarrow> set_agrees (insert_range s (Range start en), m))
            else
              (case gaps m start (min (saturating_add start len) LIMIT) of
                 None \<Rightarrow> None
               | Some expected \<Rightarrow>
                   (if missing s start len LIMIT = expected then set_agrees (s, m) else None))))"

definition fuzz_range_set :: "byte list \<Rightarrow> (range_set \<times> bool list) option" where
  "fuzz_range_set data = run_steps range_step (chunks_exact 3 data) (rs_new, replicate (unat LIMIT) False)"

section \<open>The bitmap's gaps\<close>

text \<open>What has been found when the loop stands before offset \<open>b\<close>.\<close>

definition found :: "bool list \<Rightarrow> nat \<Rightarrow> nat \<Rightarrow> range list \<times> u64 option \<Rightarrow> bool" where
  "found m a b st \<longleftrightarrow>
     (case st of (out, run) \<Rightarrow>
        canonical out \<and> (\<forall>r \<in> set out. unat (r_end r) < b) \<and>
        (\<forall>s. run = Some s \<longrightarrow> unat s < b \<and> (\<forall>r \<in> set out. r_end r < s)) \<and>
        (\<forall>x :: u64. x \<in> covers out \<or> (\<exists>s. run = Some s \<and> s \<le> x \<and> unat x < b) \<longleftrightarrow>
            a \<le> unat x \<and> unat x < b \<and> \<not> m ! unat x))"

lemma found_start: "found m a a ([], None)"
  by (auto simp: found_def)

lemma unat_small: "n \<le> 512 \<Longrightarrow> unat (of_nat n :: u64) = n"
  by (simp add: unat_of_nat_u64)

lemma found_turn:
  assumes f: "found m a b st" and b: "a \<le> b" "b < length m" "length m \<le> 512"
  shows "\<exists>st'. gap_turn m (of_nat b) st = Some st' \<and> found m a (Suc b) st'"
proof -
  obtain out run where st: "st = (out, run)" by fastforce
  have u: "unat (of_nat b :: u64) = b" using b by (intro unat_small) simp
  have can: "canonical out" and ends: "\<And>r. r \<in> set out \<Longrightarrow> unat (r_end r) < b"
    and open_run: "\<And>s. run = Some s \<Longrightarrow> unat s < b \<and> (\<forall>r \<in> set out. r_end r < s)"
    and cov: "\<And>x. x \<in> covers out \<or> (\<exists>s. run = Some s \<and> s \<le> x \<and> unat x < b) \<longleftrightarrow>
            a \<le> unat x \<and> unat x < b \<and> \<not> m ! unat x"
    using f by (auto simp: found_def st)
  show ?thesis
  proof (cases "m ! b")
    case True
    show ?thesis
    proof (cases run)
      case None
      then have "found m a (Suc b) st"
        using can ends cov True by (auto simp: found_def st less_Suc_eq)
      then show ?thesis using True None b by (simp add: gap_turn_def st u)
    next
      case (Some s)
      have "canonical (out @ [Range s (of_nat b)])"
        using can open_run [OF Some] by (simp add: canonical_append canonical_Cons word_less_unat u)
      moreover have "x \<in> covers (out @ [Range s (of_nat b)]) \<longleftrightarrow> a \<le> unat x \<and> unat x < Suc b \<and> \<not> m ! unat x" for x
        using cov [of x] True Some by (auto simp: word_less_unat u less_Suc_eq)
      ultimately have "found m a (Suc b) (out @ [Range s (of_nat b)], None)"
        using ends by (auto simp: found_def u less_Suc_eq)
      then show ?thesis using True Some b by (simp add: gap_turn_def st u)
    qed
  next
    case False
    show ?thesis
    proof (cases run)
      case None
      have "(x \<in> covers out \<or> of_nat b \<le> x \<and> unat x < Suc b) \<longleftrightarrow> a \<le> unat x \<and> unat x < Suc b \<and> \<not> m ! unat x" for x
        using cov [of x] False None b(1) by (auto simp: word_le_unat u less_Suc_eq)
      then have "found m a (Suc b) (out, Some (of_nat b))"
        using can ends by (auto simp: found_def u word_less_unat less_Suc_eq)
      then show ?thesis using False None b by (simp add: gap_turn_def st u)
    next
      case (Some s)
      have "(x \<in> covers out \<or> s \<le> x \<and> unat x < Suc b) \<longleftrightarrow> a \<le> unat x \<and> unat x < Suc b \<and> \<not> m ! unat x" for x
        using cov [of x] False Some b(1) open_run [OF Some] by (auto simp: word_le_unat less_Suc_eq)
      then have "found m a (Suc b) st"
        using can ends open_run Some by (auto simp: found_def st less_Suc_eq)
      then show ?thesis using False Some b by (simp add: gap_turn_def st u)
    qed
  qed
qed

lemma found_loop:
  assumes "length m \<le> 512"
  shows "a \<le> b \<Longrightarrow> b \<le> length m \<Longrightarrow>
    \<exists>st. run_steps (gap_turn m) (map of_nat [a..<b]) ([], None) = Some st \<and> found m a b st"
proof (induction b rule: nat_induct_at_least)
  case base
  then show ?case by (simp add: found_start)
next
  case (Suc b)
  then obtain st where "run_steps (gap_turn m) (map of_nat [a..<b]) ([], None) = Some st" "found m a b st" by auto
  moreover obtain st' where "gap_turn m (of_nat b) st = Some st'" "found m a (Suc b) st'"
    using found_turn [OF \<open>found m a b st\<close>] Suc assms by auto
  ultimately show ?case using Suc by (simp add: run_steps_append)
qed

lemma gaps_correct:
  assumes "length m = 512" and "st \<le> 512" and "en \<le> 512"
  shows "\<exists>g. gaps m st en = Some g \<and> canonical g \<and> covers g = {x. st \<le> x \<and> x < en \<and> \<not> m ! unat x}"
proof -
  let ?b = "unat (max en st)"
  have ub: "unat st \<le> ?b" "?b \<le> length m"
    using assms by (auto simp: word_le_unat max_def)
  obtain out run where r: "run_steps (gap_turn m) (map of_nat [unat st..<?b]) ([], None) = Some (out, run)"
      "found m (unat st) ?b (out, run)"
    using found_loop [of m "unat st" ?b] assms(1) ub by auto
  show ?thesis
  proof (cases "st \<le> en")
    case True
    then have b: "?b = unat en" by (simp add: max_def)
    let ?g = "out @ (case run of Some s \<Rightarrow> [Range s en] | None \<Rightarrow> [])"
    have "canonical ?g"
      using r(2) by (auto simp: found_def b canonical_append canonical_Cons word_less_unat split: option.splits)
    moreover have "covers ?g = {x. st \<le> x \<and> x < en \<and> \<not> m ! unat x}"
    proof (intro set_eqI)
      fix x
      have "x \<in> covers ?g \<longleftrightarrow> x \<in> covers out \<or> (\<exists>s. run = Some s \<and> s \<le> x \<and> unat x < unat en)"
        by (auto simp: word_less_unat split: option.splits)
      also have "\<dots> \<longleftrightarrow> unat st \<le> unat x \<and> unat x < unat en \<and> \<not> m ! unat x"
        using r(2) by (simp add: found_def b)
      finally show "x \<in> covers ?g \<longleftrightarrow> x \<in> {x. st \<le> x \<and> x < en \<and> \<not> m ! unat x}"
        by (simp add: word_less_unat word_le_unat)
    qed
    ultimately show ?thesis using r(1) by (simp add: gaps_def)
  next
    case False
    then have "?b = unat st" by (simp add: max_absorb2)
    with r have "out = []" "run = None" by auto
    then show ?thesis using r(1) False by (auto simp: gaps_def)
  qed
qed

section \<open>The complement\<close>

lemma complement_from_correct:
  "canonical rs \<Longrightarrow> (\<forall>r \<in> set rs. cursor \<le> r_start r \<and> r_end r \<le> LIMIT) \<Longrightarrow>
     canonical (complement_from cursor rs) \<and> (\<forall>r \<in> set (complement_from cursor rs). cursor \<le> r_start r) \<and>
     covers (complement_from cursor rs) = {x. cursor \<le> x \<and> x < LIMIT} - covers rs"
proof (induction rs arbitrary: cursor)
  case Nil
  then show ?case by (auto simp: canonical_Cons)
next
  case (Cons r rs)
  then have r: "r_start r < r_end r" "cursor \<le> r_start r" "r_end r \<le> LIMIT" "canonical rs"
      "\<forall>s \<in> set rs. r_end r < r_start s" by (auto simp: canonical_Cons)
  have ih: "canonical (complement_from (r_end r) rs)" "\<forall>s \<in> set (complement_from (r_end r) rs). r_end r \<le> r_start s"
      "covers (complement_from (r_end r) rs) = {x. r_end r \<le> x \<and> x < LIMIT} - covers rs"
    using Cons.IH [OF r(4), of "r_end r"] r(5) Cons.prems(2) by (auto simp: less_imp_le)
  let ?pre = "if r_start r > cursor then [Range cursor (r_start r)] else []"
  have "canonical (?pre @ complement_from (r_end r) rs)"
    using ih(1,2) r(1) by (auto simp: canonical_append canonical_Cons dest: less_le_trans)
  moreover have "\<forall>s \<in> set (?pre @ complement_from (r_end r) rs). cursor \<le> r_start s"
    using ih(2) r(1,2) by (auto dest: order_trans less_imp_le)
  moreover have "covers (?pre @ complement_from (r_end r) rs) = {x. cursor \<le> x \<and> x < LIMIT} - covers (r # rs)"
  proof -
    have low: "x \<notin> covers rs" if "x < r_end r" for x
      using that r(5) by (auto simp: covers_iff in_range_def dest: less_trans less_le_trans)
    show ?thesis
      using r(1-3) low by (auto simp: ih(3) covers_Cons in_range_def not_le not_less
          dest: less_le_trans le_less_trans less_imp_le intro: order_trans)
  qed
  ultimately show ?case by simp
qed

section \<open>No check fails\<close>

definition same_bytes :: "range_set \<times> bool list \<Rightarrow> bool" where
  "same_bytes sm \<longleftrightarrow>
     (case sm of (s, m) \<Rightarrow> rs_wf s \<and> length m = 512 \<and> offsets s = {x. x < LIMIT \<and> m ! unat x})"

lemma canonical_windows: "canonical rs \<Longrightarrow> windows_apart rs"
  by (induction rs rule: windows_apart.induct) (auto simp: canonical_Cons)

lemma ends_below_limit:
  assumes "covers rs \<subseteq> {x. x < LIMIT}" and "r \<in> set rs" and "r_start r < r_end r"
  shows "r_end r \<le> LIMIT"
proof (rule ccontr)
  assume "\<not> r_end r \<le> LIMIT"
  then have "in_range r (max (r_start r) LIMIT)" using assms(3) by (auto simp: in_range_def max_def not_le)
  then have "max (r_start r) LIMIT \<in> covers rs" using assms(2) by (auto simp: covers_iff)
  then have "max (r_start r) LIMIT < LIMIT" using assms(1) by auto
  then show False by simp
qed

lemma set_agrees_passes:
  assumes "same_bytes sm"
  shows "set_agrees sm = Some sm"
proof -
  obtain s m where sm: "sm = (s, m)" by fastforce
  with assms have wf: "canonical (rs_ranges s)" and len: "length m = 512" and off: "offsets s = {x. x < LIMIT \<and> m ! unat x}"
    by (auto simp: same_bytes_def rs_wf_def)
  obtain g where g: "gaps m 0 LIMIT = Some g" "canonical g" "covers g = {x. x < LIMIT \<and> \<not> m ! unat x}"
    using gaps_correct [OF len, of 0 LIMIT] by (auto simp: LIMIT_def)
  have "\<forall>r \<in> set (rs_ranges s). 0 \<le> r_start r \<and> r_end r \<le> LIMIT"
    using ends_below_limit [of "rs_ranges s"] canonicalD [OF wf] off by auto
  note c = complement_from_correct [OF wf this]
  have "covers (complement (rs_ranges s)) = covers g"
    using c off by (auto simp: complement_def g(3))
  then have "g = complement (rs_ranges s)"
    using canonical_unique g(2) c by (simp add: complement_def)
  then show ?thesis
    using canonical_windows [OF wf] canonicalD [OF wf]
    by (simp add: set_agrees_def sm g(1) as_slice_def list_all_iff check_def)
qed

lemma set_slots_facts:
  assumes "set_slots a b m = Some m'"
  shows "length m' = length m" "i < length m \<Longrightarrow> m' ! i \<longleftrightarrow> a \<le> i \<and> i < b \<or> m ! i"
  using assms by (auto simp: set_slots_def nth_append min_def split: if_splits)

lemma same_bytes_insert:
  assumes "same_bytes (s, m)" and "a \<le> b" and "b \<le> LIMIT"
  shows "\<exists>m'. set_slots (unat a) (unat b) m = Some m' \<and> same_bytes (insert_range s (Range a b), m')"
proof -
  from assms(1) have wf: "rs_wf s" and len: "length m = 512" and off: "offsets s = {x. x < LIMIT \<and> m ! unat x}"
    by (auto simp: same_bytes_def)
  have b: "unat a \<le> unat b" "unat b \<le> 512" using assms(2,3) by (simp_all add: word_le_unat LIMIT_def)
  then obtain m' where m': "set_slots (unat a) (unat b) m = Some m'" by (simp add: set_slots_def len)
  note f = set_slots_facts [OF m']
  have "offsets (insert_range s (Range a b)) = {x. x < LIMIT \<and> m' ! unat x}"
  proof (intro set_eqI)
    fix x
    have "x \<in> offsets (insert_range s (Range a b)) \<longleftrightarrow> x < LIMIT \<and> m ! unat x \<or> a \<le> x \<and> x < b"
      by (simp add: tracked.held_insert [OF wf] off in_range_def)
    also have "\<dots> \<longleftrightarrow> x < LIMIT \<and> m' ! unat x"
      using f(2) [of "unat x"] assms(3) b(2) len by (auto simp: word_less_unat word_le_unat LIMIT_def)
    finally show "x \<in> offsets (insert_range s (Range a b)) \<longleftrightarrow> x \<in> {x. x < LIMIT \<and> m' ! unat x}" by simp
  qed
  then show ?thesis using m' rs_wf_insert [OF wf] f(1) len by (simp add: same_bytes_def)
qed

lemma doubled_small: "(ucast (a :: byte) * 2 :: u64) \<le> 512"
proof -
  have "unat a < 256" using unsigned_less [of a] by simp
  then have "unat (ucast a * 2 :: u64) = 2 * unat a"
    by (simp add: unat_word_ariths unsigned_ucast_eq take_bit_nat_eq_self)
  then show ?thesis using \<open>unat a < 256\<close> by (simp add: word_le_unat)
qed

lemma query_agrees:
  assumes "same_bytes (s, m)" and "start \<le> 512"
  shows "gaps m start (min (saturating_add start len) LIMIT) = Some (missing s start len LIMIT)"
proof -
  let ?en = "min (saturating_add start len) LIMIT"
  from assms(1) have wf: "rs_wf s" and l: "length m = 512" and off: "offsets s = {x. x < LIMIT \<and> m ! unat x}"
    by (auto simp: same_bytes_def)
  obtain g where g: "gaps m start ?en = Some g" "canonical g" "covers g = {x. start \<le> x \<and> x < ?en \<and> \<not> m ! unat x}"
    using gaps_correct [OF l assms(2), of ?en] by (auto simp: LIMIT_def)
  have "covers (missing s start len LIMIT) = covers g"
    by (auto simp: missing_correct(1) [OF wf] window_def off g(3))
  then have "missing s start len LIMIT = g" using canonical_unique missing_correct(2) [OF wf] g(2) by blast
  with g(1) show ?thesis by simp
qed

interpretation fuzzed: harness range_step "\<lambda>c. length c = 3" "\<lambda>_. same_bytes"
proof
  fix c :: "byte list" and k :: nat and sm
  assume inv: "same_bytes sm" and "length c = 3"
  obtain s m where sm: "sm = (s, m)" by fastforce
  define start :: u64 where "start = ucast (c ! 1) * 2"
  define len :: u64 where "len = ucast (c ! 2)"
  have step: "range_step c (s, m) =
    (if c ! 0 mod 2 = 0 then
       (case set_slots (unat (min start (min (start + len) LIMIT))) (unat (min (start + len) LIMIT)) m of
          None \<Rightarrow> None
        | Some m \<Rightarrow> set_agrees (insert_range s (Range (min start (min (start + len) LIMIT)) (min (start + len) LIMIT)), m))
     else
       (case gaps m start (min (saturating_add start len) LIMIT) of
          None \<Rightarrow> None
        | Some expected \<Rightarrow> (if missing s start len LIMIT = expected then set_agrees (s, m) else None)))"
    by (simp only: range_step_def Let_def start_def len_def prod.case)
  show "\<exists>s'. range_step c sm = Some s' \<and> same_bytes s'"
  proof (cases "c ! 0 mod 2 = 0")
    case True
    let ?en = "min (start + len) LIMIT"
    obtain m' where "set_slots (unat (min start ?en)) (unat ?en) m = Some m'"
        "same_bytes (insert_range s (Range (min start ?en) ?en), m')"
      using same_bytes_insert [OF inv [unfolded sm], of "min start ?en" ?en] min.cobounded2 by blast
    then show ?thesis
      using set_agrees_passes True by (simp add: sm step)
  next
    case False
    have "start \<le> 512" unfolding start_def by (rule doubled_small)
    from query_agrees [OF inv [unfolded sm] this, of len] show ?thesis
      using set_agrees_passes [OF inv] inv False by (simp add: sm step)
  qed
qed

section \<open>Properties\<close>

text \<open>
  C17. The range set is equivalent to a bitmap: whatever program of inserts and queries the fuzz
  target is given, no check of it fails. Every query returns exactly the bitmap's gaps, and
  after every step the ranges are sorted, non-empty, apart, and hold exactly the bitmap's
  offsets, as the target computes them.
\<close>

theorem range_set_is_a_bitmap:
  "\<exists>s m. fuzz_range_set data = Some (s, m) \<and> length m = 512 \<and> offsets s = {x. x < LIMIT \<and> m ! unat x}"
proof -
  have "same_bytes (rs_new, replicate (unat LIMIT) False)"
    by (auto simp: same_bytes_def LIMIT_def word_less_unat)
  moreover have "list_all (\<lambda>c. length c = 3) (chunks_exact 3 data)"
    by (simp add: list_all_iff chunks_length)
  ultimately obtain sm where "fuzz_range_set data = Some sm" "same_bytes sm"
    unfolding fuzz_range_set_def using fuzzed.passes by blast
  then show ?thesis by (cases sm) (auto simp: same_bytes_def)
qed

end
