(* ===== verification/Fuzz_Buffer.thy ===== *)
theory Fuzz_Buffer
  imports Buffer Harness
begin

text \<open>
  \<open>src/fuzz/fuzz_targets/fuzz_file_buffer.rs\<close>: a file buffer over a cursor beside a plain
  vector. A step is four bytes (an operation, an offset, a length), and a write's data
  follows it. The theorem: no input makes a check fail, so the buffer is equivalent to the
  vector, and what the upload reads is what was written.
\<close>

section \<open>The vector\<close>

definition resize :: "nat \<Rightarrow> 'a \<Rightarrow> 'a list \<Rightarrow> 'a list" where
  "resize n z xs = take n xs @ replicate (n - length xs) z"

text \<open>\<open>xs[start..end].copy_from_slice(bs)\<close>: out of bounds is a panic.\<close>

definition copy_slice :: "nat \<Rightarrow> 'a list \<Rightarrow> 'a list \<Rightarrow> 'a list option" where
  "copy_slice start bs xs =
     (if start + length bs \<le> length xs then Some (take start xs @ bs @ drop (start + length bs) xs) else None)"

section \<open>The target\<close>

type_synonym tested = "byte list file_buffer \<times> byte list"

definition tested_write :: "i64 \<Rightarrow> byte list \<Rightarrow> tested \<Rightarrow> tested option" where
  "tested_write offset bytes bm =
     (case bm of (b, m) \<Rightarrow>
        (case fb_write_at cur_write IoOk offset bytes b of
           (Inl e, b) \<Rightarrow> None
         | (Inr written, b) \<Rightarrow>
             (if unat written \<noteq> length bytes then None
              else if bytes = [] then Some (b, m)
              else
                (let start = unat offset; en = start + length bytes;
                     m = (if length m < en then resize en 0 m else m)
                 in map_option (Pair b) (copy_slice start bytes m)))))"

definition tested_read :: "i64 \<Rightarrow> nat \<Rightarrow> tested \<Rightarrow> tested option" where
  "tested_read offset len bm =
     (case bm of (b, m) \<Rightarrow>
        (case fb_read_at cur_read IoOk b offset (of_nat len) of
           Inl e \<Rightarrow> None
         | Inr got \<Rightarrow>
             (let start = min (unat offset) (length m); en = min (start + len) (length m)
              in check (got = take (en - start) (drop start m)) (b, m))))"

definition tested_negative :: "i64 \<Rightarrow> tested \<Rightarrow> tested option" where
  "tested_negative offset bm =
     (case bm of (b, m) \<Rightarrow>
        (case fb_write_at cur_write IoOk (- 1 - offset) [120] b of
           (Inl e, b) \<Rightarrow> Some (b, m)
         | (Inr n, b) \<Rightarrow> None))"

definition buffer_agrees :: "tested \<Rightarrow> tested option" where
  "buffer_agrees bm =
     (case bm of (b, m) \<Rightarrow> check (fb_len b = of_nat (length m) \<and> (m \<noteq> [] \<longrightarrow> fb_dirty b)) (b, m))"

text \<open>One turn of the loop; the first component is what is left of the input.\<close>

definition buffer_turn :: "byte list \<Rightarrow> byte list \<Rightarrow> tested \<Rightarrow> (byte list \<times> tested) option" where
  "buffer_turn head input bm =
     (let offset = of_nat (le_value [head ! 1, head ! 2]); len = unat (head ! 3); k = unat (head ! 0) mod 3;
          input' = (if k = 0 then drop len input else input);
          r = (if k = 0 then tested_write offset (take len input) bm
               else if k = 1 then tested_read offset len bm
               else tested_negative offset bm)
      in map_option (Pair input') (Option.bind r buffer_agrees))"

function fuzz_loop :: "byte list \<Rightarrow> tested \<Rightarrow> tested option" where
  "fuzz_loop input bm =
     (if length input < 4 then Some bm
      else (case buffer_turn (take 4 input) (drop 4 input) bm of
              None \<Rightarrow> None
            | Some (input', bm') \<Rightarrow> fuzz_loop input' bm'))"
  by auto
termination
  by (relation "measure (\<lambda>(input, bm). length input)")
    (auto simp: buffer_turn_def Let_def split: option.splits if_splits)

declare fuzz_loop.simps [simp del]

definition fuzz_file_buffer :: "byte list \<Rightarrow> tested option" where
  "fuzz_file_buffer data =
     Option.bind (fuzz_loop data (with_storage 2 0 [], []))
       (\<lambda>(b, m). check (into_file b = m) (b, m))"

section \<open>No check fails\<close>

definition same_content :: "tested \<Rightarrow> bool" where
  "same_content bm \<longleftrightarrow> (case bm of (b, m) \<Rightarrow>
     exact_len (\<lambda>v. v) b \<and> fb_file b = m \<and> (m \<noteq> [] \<longrightarrow> fb_dirty b))"

lemma resized_copy:
  assumes "bs \<noteq> []"
  shows "copy_slice off bs (if length m < off + length bs then resize (off + length bs) 0 m else m) = Some (pwrite m off bs)"
proof -
  define m' where "m' = (if length m < off + length bs then resize (off + length bs) 0 m else m)"
  have len: "length m' = max (length m) (off + length bs)" by (auto simp: m'_def resize_def)
  have at: "m' ! i = (if i < length m then m ! i else 0)" if "i < length m'" for i
    using that by (auto simp: m'_def resize_def nth_append)
  have "take off m' @ bs @ drop (off + length bs) m' = pwrite m off bs"
    using assms(1) len at by (intro nth_equalityI) (auto simp: bytes_simps nth_append)
  then show ?thesis by (simp add: copy_slice_def len flip: m'_def)
qed

lemma sint_small: "- (2 ^ 63) \<le> k \<Longrightarrow> k < 2 ^ 63 \<Longrightarrow> sint (word_of_int k :: i64) = k"
  by (simp add: sint_sbintrunc' signed_take_bit_int_eq_self)

lemma offset_small:
  assumes "n < 65536"
  shows "unat (of_nat n :: i64) = n" "0 \<le> sint (of_nat n :: i64)" "sint (- 1 - of_nat n :: i64) < 0"
proof -
  show "unat (of_nat n :: i64) = n" using assms by (simp add: unat_of_nat_u64)
  show "0 \<le> sint (of_nat n :: i64)" using sint_small [of "int n"] assms by simp
  show "sint (- 1 - of_nat n :: i64) < 0" using sint_small [of "- 1 - int n"] assms by simp
qed

lemma byte_small: "unat (x :: byte) < 256"
  using unsigned_less [of x] by simp

lemma write_passes:
  assumes "same_content (b, m)" and "unat offset + length bytes < 2 ^ 63" and "0 \<le> sint offset" and "length bytes < 2 ^ 32"
  shows "\<exists>b'. tested_write offset bytes (b, m) = Some (b', pwrite m (unat offset) bytes) \<and>
    same_content (b', pwrite m (unat offset) bytes)"
proof -
  from assms(1) have b: "exact_len (\<lambda>v. v) b" "fb_file b = m" "m \<noteq> [] \<longrightarrow> fb_dirty b"
    by (simp_all add: same_content_def)
  obtain r b' where w: "fb_write_at cur_write IoOk offset bytes b = (r, b')" by fastforce
  have ok: "\<exists>n. r = Inr n"
    using w
  proof (cases rule: fb_write_at_cases)
    case (failed e f)
    then show ?thesis by (simp add: cur_write_def)
  qed (use assms(2,3) in auto)
  then obtain n where n: "r = Inr n" by blast
  note wn = w [unfolded n]
  have e: "exact_len (\<lambda>v. v) b'" using cursor.fb_write_exact(2) [OF _ b(1) wn] by simp
  have "fb_bytes (\<lambda>v. v) b' = pwrite (fb_bytes (\<lambda>v. v) b) (unat offset) bytes"
    using cursor.fb_write_exact(1) [OF _ b(1) wn] by simp
  then have f: "fb_file b' = pwrite m (unat offset) bytes"
    using e b(1,2) by (simp add: fb_bytes_def exact_len_def)
  have d: "bytes \<noteq> [] \<Longrightarrow> fb_dirty b'" "bytes = [] \<Longrightarrow> b' = b" "unat n = length bytes"
    using wn assms(4) by (cases rule: fb_write_at_cases; simp add: unsigned_of_nat take_bit_nat_eq_self)+
  have "same_content (b', pwrite m (unat offset) bytes)"
    using e f d(1,2) b(3) by (cases "bytes = []") (auto simp: same_content_def)
  moreover have "tested_write offset bytes (b, m) = Some (b', pwrite m (unat offset) bytes)"
    using resized_copy [of bytes "unat offset" m] d(3) wn
    by (cases "bytes = []") (simp_all add: tested_write_def Let_def)
  ultimately show ?thesis by blast
qed

lemma read_passes:
  assumes "same_content (b, m)" and "0 \<le> sint offset" and "len < 256"
  shows "tested_read offset len (b, m) = Some (b, m)"
proof -
  from assms(1) have b: "bounded_len (\<lambda>v. v) b" "fb_bytes (\<lambda>v. v) b = m"
    by (auto simp: same_content_def exact_len_def bounded_len_def fb_bytes_def)
  obtain got where g: "fb_read_at cur_read IoOk b offset (of_nat len) = Inr got"
    using cursor.fb_read_IoOk [OF _ b(1)] by auto
  have u: "unat (of_nat len :: u32) = len" using assms(3) by (simp add: unsigned_of_nat take_bit_nat_eq_self)
  have "got = pread m (unat offset) len"
    using cursor.fb_read_correct [OF _ b(1) g] assms(2) by (simp add: b(2) u)
  moreover have "take (min (min (unat offset) (length m) + len) (length m) - min (unat offset) (length m))
      (drop (min (unat offset) (length m)) m) = pread m (unat offset) len"
    by (auto simp: pread_def min_def)
  ultimately show ?thesis by (simp add: tested_read_def g Let_def check_def)
qed

lemma negative_passes: "sint (- 1 - offset) < 0 \<Longrightarrow> tested_negative offset (b, m) = Some (b, m)"
  by (simp add: tested_negative_def fb_write_at_def u64_try_from_def)

lemma agrees_passes: "same_content bm \<Longrightarrow> buffer_agrees bm = Some bm"
  by (cases bm) (auto simp: same_content_def buffer_agrees_def exact_len_def check_def)

lemma buffer_turn_passes:
  assumes "length head = 4" and "same_content bm"
  shows "\<exists>input' bm'. buffer_turn head input bm = Some (input', bm') \<and> same_content bm'"
proof -
  obtain h x y z where h: "head = [h, x, y, z]" using assms(1) by (rule length_4E)
  obtain b m where bm: "bm = (b, m)" by fastforce
  define n where "n = le_value [x, y]"
  have "n < 65536" using le_value_less [of "[x, y]"] by (simp add: n_def)
  note off = offset_small [OF this]
  have w: "unat (of_nat n :: i64) + length (take (unat z) input) < 2 ^ 63" "length (take (unat z) input) < 2 ^ 32"
    using \<open>n < 65536\<close> byte_small [of z] off(1) by auto
  have turn: "buffer_turn head input bm =
      (let len = unat z; k = unat h mod 3
       in map_option (Pair (if k = 0 then drop len input else input))
            (Option.bind
              (if k = 0 then tested_write (of_nat n) (take len input) bm
               else if k = 1 then tested_read (of_nat n) len bm else tested_negative (of_nat n) bm) buffer_agrees))"
    by (simp add: buffer_turn_def h n_def Let_def del: le_value.simps)
  obtain b' m' where "tested_write (of_nat n) (take (unat z) input) (b, m) = Some (b', m')" "same_content (b', m')"
    using write_passes [OF assms(2) [unfolded bm] w(1) off(2) w(2)] by blast
  then show ?thesis
    using assms(2) read_passes [of b m "of_nat n" "unat z"] negative_passes [of "of_nat n" b m] off(2,3) byte_small [of z]
    by (auto simp: turn [unfolded bm] bm Let_def agrees_passes)
qed

lemma loop_passes: "same_content bm \<Longrightarrow> \<exists>bm'. fuzz_loop input bm = Some bm' \<and> same_content bm'"
proof (induction input bm rule: fuzz_loop.induct)
  case (1 input bm)
  show ?case
  proof (cases "length input < 4")
    case False
    then obtain input' bm' where t: "buffer_turn (take 4 input) (drop 4 input) bm = Some (input', bm')" "same_content bm'"
      using buffer_turn_passes [OF _ "1.prems", of "take 4 input" "drop 4 input"] by (metis length_take min.absorb2 not_less)
    have "\<exists>bm''. fuzz_loop input' bm' = Some bm'' \<and> same_content bm''"
      using "1.IH" [OF False t(1) refl t(2)] .
    then show ?thesis using False by (subst fuzz_loop.simps) (simp add: t(1))
  qed (use 1 in \<open>simp add: fuzz_loop.simps\<close>)
qed

section \<open>Properties\<close>

text \<open>
  C18. A file buffer is equivalent to a vector with \<open>resize\<close> and slice copies: whatever program
  of writes, reads and refused writes the fuzz target is given, no check of it fails, and at
  the end the bytes the upload would send are the vector.
\<close>

theorem file_buffer_is_a_vector:
  "\<exists>b m. fuzz_file_buffer data = Some (b, m) \<and> into_file b = m \<and> unat (fb_len b) = length m"
proof -
  have "same_content (with_storage 2 0 [], [])"
    by (simp add: same_content_def with_storage_def exact_len_def)
  from loop_passes [OF this] obtain b m where "fuzz_loop data (with_storage 2 0 [], []) = Some (b, m)" "same_content (b, m)"
    by (metis surj_pair)
  then show ?thesis
    by (auto simp: fuzz_file_buffer_def same_content_def into_file_def exact_len_def check_def)
qed

end
