(* ===== verification/Fuzz_Size.thy ===== *)
theory Fuzz_Size
  imports Size_Parse Harness
begin

text \<open>
  \<open>src/fuzz/fuzz_targets/fuzz_size.rs\<close>: any text parses or is refused, a size that parses
  survives being printed and parsed again, and so does the number in the first eight bytes.
  What \<open>str::from_utf8\<close> makes of the input is an argument.
\<close>

definition survives :: "u64 \<Rightarrow> bool" where
  "survives b \<longleftrightarrow> parse_size (format_size b) = Inr b"

definition fuzz_size :: "string option \<Rightarrow> byte list \<Rightarrow> unit option" where
  "fuzz_size text data =
     Option.bind
       (case text of
          None \<Rightarrow> Some ()
        | Some t \<Rightarrow> (case parse_size t of Inl e \<Rightarrow> Some () | Inr bytes \<Rightarrow> check (survives bytes) ()))
       (\<lambda>_. if length data < 8 then Some () else check (survives (of_nat (le_value (take 8 data)))) ())"

lemma fuzz_size_passes: "fuzz_size text data = Some ()"
  by (auto simp: fuzz_size_def survives_def parse_format check_def split: option.split sum.split)

end
