(* ===== verification/Fuzz_Inodes.thy ===== *)
theory Fuzz_Inodes
  imports Tree_Facts Harness "HOL-Library.List_Lexorder" "HOL-Library.Char_ord"
begin

text \<open>
  \<open>src/fuzz/fuzz_targets/fuzz_inode_table.rs\<close>: the inode table driven the way \<open>fs.rs\<close> drives
  it, with both indexes checked after every step. The theorem: no input, and no iteration
  order of the table's hash map, makes a check fail.
\<close>

unbundle bit_operations_syntax

section \<open>The target\<close>

definition NAMES :: "string list" where
  "NAMES = [''a'', ''b'', ''DCIM'', ''photo.jpg'', ''a '']"

definition name_of :: "byte \<Rightarrow> string" where
  "name_of b = NAMES ! (unat b mod length NAMES)"

definition pick :: "inode list \<Rightarrow> byte \<Rightarrow> inode" where
  "pick seen b = seen ! (unat b mod length seen)"

definition movable :: "inode_kind \<Rightarrow> bool" where
  "movable k = (case k of File h \<Rightarrow> True | Directory h \<Rightarrow> True | _ \<Rightarrow> False)"

definition entry_is :: "(inode_entry \<Rightarrow> bool) \<Rightarrow> inode \<Rightarrow> inode_table \<Rightarrow> bool" where
  "entry_is P i t = (case entries t i of Some e \<Rightarrow> P e | None \<Rightarrow> False)"

fun is_at_or_below :: "nat \<Rightarrow> inode_table \<Rightarrow> inode \<Rightarrow> inode \<Rightarrow> bool" where
  "is_at_or_below 0 t ino ancestor = False"
| "is_at_or_below (Suc turns) t ino ancestor =
     (if ino = ancestor then True
      else case entries t ino of
        Some e \<Rightarrow> (if ie_parent e \<noteq> ino then is_at_or_below turns t (ie_parent e) ancestor else False)
      | None \<Rightarrow> False)"

definition index_ok :: "inode_table \<Rightarrow> inode \<Rightarrow> bool" where
  "index_ok t i =
     (case entries t i of
        None \<Rightarrow> True
      | Some e \<Rightarrow>
          i = ROOT_INODE \<or> entries t (ie_parent e) = None \<or>
          lookup t (ie_parent e) (ie_name e) = Some i \<and>
          length (filter (\<lambda>c. c = i) (children t (ie_parent e))) = 1 \<and>
          list_all (\<lambda>c. entry_is (\<lambda>ce. ie_parent ce = i) c t) (children t i))"

definition check_indexes :: "inode_table \<times> inode list \<Rightarrow> (inode_table \<times> inode list) option" where
  "check_indexes ts = check (list_all (index_ok (fst ts)) (snd ts)) ts"

text \<open>A listing of up to four children, each from one byte.\<close>

definition child_from :: "byte \<Rightarrow> child_info" where
  "child_from x =
     \<lparr>ci_handle = ucast x, ci_name = name_of (drop_bit 3 x), ci_is_dir = (x AND 1 = 1), ci_size = ucast x, ci_mtime = 0\<rparr>"

definition listing_from :: "byte \<Rightarrow> byte \<Rightarrow> byte \<Rightarrow> child_info list" where
  "listing_from a b c = map child_from (take (unat (a mod 5)) [b, c, b XOR c, b + c])"

definition list_turn :: "inode \<Rightarrow> child_info list \<Rightarrow> inode_table \<times> inode list \<Rightarrow> (inode_table \<times> inode list) option" where
  "list_turn p cs ts =
     (case ts of (t, seen) \<Rightarrow>
        (let t = sync_children p cs t
         in case those (map (\<lambda>i. map_option ie_name (entries t i)) (children t p)) of
              None \<Rightarrow> None
            | Some listed \<Rightarrow> check (sort listed = remdups_adj (sort (map ci_name cs))) (t, seen @ children t p)))"

definition rename_turn :: "inode \<Rightarrow> inode \<Rightarrow> string \<Rightarrow> inode_table \<times> inode list \<Rightarrow> (inode_table \<times> inode list) option" where
  "rename_turn i p n ts =
     (case ts of (t, seen) \<Rightarrow>
        (if entry_is (\<lambda>e. movable (ie_kind e)) i t \<and> entry_is is_dir p t \<and> \<not> is_at_or_below 1024 t p i then
           (let t = rename_entry i p n t in check (lookup t p n = Some i) (t, seen))
         else Some (t, seen)))"

definition event_case :: "inode list \<Rightarrow> object_handle \<Rightarrow> inode_table \<times> inode list \<Rightarrow> (inode_table \<times> inode list) option" where
  "event_case order h ts =
     (case ts of (t, seen) \<Rightarrow>
        (case find_parent_by_handle order t h of
           None \<Rightarrow> Some (t, seen)
         | Some parent \<Rightarrow>
             check (list_ex (\<lambda>i. entry_is (\<lambda>e. ie_parent e = parent \<and> has_handle h e) i t) seen) (t, seen)))"

definition lookup_turn :: "inode \<Rightarrow> string \<Rightarrow> inode_table \<times> inode list \<Rightarrow> (inode_table \<times> inode list) option" where
  "lookup_turn p n ts =
     (case ts of (t, seen) \<Rightarrow>
        (case lookup t p n of
           None \<Rightarrow> Some (t, seen)
         | Some i \<Rightarrow> check (entry_is (\<lambda>e. (ie_parent e, ie_name e) = (p, n)) i t) (t, seen)))"

text \<open>\<open>order\<close> is the order in which the entries' hash map is iterated.\<close>

definition inode_turn ::
  "(inode_table \<Rightarrow> inode list) \<Rightarrow> byte list \<Rightarrow> inode_table \<times> inode list \<Rightarrow> (inode_table \<times> inode list) option" where
  "inode_turn order step ts =
     (case ts of (t, seen) \<Rightarrow>
        (let a = step ! 1; b = step ! 2; c = step ! 3; k = unat (step ! 0) mod 8
         in if k = 0 then
              (let (i, t) = add_storage_at (ucast a) (name_of b) 0 t in Some (t, seen @ [i]))
            else if k = 1 then
              (if entry_is is_dir (pick seen a) t then
                 (let (i, t) = add_object (pick seen a) (ucast b) (name_of c) (c AND 1 = 1) 0 0 t in Some (t, seen @ [i]))
               else Some (t, seen))
            else if k = 2 then
              (if entry_is is_dir (pick seen a) t then list_turn (pick seen a) (listing_from a b c) (t, seen)
               else Some (t, seen))
            else if k = 3 then
              (if entry_is (\<lambda>e. movable (ie_kind e)) (pick seen a) t then
                 (let t = snd (remove_entry (pick seen a) t) in check (entries t (pick seen a) = None) (t, seen))
               else Some (t, seen))
            else if k = 4 then rename_turn (pick seen a) (pick seen b) (name_of c) (t, seen)
            else if k = 5 then
              (let i = pick seen a; t = set_handle i (ucast b) (bump_generation t)
               in check (entries t i = None \<or> is_fresh t i) (t, seen))
            else if k = 6 then event_case (order t) (ucast a) (t, seen)
            else lookup_turn (pick seen a) (name_of b) (t, seen)))"

definition inode_step ::
  "(inode_table \<Rightarrow> inode list) \<Rightarrow> byte list \<Rightarrow> inode_table \<times> inode list \<Rightarrow> (inode_table \<times> inode list) option" where
  "inode_step order step ts = Option.bind (inode_turn order step ts) check_indexes"

definition fuzz_inode_table :: "(inode_table \<Rightarrow> inode list) \<Rightarrow> byte list \<Rightarrow> (inode_table \<times> inode list) option" where
  "fuzz_inode_table order data = run_steps (inode_step order) (take 256 (chunks_exact 4 data)) (it_new, [ROOT_INODE])"

section \<open>Climbing the tree\<close>

text \<open>The loop's bound is enough: a shortest way up repeats no entry.\<close>

fun up :: "inode_table \<Rightarrow> nat \<Rightarrow> inode \<Rightarrow> inode option" where
  "up t 0 j = Some j"
| "up t (Suc n) j = Option.bind (parent_of t j) (up t n)"

lemma up_add: "up t (a + b) j = Option.bind (up t a j) (up t b)"
  by (induction a arbitrary: j) (auto split: bind_splits)

lemma below_up: "at_or_below t i j \<Longrightarrow> \<exists>n. up t n j = Some i"
proof (induction rule: at_or_below.induct)
  case itself
  show ?case by (rule exI [of _ 0]) simp
next
  case (below j p)
  then obtain n where "up t n p = Some i" by blast
  then show ?case using below(1) by (intro exI [of _ "Suc n"]) simp
qed

lemma up_found: "up t n j = Some i \<Longrightarrow> n < turns \<Longrightarrow> is_at_or_below turns t j i"
proof (induction turns arbitrary: n j)
  case (Suc turns)
  show ?case
  proof (cases n)
    case 0
    then show ?thesis using Suc.prems by simp
  next
    case (Suc m)
    then obtain p where "parent_of t j = Some p" "up t m p = Some i"
      using Suc.prems(1) by (auto split: bind_splits)
    then show ?thesis
      using Suc.IH [of m p] Suc.prems(2) Suc by (auto simp: parent_of_def split: option.splits if_splits)
  qed
qed simp

lemma shortest_way:
  assumes wf: "tab_wf t" and "at_or_below t i j"
  shows "\<exists>n. up t n j = Some i \<and> n \<le> unat (next_inode t)"
proof -
  define n where "n = (LEAST n. up t n j = Some i)"
  have n: "up t n j = Some i" unfolding n_def by (rule LeastI_ex) (rule below_up [OF assms(2)])
  have least: "n \<le> m" if "up t m j = Some i" for m unfolding n_def using that by (rule Least_le)
  have rest: "\<exists>x. up t m j = Some x \<and> up t (n - m) x = Some i" if "m < n" for m
    using n up_add [of t m "n - m" j] that by (auto split: bind_splits)
  have inj: "inj_on (\<lambda>m. up t m j) {..<n}"
  proof (rule linorder_inj_onI)
    fix a b assume ab: "a < b" "a \<in> {..<n}" "b \<in> {..<n}"
    show "up t a j \<noteq> up t b j"
    proof
      assume eq: "up t a j = up t b j"
      obtain x where "up t b j = Some x" "up t (n - b) x = Some i" using rest [of b] ab by auto
      then have "up t (a + (n - b)) j = Some i" by (simp add: up_add eq)
      then show False using least [of "a + (n - b)"] ab by simp
    qed
  qed auto
  have "(\<lambda>m. up t m j) ` {..<n} \<subseteq> (\<lambda>k. Some (of_nat k)) ` {..<unat (next_inode t)}"
  proof clarsimp
    fix m assume "m < n"
    then obtain x where x: "up t m j = Some x" "up t (n - m) x = Some i" using rest by blast
    then obtain e where "entries t x = Some e"
      using \<open>m < n\<close> by (cases "n - m") (auto simp: parent_of_def split: bind_splits option.splits)
    then have "x < next_inode t" using tab_wf_entry [OF wf] by blast
    then have "unat x < unat (next_inode t)" by (simp add: word_less_unat)
    then show "up t m j \<in> (\<lambda>k. Some (of_nat k)) ` {..<unat (next_inode t)}"
      using x(1) by (intro image_eqI [of _ _ "unat x"]) simp_all
  qed
  then have "card ((\<lambda>m. up t m j) ` {..<n}) \<le> card ((\<lambda>k. Some (of_nat k :: inode)) ` {..<unat (next_inode t)})"
    by (intro card_mono) auto
  also have "\<dots> \<le> unat (next_inode t)" using card_image_le [of "{..<unat (next_inode t)}"] by simp
  finally have "n \<le> unat (next_inode t)" by (simp add: card_image inj)
  with n show ?thesis by blast
qed

lemma climb_is_complete:
  assumes "tab_wf t" and "unat (next_inode t) < turns" and "at_or_below t i j"
  shows "is_at_or_below turns t j i"
  using shortest_way [OF assms(1,3)] up_found assms(2) by fastforce

section \<open>No check fails\<close>

definition tracked_table :: "nat \<Rightarrow> inode_table \<times> inode list \<Rightarrow> bool" where
  "tracked_table k ts \<longleftrightarrow>
     (case ts of (t, seen) \<Rightarrow> tab_step\<^sup>*\<^sup>* it_new t \<and> (\<forall>i. entries t i \<noteq> None \<longrightarrow> i \<in> set seen) \<and>
        unat (next_inode t) + 4 * k \<le> 1026)"

text \<open>What one turn may do to the table and to the list of numbers seen.\<close>

lemma tracked_turn:
  assumes "tracked_table (Suc k) (t, seen)" and "tab_step\<^sup>*\<^sup>* t t'" and "unat (next_inode t') \<le> unat (next_inode t) + 4"
    and "\<And>i. entries t' i \<noteq> None \<Longrightarrow> i \<in> set seen \<Longrightarrow> i \<in> set seen'"
    and "\<And>i. entries t' i \<noteq> None \<Longrightarrow> i \<notin> set seen \<Longrightarrow> entries t i = None \<Longrightarrow> i \<in> set seen'"
  shows "tracked_table k (t', seen')"
  using assms by (auto simp: tracked_table_def intro: rtranclp_trans)

lemma tracked_same: "tracked_table (Suc k) ts \<Longrightarrow> tracked_table k ts"
  by (auto simp: tracked_table_def)

lemma tracked_facts:
  assumes "tracked_table k (t, seen)"
  shows "tab_wf t" and "\<not> child_of t p p" and "unat (next_inode t) + 4 * k \<le> 1026" and "tab_step\<^sup>*\<^sup>* it_new t"
    and "entries t i \<noteq> None \<Longrightarrow> i \<in> set seen" and "seen \<noteq> []"
proof -
  show r: "tab_step\<^sup>*\<^sup>* it_new t" using assms by (simp add: tracked_table_def)
  show wf: "tab_wf t" by (rule tab_reach_wf [OF r])
  show "\<not> child_of t p p" by (rule own_child [OF r])
  show "unat (next_inode t) + 4 * k \<le> 1026" "entries t i \<noteq> None \<Longrightarrow> i \<in> set seen"
    using assms by (simp_all add: tracked_table_def)
  show "seen \<noteq> []" using tab_wf_root [OF wf] assms by (auto simp: tracked_table_def)
qed

lemma filter_once: "distinct xs \<Longrightarrow> x \<in> set xs \<Longrightarrow> filter (\<lambda>c. c = x) xs = [x]"
  by (induction xs) (auto simp: filter_empty_conv)

lemma index_passes:
  assumes wf: "tab_wf t"
  shows "index_ok t i"
proof (cases "entries t i")
  case (Some e)
  have kids: "entry_is (\<lambda>ce. ie_parent ce = i) c t" if "c \<in> set (children t i)" for c
    using tab_wf_child [OF wf that] by (auto simp: child_of_def sits_def entry_is_def)
  show ?thesis
  proof (cases "i = ROOT_INODE \<or> entries t (ie_parent e) = None")
    case False
    then have s: "sits t (ie_parent e) (ie_name e) i" using Some by (auto simp: sits_def)
    then have "i \<in> set (children t (ie_parent e))"
      using False by (intro tab_wf_listed [OF wf]) (auto simp: child_of_def)
    then show ?thesis
      using tab_wf_lookup [OF wf] s kids filter_once [OF tab_wf_distinct [OF wf]]
      by (simp add: index_ok_def Some list_all_iff)
  qed (auto simp: index_ok_def Some)
qed (simp add: index_ok_def)

lemma check_indexes_passes: "tracked_table k ts \<Longrightarrow> check_indexes ts = Some ts"
  using index_passes tracked_facts(1) [of k "fst ts" "snd ts"] by (simp add: check_indexes_def check_def list_all_iff)

subsection \<open>Each turn\<close>

definition passes :: "nat \<Rightarrow> (inode_table \<times> inode list) option \<Rightarrow> bool" where
  "passes k r \<longleftrightarrow> (\<exists>ts. r = Some ts \<and> tracked_table k ts)"

lemma passesI [intro]: "tracked_table k ts \<Longrightarrow> passes k (Some ts)"
  by (simp add: passes_def)

lemma entry_is_live: "entry_is P i t \<Longrightarrow> \<exists>e. entries t i = Some e \<and> P e"
  by (auto simp: entry_is_def split: option.splits)

lemma root_not_movable: "tab_wf t \<Longrightarrow> entry_is (\<lambda>e. movable (ie_kind e)) i t \<Longrightarrow> i \<noteq> ROOT_INODE"
  using tab_wf_root [of t] by (auto simp: entry_is_def movable_def)

lemma room_small: "unat (next_inode t) + 4 * Suc k \<le> 1026 \<Longrightarrow> n \<le> 4 \<Longrightarrow> room n t"
  by (simp add: room_def)

text \<open>A new entry.\<close>

lemma inserted_turn:
  assumes tr: "tracked_table (Suc k) (t, seen)" and e: "ie_inode e = next_inode t" "ie_kind e \<noteq> Root" "ie_parent e < next_inode t"
    and add: "insert_entry e (t\<lparr>next_inode := next_inode t + 1\<rparr>) = (i, t')" and step: "tab_step t t'"
  shows "passes k (Some (t', seen @ [i]))"
proof -
  note f = tracked_facts [OF tr]
  have "placed (next_inode t) e (t\<lparr>next_inode := next_inode t + 1\<rparr>) t'"
    using new_number(2) [OF f(1) room_small [OF f(3)] e] add by simp
  then have ent: "\<And>j. entries t' j \<noteq> None \<Longrightarrow> j = next_inode t \<or> entries t j \<noteq> None"
      and nxt: "next_inode t' = next_inode t + 1"
    by (auto simp: placed_def split: if_splits)
  moreover have "i = next_inode t" using add e(1) by (simp add: insert_entry_def Let_def)
  moreover have "unat (next_inode t + 1) \<le> unat (next_inode t) + 1"
    by (simp add: unat_word_ariths)
  ultimately have new: "\<And>j. entries t' j \<noteq> None \<Longrightarrow> entries t j = None \<Longrightarrow> j = i"
      and le: "unat (next_inode t') \<le> unat (next_inode t) + 4"
    by (blast, simp)
  show ?thesis
    using step le new by (intro passesI tracked_turn [OF tr]) simp_all
qed

lemma storage_turn:
  assumes tr: "tracked_table (Suc k) (t, seen)" and add: "add_storage_at sid n 0 t = (i, t')"
  shows "passes k (Some (t', seen @ [i]))"
proof -
  note f = tracked_facts [OF tr]
  have rm: "room 1 t" by (rule room_small [OF f(3)]) simp
  obtain r where r: "entries t ROOT_INODE = Some r" using tab_wf_root [OF f(1)] by blast
  define e where "e = \<lparr>ie_inode = next_inode t, ie_parent = ROOT_INODE, ie_name = n, ie_kind = Storage sid,
    ie_size = 0, ie_mtime = 0, ie_atime = 0, ie_generation = generation t\<rparr>"
  have "insert_entry e (t\<lparr>next_inode := next_inode t + 1\<rparr>) = (i, t')"
    using add by (simp add: add_storage_at_def alloc_inode_def e_def)
  moreover have "tab_step t t'"
    using tab_step.storage_added [OF rm, where sid = sid and n = n and now = 0] add by simp
  moreover have "ROOT_INODE < next_inode t" using tab_wf_entry [OF f(1) r] by blast
  ultimately show ?thesis using inserted_turn [OF tr, of e] by (simp add: e_def)
qed

lemma object_turn:
  assumes tr: "tracked_table (Suc k) (t, seen)" and dir: "entry_is is_dir p t"
    and add: "add_object p h n d 0 0 t = (i, t')"
  shows "passes k (Some (t', seen @ [i]))"
proof -
  note f = tracked_facts [OF tr]
  define e where "e = \<lparr>ie_inode = next_inode t, ie_parent = p, ie_name = n,
    ie_kind = (if d then Directory h else File h), ie_size = 0, ie_mtime = 0, ie_atime = 0, ie_generation = generation t\<rparr>"
  have rm: "room 1 t" by (rule room_small [OF f(3)]) simp
  have p: "p < next_inode t" using entry_is_live [OF dir] tab_wf_entry [OF f(1)] by blast
  have "insert_entry e (t\<lparr>next_inode := next_inode t + 1\<rparr>) = (i, t')"
    using add by (simp add: add_object_def alloc_inode_def e_def)
  moreover have "tab_step t t'"
    using tab_step.object_added [OF rm p, where h = h and n = n and dir = d and sz = 0 and mtime = 0] add by simp
  ultimately show ?thesis using inserted_turn [OF tr, of e] p by (simp add: e_def)
qed

lemma removal_turn:
  assumes tr: "tracked_table (Suc k) (t, seen)" and mv: "entry_is (\<lambda>e. movable (ie_kind e)) i t"
  shows "passes k (let t = snd (remove_entry i t) in check (entries t i = None) (t, seen))"
proof -
  note f = tracked_facts [OF tr]
  obtain e where e: "entries t i = Some e" using entry_is_live [OF mv] by blast
  note obs = remove_obs [OF e]
  have "tracked_table k (snd (remove_entry i t), seen)"
    using tab_step.removed [OF root_not_movable [OF f(1) mv]]
    by (intro tracked_turn [OF tr] r_into_rtranclp) (auto simp: obs f(5) split: if_splits)
  then show ?thesis by (simp add: passes_def Let_def check_def obs)
qed

lemma rename_passes:
  assumes tr: "tracked_table (Suc k) (t, seen)"
  shows "passes k (rename_turn i p n (t, seen))"
proof (cases "entry_is (\<lambda>e. movable (ie_kind e)) i t \<and> entry_is is_dir p t \<and> \<not> is_at_or_below 1024 t p i")
  case True
  note f = tracked_facts [OF tr]
  obtain e where e: "entries t i = Some e" using True entry_is_live by blast
  have root: "i \<noteq> ROOT_INODE" using root_not_movable [OF f(1)] True by blast
  have p: "p < next_inode t" using True entry_is_live [of is_dir p t] tab_wf_entry [OF f(1)] by blast
  have below: "\<not> at_or_below t i p" using climb_is_complete [OF f(1), of 1024 i p] True f(3) by auto
  note pl = rename_entry_eq(1) [OF f(1) e root, where p = p and n = n]
  have "tracked_table k (rename_entry i p n t, seen)"
    using tab_step.renamed [OF root p below, where n = n] pl f(5) e
    by (intro tracked_turn [OF tr] r_into_rtranclp) (auto simp: placed_def split: if_splits)
  moreover have "lookup (rename_entry i p n t) p n = Some i" using pl by (simp add: placed_def)
  ultimately show ?thesis using True by (simp add: rename_turn_def passes_def check_def Let_def)
qed (use tracked_same [OF tr] in \<open>auto simp: rename_turn_def\<close>)

lemma reconnect_turn:
  assumes tr: "tracked_table (Suc k) (t, seen)"
  shows "passes k (let t = set_handle i h (bump_generation t) in check (entries t i = None \<or> is_fresh t i) (t, seen))"
proof -
  let ?t = "set_handle i h (bump_generation t)"
  note f = tracked_facts [OF tr]
  have "tab_step\<^sup>*\<^sup>* t ?t"
    using tab_step.new_session tab_step.resolved by (blast intro: rtranclp_trans)
  then have "tracked_table k (?t, seen)"
    using f(5) by (intro tracked_turn [OF tr]) (auto simp: set_handle_def split: if_splits)
  moreover have "entries ?t i = None \<or> is_fresh ?t i"
    by (cases "entries t i") (auto simp: is_fresh_def set_handle_def split: inode_kind.splits)
  ultimately show ?thesis by (simp add: passes_def check_def Let_def)
qed

lemma find_parent_holds:
  "find_parent_by_handle order t h = Some p \<Longrightarrow> \<exists>i e. entries t i = Some e \<and> has_handle h e \<and> ie_parent e = p"
  by (induction order) (auto split: option.splits if_splits)

lemma event_passes:
  assumes tr: "tracked_table (Suc k) (t, seen)"
  shows "passes k (event_case order h (t, seen))"
proof (cases "find_parent_by_handle order t h")
  case (Some p)
  obtain i e where "entries t i = Some e" "has_handle h e" "ie_parent e = p"
    using find_parent_holds [OF Some] by blast
  then show ?thesis
    using tracked_facts(5) [OF tr, of i] tracked_same [OF tr]
    by (auto simp: event_case_def Some passes_def check_def list_ex_iff entry_is_def intro!: bexI [of _ i])
qed (use tracked_same [OF tr] in \<open>auto simp: event_case_def\<close>)

lemma lookup_passes:
  assumes tr: "tracked_table (Suc k) (t, seen)"
  shows "passes k (lookup_turn p n (t, seen))"
  using tracked_same [OF tr] tab_wf_lookup [OF tracked_facts(1) [OF tr], of p n]
  by (auto simp: lookup_turn_def passes_def check_def entry_is_def sits_def split: option.split)

text \<open>A listing: the names afterwards are exactly the reported ones, once each.\<close>

lemma those_map: "(\<And>x. x \<in> set xs \<Longrightarrow> f x = Some (g x)) \<Longrightarrow> those (map f xs) = Some (map g xs)"
  by (induction xs) auto

lemma distinct_remdups_adj_sorted: "sorted (xs :: 'a :: linorder list) \<Longrightarrow> distinct (remdups_adj xs)"
  by (induction xs rule: remdups_adj.induct) auto

lemma same_names: "distinct xs \<Longrightarrow> set xs = set ys \<Longrightarrow> sort xs = remdups_adj (sort (ys :: string list))"
  by (intro sorted_distinct_set_unique) (simp_all add: distinct_remdups_adj_sorted)

lemma list_passes:
  assumes tr: "tracked_table (Suc k) (t, seen)" and dir: "entry_is is_dir p t" and len: "length cs \<le> 4"
  shows "passes k (list_turn p cs (t, seen))"
proof -
  note f = tracked_facts [OF tr]
  let ?t = "sync_children p cs t"
  define nm where "nm i = ie_name (the (entries ?t i))" for i
  have live: "entries t p \<noteq> None" using entry_is_live [OF dir] by auto
  have rm: "room (length cs) t" using room_small [OF f(3) len] .
  note sync = sync_children_facts [OF f(1) rm live f(2)]
  have kid: "sits ?t p (nm i) i \<and> map_option ie_name (entries ?t i) = Some (nm i)" if "i \<in> set (children ?t p)" for i
    using tab_wf_child [OF sync(1) that] by (auto simp: child_of_def sits_def nm_def)
  have names: "those (map (\<lambda>i. map_option ie_name (entries ?t i)) (children ?t p)) = Some (map nm (children ?t p))"
    using kid by (intro those_map) blast
  have "distinct (map nm (children ?t p))"
    using tab_wf_distinct [OF sync(1)] kid sits_unique [OF sync(1)] by (auto simp: distinct_map inj_on_def) metis
  moreover have "set (map nm (children ?t p)) = ci_name ` set cs"
  proof (intro set_eqI)
    fix n
    have "i \<in> set (children ?t p) \<and> n = nm i" if "sits ?t p n i" for i
      using that kid [of i] sits_place [OF that, of p "nm i"] tab_wf_listed [OF sync(1,10), of i]
      unfolding child_of_def by blast
    then have "n \<in> set (map nm (children ?t p)) \<longleftrightarrow> (\<exists>i. sits ?t p n i)"
      using kid by auto
    also have "\<dots> \<longleftrightarrow> lookup ?t p n \<noteq> None" using lookup_None [OF sync(1), of p n] by simp
    also have "\<dots> \<longleftrightarrow> n \<in> ci_name ` set cs" using sync(2) [of n] by simp
    finally show "n \<in> set (map nm (children ?t p)) \<longleftrightarrow> n \<in> ci_name ` set cs" .
  qed
  ultimately have sorted: "sort (map nm (children ?t p)) = remdups_adj (sort (map ci_name cs))"
    by (intro same_names) simp_all
  have new: "i \<in> set (children ?t p)" if "entries ?t i \<noteq> None" "entries t i = None" for i
  proof -
    have "i \<noteq> ROOT_INODE" using that(2) tab_wf_root [OF f(1)] by auto
    moreover from that(1) obtain e where "entries ?t i = Some e" by auto
    ultimately obtain q m where at: "sits ?t q m i" unfolding sits_def by blast
    have "q = p"
    proof (rule ccontr)
      assume "q \<noteq> p"
      then have "sits t q m i" using at sync(4) [of q m] tab_wf_lookup [OF sync(1)] tab_wf_lookup [OF f(1)] by metis
      then show False using that(2) by (auto simp: sits_def)
    qed
    then show ?thesis using at tab_wf_listed [OF sync(1,10)] by (auto simp: child_of_def)
  qed
  have "tab_step t ?t" by (rule tab_step.listed [OF rm live f(2)])
  then have "tracked_table k (?t, seen @ children ?t p)"
    using sync(9) len new by (intro tracked_turn [OF tr] r_into_rtranclp) auto
  then show ?thesis by (simp add: list_turn_def passes_def Let_def names sorted check_def)
qed

lemma inode_turn_passes:
  assumes tr: "tracked_table (Suc k) ts"
  shows "passes k (inode_turn order step ts)"
proof -
  obtain t seen where ts: "ts = (t, seen)" by fastforce
  note tr' = tr [unfolded ts]
  have len: "length (listing_from a b c) \<le> 4" for a b c by (simp add: listing_from_def)
  show ?thesis
    using storage_turn [OF tr'] object_turn [OF tr'] list_passes [OF tr' _ len] removal_turn [OF tr']
      rename_passes [OF tr'] reconnect_turn [OF tr'] event_passes [OF tr'] lookup_passes [OF tr']
      passesI [OF tracked_same [OF tr']]
    unfolding inode_turn_def ts Let_def prod.case by (auto split: prod.split)
qed

interpretation fuzzed_table: harness "inode_step order" "\<lambda>_. True" tracked_table for order
proof
  fix c k ts
  assume "tracked_table (Suc k) ts"
  from inode_turn_passes [OF this, of order c] show "\<exists>ts'. inode_step order c ts = Some ts' \<and> tracked_table k ts'"
    using check_indexes_passes by (auto simp: passes_def inode_step_def)
qed

section \<open>Properties\<close>

text \<open>
  C16. No program of the fuzz target breaks the inode table: whatever storages, creations,
  listings, removals, renames, reconnects, events and lookups the input spells, and in whatever
  order the hash map is iterated, no check fails. A listing leaves exactly the reported names, a
  renamed entry is found, a re-resolved inode is fresh, and after every step each live entry
  under a live parent is looked up by its name and listed exactly once.
\<close>

theorem no_program_breaks_the_inode_table:
  "\<exists>t seen. fuzz_inode_table order data = Some (t, seen) \<and> tab_step\<^sup>*\<^sup>* it_new t \<and>
     check_indexes (t, seen) = Some (t, seen)"
proof -
  let ?steps = "take 256 (chunks_exact 4 data)"
  have "tracked_table 256 (it_new, [ROOT_INODE])"
    by (auto simp: tracked_table_def it_new_def)
  then have "tracked_table (length ?steps + 0) (it_new, [ROOT_INODE])"
    by (auto simp: tracked_table_def)
  then obtain ts where "fuzz_inode_table order data = Some ts" "tracked_table 0 ts"
    unfolding fuzz_inode_table_def using fuzzed_table.passes [of ?steps 0] unfolding list_all_iff by blast
  moreover from this(2) have "check_indexes ts = Some ts" by (rule check_indexes_passes)
  ultimately show ?thesis by (cases ts) (simp add: tracked_table_def)
qed

end
