(* ===== verification/Test_Inode.thy ===== *)
theory Test_Inode
  imports Inode
begin

text \<open>
  The unit tests of \<open>src/src/inode.rs\<close>, each as the condition its assertions state of the
  model, for whatever time the clock shows. That every one of them holds is a check of the
  model against what the repository's authors expect of the table.
\<close>

section \<open>Assertions\<close>

text \<open>\<open>unwrap()\<close> before an assertion: a \<open>None\<close> fails the test.\<close>

fun unwrapped :: "'a option \<Rightarrow> ('a \<Rightarrow> bool) \<Rightarrow> bool" where
  "unwrapped None p = False"
| "unwrapped (Some x) p = p x"

definition internal :: "time \<Rightarrow> inode \<times> inode_table" where
  "internal now = add_storage_at 1 ''Internal'' now it_new"

section \<open>Entries\<close>

definition test_new_has_root :: bool where
  "test_new_has_root =
     unwrapped (entries it_new ROOT_INODE) (\<lambda>root. ie_inode root = ROOT_INODE \<and> ie_kind root = Root \<and> is_dir root)"

definition test_add_storage :: "time \<Rightarrow> bool" where
  "test_add_storage now =
     (case internal now of (ino, table) \<Rightarrow>
        ino = 2 \<and> unwrapped (entries table ino) (\<lambda>entry. ie_name entry = ''Internal'' \<and> ie_kind entry = Storage 1 \<and>
          ie_parent entry = ROOT_INODE \<and> is_dir entry))"

definition test_add_object_file :: "time \<Rightarrow> bool" where
  "test_add_object_file now =
     (case internal now of (storage_ino, table) \<Rightarrow>
      case add_object storage_ino 100 ''photo.jpg'' False 4096 0 table of (file_ino, table) \<Rightarrow>
        unwrapped (entries table file_ino) (\<lambda>entry. ie_name entry = ''photo.jpg'' \<and> ie_kind entry = File 100 \<and>
          ie_size entry = 4096 \<and> ie_parent entry = storage_ino \<and> \<not> is_dir entry))"

definition test_add_object_directory :: "time \<Rightarrow> bool" where
  "test_add_object_directory now =
     (case internal now of (storage_ino, table) \<Rightarrow>
      case add_object storage_ino 200 ''DCIM'' True 0 0 table of (dir_ino, table) \<Rightarrow>
        unwrapped (entries table dir_ino) (\<lambda>entry. ie_kind entry = Directory 200 \<and> is_dir entry))"

definition test_lookup_by_name :: "time \<Rightarrow> bool" where
  "test_lookup_by_name now =
     (case internal now of (storage_ino, table) \<Rightarrow>
      case add_object storage_ino 100 ''photo.jpg'' False 1024 0 table of (file_ino, table) \<Rightarrow>
        lookup table storage_ino ''photo.jpg'' = Some file_ino \<and> lookup table ROOT_INODE ''Internal'' = Some storage_ino)"

definition test_lookup_nonexistent :: bool where
  "test_lookup_nonexistent \<longleftrightarrow> lookup it_new ROOT_INODE ''nope'' = None \<and> entries it_new 999 = None"

definition test_children :: "time \<Rightarrow> bool" where
  "test_children now =
     (case internal now of (s1, table) \<Rightarrow>
      case add_storage_at 2 ''SD Card'' now table of (s2, table) \<Rightarrow>
        children table ROOT_INODE = [s1, s2] \<and>
     (case add_object s1 10 ''a.txt'' False 100 0 table of (f1, table) \<Rightarrow>
      case add_object s1 11 ''b.txt'' False 200 0 table of (f2, table) \<Rightarrow>
        children table s1 = [f1, f2] \<and> children table s2 = []))"

definition test_remove :: "time \<Rightarrow> bool" where
  "test_remove now =
     (case internal now of (storage_ino, table) \<Rightarrow>
      case add_object storage_ino 100 ''photo.jpg'' False 1024 0 table of (file_ino, table) \<Rightarrow>
      case remove_entry file_ino table of (removed, table) \<Rightarrow>
        unwrapped removed (\<lambda>removed. ie_name removed = ''photo.jpg'') \<and> entries table file_ino = None \<and>
        lookup table storage_ino ''photo.jpg'' = None \<and> children table storage_ino = [])"

definition test_rename :: "time \<Rightarrow> bool" where
  "test_rename now =
     (case internal now of (s1, table) \<Rightarrow>
      case add_object s1 200 ''DCIM'' True 0 0 table of (dir_ino, table) \<Rightarrow>
      case add_object s1 100 ''old.txt'' False 512 0 table of (file_ino, table) \<Rightarrow>
        (let table = rename_entry file_ino dir_ino ''new.txt'' table in
         lookup table s1 ''old.txt'' = None \<and> lookup table dir_ino ''new.txt'' = Some file_ino \<and>
         unwrapped (entries table file_ino) (\<lambda>entry. ie_parent entry = dir_ino \<and> ie_name entry = ''new.txt'') \<and>
         file_ino \<notin> set (children table s1) \<and> file_ino \<in> set (children table dir_ino)))"

section \<open>Listings\<close>

text \<open>\<open>child\<close> of the tests.\<close>

definition child :: "object_handle \<Rightarrow> string \<Rightarrow> bool \<Rightarrow> u64 \<Rightarrow> child_info" where
  "child handle name dir sz =
     \<lparr>ci_handle = handle, ci_name = name, ci_is_dir = dir, ci_size = sz, ci_mtime = 0\<rparr>"

definition test_sync_children_keeps_inode_numbers_stable :: "time \<Rightarrow> bool" where
  "test_sync_children_keeps_inode_numbers_stable now =
     (case internal now of (storage_ino, table) \<Rightarrow>
        (let table = sync_children storage_ino [child 10 ''a.txt'' False 100, child 11 ''b.txt'' False 200] table in
         unwrapped (lookup table storage_ino ''a.txt'') (\<lambda>a.
           let table = sync_children storage_ino [child 77 ''a.txt'' False 150, child 78 ''b.txt'' False 200] table in
           lookup table storage_ino ''a.txt'' = Some a \<and>
           unwrapped (entries table a) (\<lambda>entry. ie_kind entry = File 77 \<and> ie_size entry = 150))))"

definition test_sync_children_adds_and_removes :: "time \<Rightarrow> bool" where
  "test_sync_children_adds_and_removes now =
     (case internal now of (storage_ino, table) \<Rightarrow>
        (let table = sync_children storage_ino [child 10 ''stays.txt'' False 1, child 11 ''goes.txt'' False 2] table in
         unwrapped (lookup table storage_ino ''goes.txt'') (\<lambda>goes.
           let table = sync_children storage_ino [child 10 ''stays.txt'' False 1, child 12 ''new.txt'' False 3] table in
           entries table goes = None \<and> lookup table storage_ino ''goes.txt'' = None \<and>
           lookup table storage_ino ''new.txt'' \<noteq> None \<and> length (children table storage_ino) = 2)))"

definition test_sync_children_replaces_when_kind_flips :: "time \<Rightarrow> bool" where
  "test_sync_children_replaces_when_kind_flips now =
     (case internal now of (storage_ino, table) \<Rightarrow>
        (let table = sync_children storage_ino [child 10 ''thing'' False 5] table in
         unwrapped (lookup table storage_ino ''thing'') (\<lambda>file_ino.
           let table = sync_children storage_ino [child 11 ''thing'' True 0] table in
           unwrapped (lookup table storage_ino ''thing'') (\<lambda>dir_ino.
             dir_ino \<noteq> file_ino \<and> unwrapped (entries table dir_ino) is_dir))))"

definition test_generation_marks_handles_stale :: "time \<Rightarrow> bool" where
  "test_generation_marks_handles_stale now =
     (case internal now of (storage_ino, table) \<Rightarrow>
        (let table = sync_children storage_ino [child 10 ''a.txt'' False 100] table in
         unwrapped (lookup table storage_ino ''a.txt'') (\<lambda>a.
           is_fresh table a \<and>
           (let table = bump_generation table in
            \<not> is_fresh table a \<and> is_fresh table storage_ino \<and> is_fresh table ROOT_INODE \<and>
            (let table = set_handle a 999 table in
             is_fresh table a \<and> unwrapped (entries table a) (\<lambda>entry. ie_kind entry = File 999))))))"

definition test_set_storage_id_remaps_in_place :: "time \<Rightarrow> bool" where
  "test_set_storage_id_remaps_in_place now =
     (case internal now of (storage_ino, table) \<Rightarrow>
        unwrapped (entries (set_storage_id storage_ino 42 table) storage_ino) (\<lambda>entry. ie_kind entry = Storage 42))"

section \<open>Trees\<close>

definition test_inode_uniqueness :: "time \<Rightarrow> bool" where
  "test_inode_uniqueness now =
     (case add_storage_at 1 ''A'' now it_new of (a, table) \<Rightarrow>
      case add_storage_at 2 ''B'' now table of (b, table) \<Rightarrow>
      case add_object a 1 ''x'' False 0 0 table of (x, table) \<Rightarrow>
      case add_object a 2 ''y'' True 0 0 table of (y, table) \<Rightarrow>
        (let inodes = [ROOT_INODE, a, b, x, y] in length (remdups inodes) = length inodes))"

definition test_nested_directories :: "time \<Rightarrow> bool" where
  "test_nested_directories now =
     (case internal now of (storage_ino, table) \<Rightarrow>
      case add_object storage_ino 1 ''DCIM'' True 0 0 table of (dcim, table) \<Rightarrow>
      case add_object dcim 2 ''Camera'' True 0 0 table of (camera, table) \<Rightarrow>
      case add_object camera 3 ''IMG_001.jpg'' False 8192 0 table of (photo, table) \<Rightarrow>
        storage_ino \<in> set (children table ROOT_INODE) \<and> dcim \<in> set (children table storage_ino) \<and>
        camera \<in> set (children table dcim) \<and> photo \<in> set (children table camera) \<and>
        lookup table ROOT_INODE ''Internal'' = Some storage_ino \<and> lookup table storage_ino ''DCIM'' = Some dcim \<and>
        lookup table dcim ''Camera'' = Some camera \<and> lookup table camera ''IMG_001.jpg'' = Some photo \<and>
        unwrapped (entries table photo) (\<lambda>entry. ie_parent entry = camera \<and> ie_size entry = 8192))"

definition test_get_mut :: "time \<Rightarrow> bool" where
  "test_get_mut now =
     (case internal now of (storage_ino, table) \<Rightarrow>
      case add_object storage_ino 1 ''f.txt'' False 100 0 table of (file_ino, table) \<Rightarrow>
        (let table = update_entry file_ino (\<lambda>e. e\<lparr>ie_size := 999\<rparr>) table in
         unwrapped (entries table file_ino) (\<lambda>entry. ie_size entry = 999)))"

definition test_rename_over_existing_name_replaces_it :: "time \<Rightarrow> bool" where
  "test_rename_over_existing_name_replaces_it now =
     (case internal now of (storage, table) \<Rightarrow>
      case add_object storage 1 ''a'' False 1 0 table of (a, table) \<Rightarrow>
      case add_object storage 2 ''b'' False 2 0 table of (b, table) \<Rightarrow>
        (let table = rename_entry a storage ''b'' table in
         lookup table storage ''b'' = Some a \<and> children table storage = [a] \<and> entries table b = None))"

definition test_add_object_over_existing_name_replaces_it :: "time \<Rightarrow> bool" where
  "test_add_object_over_existing_name_replaces_it now =
     (case internal now of (storage, table) \<Rightarrow>
      case add_object storage 1 ''a'' False 1 0 table of (old, table) \<Rightarrow>
      case add_object storage 2 ''a'' True 0 0 table of (new, table) \<Rightarrow>
        lookup table storage ''a'' = Some new \<and> children table storage = [new] \<and> entries table old = None)"

definition test_rename_to_the_same_place_keeps_the_entry :: "time \<Rightarrow> bool" where
  "test_rename_to_the_same_place_keeps_the_entry now =
     (case internal now of (storage, table) \<Rightarrow>
      case add_object storage 1 ''a'' False 1 0 table of (a, table) \<Rightarrow>
        (let table = rename_entry a storage ''a'' table in
         lookup table storage ''a'' = Some a \<and> children table storage = [a]))"

section \<open>The tests pass\<close>

text \<open>The bodies wait for what they bind: the table is a value before anything looks at it.\<close>

lemma unwrapped_cong: "x = y \<Longrightarrow> unwrapped x p = unwrapped y p"
  by simp

lemmas inode_test_eval = internal_def table_eval is_dir_def remove_entry_def rename_entry_def sync_children_def
  sync_child_def add_child_def child_def gone_children_def remove_all_def update_entry_def refresh_child_def
  is_fresh_def bump_generation_def set_handle_def set_storage_id_def

lemma inode_entry_tests_pass:
  "test_new_has_root" "test_add_storage now" "test_add_object_file now" "test_add_object_directory now"
  "test_lookup_by_name now" "test_lookup_nonexistent" "test_children now" "test_remove now"
  by (simp_all add: test_new_has_root_def test_add_storage_def test_add_object_file_def
      test_add_object_directory_def test_lookup_by_name_def test_lookup_nonexistent_def test_children_def
      test_remove_def inode_test_eval del: Let_def cong: unwrapped_cong)

lemma inode_rename_test_passes: "test_rename now"
  unfolding test_rename_def by (simp add: inode_test_eval del: Let_def cong: unwrapped_cong)

lemma inode_listing_tests_pass:
  "test_sync_children_keeps_inode_numbers_stable now" "test_sync_children_adds_and_removes now"
  "test_sync_children_replaces_when_kind_flips now" "test_generation_marks_handles_stale now"
  "test_set_storage_id_remaps_in_place now"
  by (simp_all add: test_sync_children_keeps_inode_numbers_stable_def test_sync_children_adds_and_removes_def
      test_sync_children_replaces_when_kind_flips_def test_generation_marks_handles_stale_def
      test_set_storage_id_remaps_in_place_def inode_test_eval del: Let_def cong: unwrapped_cong)

lemma inode_tree_tests_pass:
  "test_inode_uniqueness now" "test_nested_directories now" "test_get_mut now"
  "test_rename_over_existing_name_replaces_it now" "test_add_object_over_existing_name_replaces_it now"
  "test_rename_to_the_same_place_keeps_the_entry now"
  by (simp_all add: test_inode_uniqueness_def test_nested_directories_def test_get_mut_def
      test_rename_over_existing_name_replaces_it_def test_add_object_over_existing_name_replaces_it_def
      test_rename_to_the_same_place_keeps_the_entry_def inode_test_eval del: Let_def cong: unwrapped_cong)

end
