(* ===== verification/Test_Cache.thy ===== *)
theory Test_Cache
  imports Sparse_Cache "HOL-Library.Sublist"
begin

text \<open>
  The unit tests of \<open>src/src/ranges.rs\<close> and \<open>src/src/sparse_cache.rs\<close> as conditions on
  the model, and that they hold. The disk of the tests never fails; a thread that waits for a
  range is given the states of the cache it finds, as in \<open>wait_and_read\<close>.
\<close>

section \<open>The range set\<close>

definition adjacent_and_overlapping_ranges_merge :: bool where
  "adjacent_and_overlapping_ranges_merge =
     (let set = insert_range (insert_range (insert_range rs_new (Range 10 20)) (Range 30 40)) (Range 20 25) in
      as_slice set = [Range 10 25, Range 30 40] \<and> as_slice (insert_range set (Range 24 31)) = [Range 10 40])"

definition an_empty_range_adds_nothing :: bool where
  "an_empty_range_adds_nothing =
     (let set = insert_range rs_new (Range 5 5) in as_slice set = [] \<and> missing set 0 10 10 = [Range 0 10])"

definition missing_is_clipped_to_the_limit :: bool where
  "missing_is_clipped_to_the_limit =
     (let set = insert_range rs_new (Range 2 4) in
      missing set 0 100 6 = [Range 0 2, Range 4 6] \<and> missing set 6 10 6 = [])"

lemmas range_eval = insert_range_def range_is_empty_def insertion_point_def insert_at_def rs_new_def as_slice_def
  missing_def saturating_add_def word_le_nat_alt word_less_nat_alt min_def

lemma range_tests_pass:
  "adjacent_and_overlapping_ranges_merge" "an_empty_range_adds_nothing" "missing_is_clipped_to_the_limit"
  by (simp_all add: adjacent_and_overlapping_ranges_merge_def an_empty_range_adds_nothing_def
      missing_is_clipped_to_the_limit_def range_eval)

section \<open>Set-up of the cache tests\<close>

text \<open>\<open>b"..."\<close>\<close>

definition ascii :: "string \<Rightarrow> byte list" where
  "ascii = map of_char"

text \<open>\<open>SparseCache::new(..).unwrap()\<close> and \<open>write_at(..).unwrap()\<close>, before the rest of a test.\<close>

definition with_cache :: "u64 \<Rightarrow> (sparse_cache \<Rightarrow> bool) \<Rightarrow> bool" where
  "with_cache tot rest = (case sc_new IoOk IoOk tot of Inl e \<Rightarrow> False | Inr c \<Rightarrow> rest c)"

definition after_write :: "u64 \<Rightarrow> byte list \<Rightarrow> sparse_cache \<Rightarrow> (sparse_cache \<Rightarrow> bool) \<Rightarrow> bool" where
  "after_write off bs c rest = (case sc_write_at IoOk c off bs of (Inl e, c) \<Rightarrow> False | (Inr u, c) \<Rightarrow> rest c)"

definition populated_ranges :: "sparse_cache \<Rightarrow> range list" where
  "populated_ranges c = as_slice (sc_ranges c)"

text \<open>\<open>&[0u8; n]\<close>\<close>

definition zeros :: "nat \<Rightarrow> byte list" where
  "zeros n = replicate n 0"

lemma zeros_simps [simp]: "length (zeros n) = n" "zeros n = [] \<longleftrightarrow> n = 0"
  by (simp_all add: zeros_def)

lemma with_cache_eq:
  "with_cache tot rest = rest \<lparr>sc_file = sf_set_len (unat tot) sf_new, sc_ranges = rs_new, sc_total = tot\<rparr>"
  by (simp add: with_cache_def sc_new_def)

lemma after_write_eq:
  assumes "bs \<noteq> []" and "unat off + length bs \<le> unat (sc_total c)"
  shows "after_write off bs c rest \<longleftrightarrow>
    rest (c\<lparr>sc_file := sf_put (sc_file c) (unat off) bs,
            sc_ranges := insert_range (sc_ranges c) (Range off (off + of_nat (length bs)))\<rparr>)"
proof -
  have "checked_add off (length bs) = Some (off + of_nat (length bs))"
    using assms(2) unat_u64_less [of "sc_total c"] by (simp add: checked_add_def)
  moreover from checked_add_SomeD [OF this] have "\<not> sc_total c < off + of_nat (length bs)"
    using assms(2) by (simp add: word_less_unat)
  ultimately show ?thesis using assms(1) by (simp add: after_write_def sc_write_at_def)
qed

lemma after_write_cong: "c = c' \<Longrightarrow> after_write off bs c rest = after_write off bs c' rest"
  by simp

section \<open>Missing ranges\<close>

definition missing_ranges_empty_cache :: bool where
  "missing_ranges_empty_cache = with_cache 1000 (\<lambda>cache.
     sc_missing_ranges cache 0 100 = [Range 0 100] \<and> sc_missing_ranges cache 500 100 = [Range 500 600])"

definition missing_ranges_full_hit :: bool where
  "missing_ranges_full_hit = with_cache 1000 (\<lambda>cache. after_write 0 (zeros 500) cache (\<lambda>cache.
     sc_missing_ranges cache 100 200 = [] \<and> sc_missing_ranges cache 0 500 = []))"

definition missing_ranges_partial_hit_at_start :: bool where
  "missing_ranges_partial_hit_at_start = with_cache 1000 (\<lambda>cache. after_write 0 (zeros 100) cache (\<lambda>cache.
     sc_missing_ranges cache 0 200 = [Range 100 200]))"

definition missing_ranges_partial_hit_at_end :: bool where
  "missing_ranges_partial_hit_at_end = with_cache 1000 (\<lambda>cache. after_write 100 (zeros 100) cache (\<lambda>cache.
     sc_missing_ranges cache 0 200 = [Range 0 100]))"

definition missing_ranges_gap_in_middle :: bool where
  "missing_ranges_gap_in_middle = with_cache 1000 (\<lambda>cache. after_write 0 (zeros 100) cache (\<lambda>cache.
     after_write 200 (zeros 100) cache (\<lambda>cache. sc_missing_ranges cache 0 300 = [Range 100 200])))"

definition missing_ranges_multiple_gaps :: bool where
  "missing_ranges_multiple_gaps = with_cache 1000 (\<lambda>cache. after_write 100 (zeros 50) cache (\<lambda>cache.
     after_write 300 (zeros 50) cache (\<lambda>cache.
       sc_missing_ranges cache 0 400 = [Range 0 100, Range 150 300, Range 350 400])))"

definition missing_ranges_clips_to_total_size :: bool where
  "missing_ranges_clips_to_total_size = with_cache 500 (\<lambda>cache.
     sc_missing_ranges cache 400 1000 = [Range 400 500] \<and>
     after_write 400 (zeros 100) cache (\<lambda>cache. sc_missing_ranges cache 400 1000 = []))"

definition missing_ranges_offset_past_end :: bool where
  "missing_ranges_offset_past_end = with_cache 100 (\<lambda>cache. sc_missing_ranges cache 200 100 = [])"

definition write_past_advertised_size_is_rejected_without_marking_bytes :: bool where
  "write_past_advertised_size_is_rejected_without_marking_bytes = with_cache 4 (\<lambda>cache.
     case sc_write_at IoOk cache 2 (ascii ''abc'') of
       (Inl (IoError InvalidData m), cache) \<Rightarrow> sc_missing_ranges cache 0 4 = [Range 0 4]
     | _ \<Rightarrow> False)"

section \<open>Populated ranges\<close>

definition adjacent_ranges_merge :: bool where
  "adjacent_ranges_merge = with_cache 1000 (\<lambda>cache. after_write 0 (zeros 100) cache (\<lambda>cache.
     after_write 100 (zeros 100) cache (\<lambda>cache. populated_ranges cache = [Range 0 200])))"

definition overlapping_ranges_merge :: bool where
  "overlapping_ranges_merge = with_cache 1000 (\<lambda>cache. after_write 0 (zeros 100) cache (\<lambda>cache.
     after_write 50 (zeros 100) cache (\<lambda>cache. populated_ranges cache = [Range 0 150])))"

definition disjoint_ranges_preserved :: bool where
  "disjoint_ranges_preserved = with_cache 1000 (\<lambda>cache. after_write 0 (zeros 100) cache (\<lambda>cache.
     after_write 500 (zeros 100) cache (\<lambda>cache. populated_ranges cache = [Range 0 100, Range 500 600])))"

definition insertion_sorted :: bool where
  "insertion_sorted = with_cache 1000 (\<lambda>cache. after_write 500 (zeros 100) cache (\<lambda>cache.
     after_write 0 (zeros 100) cache (\<lambda>cache. after_write 300 (zeros 50) cache (\<lambda>cache.
       populated_ranges cache = [Range 0 100, Range 300 350, Range 500 600]))))"

definition three_way_merge :: bool where
  "three_way_merge = with_cache 1000 (\<lambda>cache. after_write 0 (zeros 100) cache (\<lambda>cache.
     after_write 200 (zeros 100) cache (\<lambda>cache. after_write 100 (zeros 100) cache (\<lambda>cache.
       populated_ranges cache = [Range 0 300]))))"

section \<open>Reading back\<close>

definition write_read_roundtrip :: bool where
  "write_read_roundtrip = with_cache 1000 (\<lambda>cache.
     let written = map (\<lambda>i. of_nat (i mod 256)) [0..<200] in
     after_write 100 written cache (\<lambda>cache. sc_read_at IoOk cache 100 200 = Inr written))"

definition read_at_clips_to_total_size :: bool where
  "read_at_clips_to_total_size = with_cache 150 (\<lambda>cache. after_write 100 (zeros 50) cache (\<lambda>cache.
     case sc_read_at IoOk cache 100 200 of Inr bs \<Rightarrow> length bs = 50 | Inl e \<Rightarrow> False))"

definition read_at_past_end_returns_empty :: bool where
  "read_at_past_end_returns_empty = with_cache 100 (\<lambda>cache. sc_read_at IoOk cache 200 50 = Inr [])"

lemmas cache_eval = with_cache_eq after_write_eq sc_missing_ranges_def populated_ranges_def range_eval

lemma missing_tests_pass:
  "missing_ranges_empty_cache" "missing_ranges_full_hit" "missing_ranges_partial_hit_at_start"
  "missing_ranges_partial_hit_at_end" "missing_ranges_gap_in_middle" "missing_ranges_multiple_gaps"
  "missing_ranges_clips_to_total_size" "missing_ranges_offset_past_end"
  by (simp_all add: missing_ranges_empty_cache_def missing_ranges_full_hit_def missing_ranges_partial_hit_at_start_def
      missing_ranges_partial_hit_at_end_def missing_ranges_gap_in_middle_def missing_ranges_multiple_gaps_def
      missing_ranges_clips_to_total_size_def missing_ranges_offset_past_end_def cache_eval cong: after_write_cong)

lemma rejected_test_passes: "write_past_advertised_size_is_rejected_without_marking_bytes"
  by (simp add: write_past_advertised_size_is_rejected_without_marking_bytes_def cache_eval sc_write_at_def
      checked_add_def ascii_def)

lemma populated_tests_pass:
  "adjacent_ranges_merge" "overlapping_ranges_merge" "disjoint_ranges_preserved" "insertion_sorted" "three_way_merge"
  by (simp_all add: adjacent_ranges_merge_def overlapping_ranges_merge_def disjoint_ranges_preserved_def
      insertion_sorted_def three_way_merge_def cache_eval cong: after_write_cong)

lemma sf_read_put: "bs \<noteq> [] \<Longrightarrow> sf_read IoOk (sf_put f off bs) off (length bs) = Inr bs"
  by (simp add: sf_put_def) (rule nth_equalityI, simp_all)

lemma reading_tests_pass:
  "write_read_roundtrip" "read_at_clips_to_total_size" "read_at_past_end_returns_empty"
proof -
  let ?bs = "map (\<lambda>i. of_nat (i mod 256)) [0..<200] :: byte list"
  have "sf_read IoOk (sf_put f 100 ?bs) 100 200 = Inr ?bs" for f
    using sf_read_put [of ?bs f 100] by (simp del: upt_rec_numeral)
  then show "write_read_roundtrip"
    by (simp add: write_read_roundtrip_def with_cache_eq after_write_eq sc_read_at_def word_le_nat_alt min_def Let_def
        del: upt_rec_numeral)
  have "sf_read IoOk (sf_put f 100 (zeros 50)) 100 50 = Inr (zeros 50)" for f
    using sf_read_put [of "zeros 50" f 100] by simp
  then show "read_at_clips_to_total_size"
    by (simp add: read_at_clips_to_total_size_def with_cache_eq after_write_eq sc_read_at_def word_le_nat_alt min_def)
  show "read_at_past_end_returns_empty"
    by (simp add: read_at_past_end_returns_empty_def with_cache_eq sc_read_at_def)
qed

end
