(* ===== verification/Test_Fill.thy ===== *)
theory Test_Fill
  imports Fill Test_Cache
begin

text \<open>
  The unit tests of \<open>src/src/sparse_cache.rs\<close> on the shared cache and its filler, and those
  of \<open>src/src/fill.rs\<close>. A scripted stream is the list of turns it gives; \<open>chunks_pulled\<close> is
  how many of them are gone. A reader in another thread is given the states the cache goes
  through; an answer it must not have yet is \<open>None\<close>.
\<close>

section \<open>Scripted streams\<close>

definition with_shared :: "u64 \<Rightarrow> (shared_cache \<Rightarrow> bool) \<Rightarrow> bool" where
  "with_shared tot rest = (case sh_new IoOk IoOk tot of Inl e \<Rightarrow> False | Inr s \<Rightarrow> rest s)"

text \<open>\<open>assert!(cache.start_fill())\<close>, then the rest.\<close>

definition started :: "shared_cache \<Rightarrow> (shared_cache \<Rightarrow> bool) \<Rightarrow> bool" where
  "started s rest = (case start_fill s of (claimed, s) \<Rightarrow> claimed \<and> rest s)"

definition after_sequential :: "u64 \<Rightarrow> string \<Rightarrow> shared_cache \<Rightarrow> (shared_cache \<Rightarrow> bool) \<Rightarrow> bool" where
  "after_sequential off bs s rest =
     (case write_sequential IoOk s off (ascii bs) of (Inl e, s) \<Rightarrow> False | (Inr u, s) \<Rightarrow> rest s)"

text \<open>\<open>FakeStream::new\<close>\<close>

definition fake_stream :: "(io_error + string) list \<Rightarrow> io_error fill_turn list" where
  "fake_stream items = map (\<lambda>item. (False, IoOk, map_sum id ascii item)) items"

definition filled :: "(io_error \<Rightarrow> bool) \<Rightarrow> (io_error + string) list \<Rightarrow> shared_cache \<Rightarrow> io_error fill_result" where
  "filled lost items s = fill_from_stream io_error_message lost False (fake_stream items) s"

definition chunks_pulled :: "(io_error + string) list \<Rightarrow> io_error fill_result \<Rightarrow> nat" where
  "chunks_pulled items r = length items - length (fr_left r)"

text \<open>What a reader is told: its bytes, or the failure and a part of its message.\<close>

definition reads_bytes :: "shared_cache list \<Rightarrow> u64 \<Rightarrow> u64 \<Rightarrow> string \<Rightarrow> bool" where
  "reads_bytes states off sz bs \<longleftrightarrow> wait_and_read IoOk states off sz = Some (Inr (ascii bs))"

definition read_fails :: "shared_cache \<Rightarrow> u64 \<Rightarrow> u64 \<Rightarrow> (fill_failure \<Rightarrow> bool) \<Rightarrow> bool" where
  "read_fails s off sz p = (case wait_and_read IoOk [s] off sz of Some (Inl failure) \<Rightarrow> p failure | _ \<Rightarrow> False)"

section \<open>Fills\<close>

definition normal_stream_populates_and_completes_the_cache :: bool where
  "normal_stream_populates_and_completes_the_cache =
     with_shared 6 (\<lambda>cache. started cache (\<lambda>cache.
       let cache = fr_cache (filled (\<lambda>_. False) [Inr ''abc'', Inr ''def''] cache) in
       reads_bytes [cache] 0 6 ''abcdef'' \<and> \<not> fst (start_fill cache)))"

definition truncated_stream_keeps_its_prefix_but_rejects_the_missing_tail :: bool where
  "truncated_stream_keeps_its_prefix_but_rejects_the_missing_tail =
     with_shared 6 (\<lambda>cache. started cache (\<lambda>cache.
       let cache = fr_cache (filled (\<lambda>_. False) [Inr ''abc''] cache) in
       reads_bytes [cache] 0 3 ''abc'' \<and>
       read_fails cache 3 3 (\<lambda>failure. sublist ''ended after 3 bytes'' (ff_message failure))))"

definition stream_failure_after_a_range_lands_does_not_hide_that_range :: bool where
  "stream_failure_after_a_range_lands_does_not_hide_that_range =
     with_shared 6 (\<lambda>cache. started cache (\<lambda>cache.
       let cache = fr_cache (filled (\<lambda>e. case e of IoError k m \<Rightarrow> k = BrokenPipe)
             [Inr ''abc'', Inl (IoError BrokenPipe ''device left'')] cache) in
       reads_bytes [cache] 0 3 ''abc'' \<and>
       read_fails cache 3 3 (\<lambda>failure. ff_link_lost failure \<and> ff_message failure = ''device left'')))"

definition stream_failure_before_a_range_arrives_returns_no_hole_bytes :: bool where
  "stream_failure_before_a_range_arrives_returns_no_hole_bytes =
     with_shared 6 (\<lambda>cache. started cache (\<lambda>cache.
       let cache = fr_cache (filled (\<lambda>_. False) [Inl (IoError OtherIo ''stream failed'')] cache) in
       sh_missing_ranges cache 0 3 = [Range 0 3] \<and>
       read_fails cache 0 3 (\<lambda>failure. ff_message failure = ''stream failed'')))"

definition local_write_failure_still_drains_the_stream_to_eof :: bool where
  "local_write_failure_still_drains_the_stream_to_eof =
     with_shared 3 (\<lambda>cache. started cache (\<lambda>cache.
       let items = [Inr ''abc'', Inr ''de'', Inr ''fg'']; result = filled (\<lambda>_. False) items cache in
       chunks_pulled items result = 3 \<and> \<not> fr_cancelled result \<and>
       reads_bytes [fr_cache result] 0 3 ''abc'' \<and> \<not> fst (start_fill (fr_cache result))))"

section \<open>Waiting readers\<close>

definition a_reader_waits_until_its_entire_range_is_valid :: bool where
  "a_reader_waits_until_its_entire_range_is_valid =
     with_shared 4 (\<lambda>cache. started cache (\<lambda>empty.
       after_sequential 0 ''ab'' empty (\<lambda>half.
         wait_and_read IoOk [empty, half] 0 4 = None \<and>
         after_sequential 2 ''cd'' half (\<lambda>full. reads_bytes [empty, half, full] 0 4 ''abcd''))))"

definition overlapping_and_far_forward_readers_wake_as_their_ranges_land :: bool where
  "overlapping_and_far_forward_readers_wake_as_their_ranges_land =
     with_shared 16 (\<lambda>cache. started cache (\<lambda>empty.
       after_sequential 0 ''abcdefgh'' empty (\<lambda>half.
         reads_bytes [empty, half] 4 4 ''efgh'' \<and> wait_and_read IoOk [empty, half] 10 4 = None \<and>
         after_sequential 8 ''ijklmnop'' half (\<lambda>full. reads_bytes [empty, half, full] 10 4 ''klmn''))))"

definition repeated_reads_reuse_bytes_and_eof_never_starts_a_fill :: bool where
  "repeated_reads_reuse_bytes_and_eof_never_starts_a_fill \<longleftrightarrow>
     with_shared 4 (\<lambda>cache. started cache (\<lambda>cache. after_sequential 0 ''data'' cache (\<lambda>cache.
       let cache = sh_finish cache 4 in reads_bytes [cache] 1 2 ''at'' \<and> reads_bytes [cache] 1 2 ''at''))) \<and>
     with_shared 4 (\<lambda>eof. reads_bytes [eof] 4 100 '''')"

section \<open>Stopping\<close>

definition a_stop_request_cancels_the_transfer_instead_of_dropping_it :: bool where
  "a_stop_request_cancels_the_transfer_instead_of_dropping_it =
     with_shared 6 (\<lambda>cache. started cache (\<lambda>cache.
       let items = [Inr ''abc'', Inr ''def'']; result = filled (\<lambda>_. False) items (request_stop cache) in
       fr_outcome result = Stopped \<and> fr_cancelled result \<and> chunks_pulled items result = 0 \<and>
       read_fails (fr_cache result) 0 6 (\<lambda>failure. sublist ''going away'' (ff_message failure))))"

definition a_stop_mid_transfer_keeps_the_bytes_that_already_landed :: bool where
  "a_stop_mid_transfer_keeps_the_bytes_that_already_landed =
     with_shared 6 (\<lambda>cache. started cache (\<lambda>cache. after_sequential 0 ''abc'' cache (\<lambda>cache.
       let result = filled (\<lambda>_. False) [Inr ''def''] (request_stop cache) in
       fr_cancelled result \<and> reads_bytes [fr_cache result] 0 3 ''abc'' \<and>
       read_fails (fr_cache result) 3 3 (\<lambda>_. True))))"

definition a_running_fill_reports_itself_so_its_cache_outlives_the_last_close :: bool where
  "a_running_fill_reports_itself_so_its_cache_outlives_the_last_close =
     with_shared 4 (\<lambda>cache. \<not> is_filling cache \<and> started cache (\<lambda>cache.
       is_filling cache \<and> \<not> is_filling (sh_finish cache 4)))"

definition only_link_loss_can_reset_a_failed_fill :: bool where
  "only_link_loss_can_reset_a_failed_fill \<longleftrightarrow>
     with_shared 4 (\<lambda>cache. started cache (\<lambda>cache.
       \<not> fst (reset_after_link_loss (sh_fail cache (fill_failure_new ''protocol error'' False))))) \<and>
     with_shared 4 (\<lambda>cache. started cache (\<lambda>cache.
       case reset_after_link_loss (sh_fail cache (fill_failure_new ''device left'' True)) of
         (reset, cache) \<Rightarrow> reset \<and> started cache (\<lambda>cache. \<not> fst (start_fill cache))))"

section \<open>The tracker\<close>

text \<open>\<open>cache()\<close> of the tests: every address holds a new cache of eight bytes.\<close>

definition with_heap :: "(cache_heap \<Rightarrow> bool) \<Rightarrow> bool" where
  "with_heap rest = with_shared 8 (\<lambda>cache. rest (\<lambda>_. cache))"

definition registered_fill :: "cache_id \<Rightarrow> tracker_state \<Rightarrow> (tracker_state \<Rightarrow> bool) \<Rightarrow> bool" where
  "registered_fill c t rest = (case register c t of (accepted, t) \<Rightarrow> accepted \<and> rest t)"

definition an_empty_tracker_stops_immediately :: bool where
  "an_empty_tracker_stops_immediately =
     with_heap (\<lambda>heap. wait_idle 50 (fst (begin_stop tracker_default heap)) [] = Some True)"

text \<open>The filler thread of this test ends both fills once it sees both requests.\<close>

definition stopping_asks_every_live_fill_to_cancel :: bool where
  "stopping_asks_every_live_fill_to_cancel = with_heap (\<lambda>heap.
     registered_fill 1 tracker_default (\<lambda>t. registered_fill 2 t (\<lambda>t. live_count t = 2 \<and>
       (case begin_stop t heap of (t, heap) \<Rightarrow>
          stop_requested (heap 1) \<and> stop_requested (heap 2) \<and>
          (let one = finished 1 t; both = finished 2 one in
           wait_idle 5000 t [(0, False, one), (0, False, both)] = Some True \<and> live_count both = 0)))))"

definition a_fill_that_never_answers_times_out_instead_of_blocking_the_unmount :: bool where
  "a_fill_that_never_answers_times_out_instead_of_blocking_the_unmount = with_heap (\<lambda>heap.
     registered_fill 1 tracker_default (\<lambda>t.
       case begin_stop t heap of (t, heap) \<Rightarrow>
         wait_idle 30 t [(0, True, t)] = Some False \<and> stop_requested (heap 1)))"

definition no_new_fill_starts_once_teardown_has_begun :: bool where
  "no_new_fill_starts_once_teardown_has_begun = with_heap (\<lambda>heap.
     case begin_stop tracker_default heap of (t, heap) \<Rightarrow>
       wait_idle 10 t [] = Some True \<and> \<not> fst (register 1 t))"

section \<open>The tests pass\<close>

lemma with_shared_eq:
  "with_shared tot rest = rest \<lparr>sh_cache = \<lparr>sc_file = sf_set_len (unat tot) sf_new, sc_ranges = rs_new, sc_total = tot\<rparr>,
     sh_fill = FIdle, sh_stop = False\<rparr>"
  by (simp add: with_shared_def sh_new_def sc_new_def)

lemma started_eq: "started s rest \<longleftrightarrow> sh_fill s = FIdle \<and> rest (s\<lparr>sh_fill := FRunning\<rparr>)"
  by (simp add: started_def start_fill_def)

lemmas shared_eval = with_shared_eq started_eq filled_def fake_stream_def fill_from_stream_def raise_stop_def
  stop_requested_def request_stop_def store_chunk_def write_sequential_def sh_write_at_def sc_write_at_def
  checked_add_def advance_def end_fill_def sh_finish_def sh_fail_def total_size_def fill_failure_new_def
  saturating_sub_def start_fill_def is_filling_def reset_after_link_loss_def chunks_pulled_def
  reads_bytes_def read_fails_def wait_poll_def sc_missing_ranges_def sh_missing_ranges_def sc_read_at_def
  after_sequential_def ascii_def sf_put_def sf_set_len_def sf_new_def range_eval stopped_failure_def
  upt_conv_Cons sublist_code show_u64_def show_nat.simps digit_char_def char_of_def bit_Suc_0_iff

lemmas tracker_eval = with_heap_def registered_fill_def register_def begin_stop_def request_all_def finished_def
  live_count_def tracker_default_def

lemma filling_tests_pass:
  "normal_stream_populates_and_completes_the_cache"
  "truncated_stream_keeps_its_prefix_but_rejects_the_missing_tail"
  "stream_failure_after_a_range_lands_does_not_hide_that_range"
  "stream_failure_before_a_range_arrives_returns_no_hole_bytes"
  "local_write_failure_still_drains_the_stream_to_eof"
  by (simp_all add: normal_stream_populates_and_completes_the_cache_def
      truncated_stream_keeps_its_prefix_but_rejects_the_missing_tail_def
      stream_failure_after_a_range_lands_does_not_hide_that_range_def
      stream_failure_before_a_range_arrives_returns_no_hole_bytes_def
      local_write_failure_still_drains_the_stream_to_eof_def shared_eval del: Let_def)

lemma waiting_tests_pass:
  "a_reader_waits_until_its_entire_range_is_valid"
  "overlapping_and_far_forward_readers_wake_as_their_ranges_land"
  "repeated_reads_reuse_bytes_and_eof_never_starts_a_fill"
  by (simp_all add: a_reader_waits_until_its_entire_range_is_valid_def
      overlapping_and_far_forward_readers_wake_as_their_ranges_land_def
      repeated_reads_reuse_bytes_and_eof_never_starts_a_fill_def shared_eval del: Let_def)

lemma stopping_tests_pass:
  "a_stop_request_cancels_the_transfer_instead_of_dropping_it"
  "a_stop_mid_transfer_keeps_the_bytes_that_already_landed"
  "a_running_fill_reports_itself_so_its_cache_outlives_the_last_close"
  "only_link_loss_can_reset_a_failed_fill"
  by (simp_all add: a_stop_request_cancels_the_transfer_instead_of_dropping_it_def
      a_stop_mid_transfer_keeps_the_bytes_that_already_landed_def
      a_running_fill_reports_itself_so_its_cache_outlives_the_last_close_def
      only_link_loss_can_reset_a_failed_fill_def shared_eval del: Let_def)

lemma tracker_tests_pass:
  "an_empty_tracker_stops_immediately" "stopping_asks_every_live_fill_to_cancel"
  "a_fill_that_never_answers_times_out_instead_of_blocking_the_unmount"
  "no_new_fill_starts_once_teardown_has_begun"
  by (simp_all add: an_empty_tracker_stops_immediately_def stopping_asks_every_live_fill_to_cancel_def
      a_fill_that_never_answers_times_out_instead_of_blocking_the_unmount_def
      no_new_fill_starts_once_teardown_has_begun_def tracker_eval shared_eval del: Let_def)

end
