(* ===== verification/Test_Buffer.thy ===== *)
theory Test_Buffer
  imports Buffer Test_Cache
begin

text \<open>
  The unit tests of \<open>src/src/buffer.rs\<close> as conditions on the model, and that they hold. The
  spool of the tests never fails.
\<close>

section \<open>Set-up\<close>

text \<open>\<open>wb.open(fh, inode, size).unwrap()\<close> and \<open>wb.write(fh, offset, data).unwrap()\<close>.\<close>

definition opened :: "u64 \<Rightarrow> u64 \<Rightarrow> write_buffer \<Rightarrow> (write_buffer \<Rightarrow> bool) \<Rightarrow> bool" where
  "opened fh ino wb rest = (case wb_open IoOk fh ino 0 wb of (Inl e, wb) \<Rightarrow> False | (Inr b, wb) \<Rightarrow> rest wb)"

definition written :: "u64 \<Rightarrow> i64 \<Rightarrow> byte list \<Rightarrow> write_buffer \<Rightarrow> (write_buffer \<Rightarrow> bool) \<Rightarrow> bool" where
  "written fh off bs wb rest =
     (case wb_write IoOk fh off bs wb :: (string mount_error + u32) \<times> write_buffer of
        (Inl e, wb) \<Rightarrow> False | (Inr n, wb) \<Rightarrow> rest wb)"

text \<open>\<open>assert_eq!(&wb.read(fh, offset, size).unwrap(), data)\<close>\<close>

definition reads_back :: "write_buffer \<Rightarrow> u64 \<Rightarrow> i64 \<Rightarrow> u32 \<Rightarrow> byte list \<Rightarrow> bool" where
  "reads_back wb fh off sz bs \<longleftrightarrow> (wb_read IoOk wb fh off sz :: string mount_error + byte list) = Inr bs"

text \<open>\<open>wb.flush(fh).unwrap()\<close>\<close>

definition flushed :: "u64 \<Rightarrow> write_buffer \<Rightarrow> (sfile file_buffer \<Rightarrow> bool) \<Rightarrow> bool" where
  "flushed fh wb p = (case fst (wb_flush fh wb) of None \<Rightarrow> False | Some fb \<Rightarrow> p fb)"

text \<open>\<open>vec![b; n]\<close>\<close>

definition repeated :: "nat \<Rightarrow> byte \<Rightarrow> byte list" where
  "repeated n b = replicate n b"

lemma repeated_simps [simp]: "length (repeated n b) = n" "repeated n b = [] \<longleftrightarrow> n = 0"
  "list_all p (repeated n b) \<longleftrightarrow> n = 0 \<or> p b"
  by (auto simp: repeated_def list_all_iff)

section \<open>Writing and reading\<close>

definition test_new_buffer_empty :: bool where
  "test_new_buffer_empty \<longleftrightarrow> \<not> wb_is_open wb_new 1 \<and> wb_size wb_new 1 = None"

definition test_open_creates_buffer :: bool where
  "test_open_creates_buffer = opened 1 100 wb_new (\<lambda>wb. wb_is_open wb 1 \<and> wb_size wb 1 = Some 0)"

definition test_write_sequential :: bool where
  "test_write_sequential = opened 1 100 wb_new (\<lambda>wb. written 1 0 (ascii ''hello'') wb (\<lambda>wb.
     written 1 5 (ascii '' world'') wb (\<lambda>wb.
       wb_size wb 1 = Some 11 \<and> reads_back wb 1 0 11 (ascii ''hello world''))))"

definition test_write_at_offset :: bool where
  "test_write_at_offset = opened 1 100 wb_new (\<lambda>wb. written 1 5 (ascii ''abc'') wb (\<lambda>wb.
     wb_size wb 1 = Some 8 \<and> reads_back wb 1 0 8 ([0, 0, 0, 0, 0] @ ascii ''abc'')))"

definition test_write_overwrite :: bool where
  "test_write_overwrite = opened 1 100 wb_new (\<lambda>wb. written 1 0 (ascii ''hello'') wb (\<lambda>wb.
     written 1 1 (ascii ''ELL'') wb (\<lambda>wb. reads_back wb 1 0 5 (ascii ''hELLo''))))"

definition test_read_back :: bool where
  "test_read_back = opened 1 100 wb_new (\<lambda>wb. written 1 0 (ascii ''test data'') wb (\<lambda>wb.
     reads_back wb 1 5 4 (ascii ''data'')))"

definition test_read_past_end :: bool where
  "test_read_past_end = opened 1 100 wb_new (\<lambda>wb. written 1 0 (ascii ''short'') wb (\<lambda>wb.
     reads_back wb 1 3 100 (ascii ''rt'')))"

definition test_read_empty :: bool where
  "test_read_empty = opened 1 100 wb_new (\<lambda>wb. reads_back wb 1 0 10 [])"

section \<open>Flushing\<close>

definition test_flush_returns_data :: bool where
  "test_flush_returns_data = opened 1 100 wb_new (\<lambda>wb. written 1 0 (ascii ''flush me'') wb (\<lambda>wb.
     flushed 1 wb (\<lambda>fb. fb_inode fb = 100 \<and> sf_content (into_file fb) = ascii ''flush me'')))"

definition test_flush_removes_buffer :: bool where
  "test_flush_removes_buffer = opened 1 100 wb_new (\<lambda>wb. written 1 0 (ascii ''data'') wb (\<lambda>wb.
     \<not> wb_is_open (snd (wb_flush 1 wb)) 1))"

definition test_dirty_tracking :: bool where
  "test_dirty_tracking = opened 1 100 wb_new (\<lambda>wb. (case wb_buffers wb 1 of Some fb \<Rightarrow> \<not> fb_dirty fb | None \<Rightarrow> False) \<and>
     written 1 0 (ascii ''x'') wb (\<lambda>wb. flushed 1 wb fb_dirty))"

section \<open>Several buffers, none, and large ones\<close>

definition test_multiple_files :: bool where
  "test_multiple_files = opened 1 100 wb_new (\<lambda>wb. opened 2 200 wb (\<lambda>wb. written 1 0 (ascii ''file1'') wb (\<lambda>wb.
     written 2 0 (ascii ''file2'') wb (\<lambda>wb. wb_is_open wb 1 \<and> wb_is_open wb 2 \<and>
       reads_back wb 1 0 5 (ascii ''file1'') \<and> reads_back wb 2 0 5 (ascii ''file2'')))))"

definition test_write_nonexistent_fh :: bool where
  "test_write_nonexistent_fh =
     isl (fst (wb_write IoOk 999 0 (ascii ''nope'') wb_new :: (string mount_error + u32) \<times> write_buffer))"

definition test_large_write :: bool where
  "test_large_write = opened 1 100 wb_new (\<lambda>wb.
     case wb_write IoOk 1 0 (repeated (2 * 1024 * 1024) 0xAB) wb :: (string mount_error + u32) \<times> write_buffer of
       (Inr n, wb) \<Rightarrow> n = 2 * 1024 * 1024 \<and> wb_size wb 1 = Some (2 * 1024 * 1024)
     | (Inl e, wb) \<Rightarrow> False)"

definition test_sparse_write :: bool where
  "test_sparse_write = opened 1 100 wb_new (\<lambda>wb. written 1 1000 (ascii ''sparse'') wb (\<lambda>wb.
     wb_size wb 1 = Some 1006 \<and>
     (case wb_read IoOk wb 1 0 1000 :: string mount_error + byte list of
        Inr start \<Rightarrow> list_all (\<lambda>b. b = 0) start | Inl e \<Rightarrow> False) \<and>
     reads_back wb 1 1000 6 (ascii ''sparse'')))"

definition test_write_far_past_the_end_leaves_a_hole :: bool where
  "test_write_far_past_the_end_leaves_a_hole = opened 1 100 wb_new (\<lambda>wb.
     let far = 1099511627776 in
     written 1 far (ascii ''x'') wb (\<lambda>wb.
       wb_size wb 1 = Some (1099511627776 + 1) \<and> reads_back wb 1 (far - 2) 3 ([0, 0] @ ascii ''x'')))"

definition test_negative_offset_is_rejected :: bool where
  "test_negative_offset_is_rejected = opened 1 100 wb_new (\<lambda>wb.
     case wb_write IoOk 1 (- 1) (ascii ''x'') wb :: (string mount_error + u32) \<times> write_buffer of
       (r, wb) \<Rightarrow> isl r \<and> reads_back wb 1 (- 1) 10 [] \<and> wb_size wb 1 = Some 0)"

definition test_empty_write_changes_nothing :: bool where
  "test_empty_write_changes_nothing = opened 1 100 wb_new (\<lambda>wb.
     case wb_write IoOk 1 10 [] wb :: (string mount_error + u32) \<times> write_buffer of
       (r, wb) \<Rightarrow> r = Inr 0 \<and> wb_size wb 1 = Some 0 \<and> flushed 1 wb (\<lambda>fb. \<not> fb_dirty fb))"

text \<open>The same code over a \<open>Cursor\<close>.\<close>

definition test_in_memory_storage_matches_a_file :: bool where
  "test_in_memory_storage_matches_a_file =
     (case fb_write_at cur_write IoOk 3 (ascii ''abc'') (with_storage 1 0 []) of
        (Inl e, fb) \<Rightarrow> False
      | (Inr n, fb) \<Rightarrow>
          (case fb_write_at cur_write IoOk 0 (ascii ''Z'') fb of
             (Inl e, fb) \<Rightarrow> False
           | (Inr n, fb) \<Rightarrow>
               fb_read_at cur_read IoOk fb 0 10 = Inr (ascii ''Z'' @ [0, 0] @ ascii ''abc'') \<and>
               into_file fb = ascii ''Z'' @ [0, 0] @ ascii ''abc''))"

section \<open>The tests pass\<close>

lemma opened_cong: "wb = wb' \<Longrightarrow> opened fh ino wb rest = opened fh ino wb' rest"
  and written_cong: "wb = wb' \<Longrightarrow> written fh off bs wb rest = written fh off bs wb' rest"
  by simp_all

lemma opened_eq: "wb_buffers wb fh = None \<Longrightarrow>
  opened fh ino wb rest = rest (wb\<lparr>wb_buffers := (wb_buffers wb)(fh \<mapsto> with_storage ino 0 sf_new)\<rparr>)"
  by (simp add: opened_def wb_open_def fb_new_def)

lemmas buffer_eval = opened_eq written_def reads_back_def flushed_def wb_new_def wb_is_open_def wb_size_def
  wb_write_def wb_read_def wb_flush_def fb_write_at_def fb_read_at_def u64_try_from_def checked_add_def
  with_storage_def sf_new_def sf_put_def sf_content_def into_file_def ascii_def word_le_nat_alt word_less_nat_alt
  min_def upt_conv_Cons

lemma buffer_writing_tests_pass:
  "test_new_buffer_empty" "test_open_creates_buffer" "test_write_sequential" "test_write_at_offset"
  "test_write_overwrite" "test_read_back" "test_read_past_end" "test_read_empty"
  by (simp_all add: test_new_buffer_empty_def test_open_creates_buffer_def test_write_sequential_def
      test_write_at_offset_def test_write_overwrite_def test_read_back_def test_read_past_end_def test_read_empty_def
      buffer_eval cong: opened_cong written_cong)

lemma buffer_flushing_tests_pass: "test_flush_returns_data" "test_flush_removes_buffer" "test_dirty_tracking"
  by (simp_all add: test_flush_returns_data_def test_flush_removes_buffer_def test_dirty_tracking_def
      buffer_eval cong: opened_cong written_cong)

lemma buffer_other_tests_pass:
  "test_multiple_files" "test_write_nonexistent_fh" "test_large_write"
  "test_write_far_past_the_end_leaves_a_hole" "test_negative_offset_is_rejected" "test_empty_write_changes_nothing"
  by (simp_all add: test_multiple_files_def test_write_nonexistent_fh_def test_large_write_def
      test_write_far_past_the_end_leaves_a_hole_def test_negative_offset_is_rejected_def
      test_empty_write_changes_nothing_def Let_def buffer_eval cong: opened_cong written_cong)

text \<open>The hole in front of a write, without looking at its bytes one by one.\<close>

lemma sf_read_hole: "off + n \<le> k \<Longrightarrow> bs \<noteq> [] \<Longrightarrow> sf_read IoOk (sf_put sf_new k bs) off n = Inr (repeated n 0)"
  by (auto simp: sf_put_def sf_new_def repeated_def intro: nth_equalityI)

lemma sf_read_written: "bs \<noteq> [] \<Longrightarrow> length bs = n \<Longrightarrow> sf_read IoOk (sf_put f k bs) k n = Inr bs"
  using sf_read_put by blast

lemma buffer_sparse_test_passes: "test_sparse_write"
  by (simp add: test_sparse_write_def opened_eq written_def reads_back_def wb_new_def wb_size_def wb_write_def
      wb_read_def fb_write_at_def fb_read_at_def u64_try_from_def checked_add_def with_storage_def ascii_def
      word_le_nat_alt word_less_nat_alt min_def sf_read_hole sf_read_written
      del: sf_read.simps upt_rec_numeral cong: opened_cong written_cong)

lemma replicate_two: "replicate 2 x = [x, x]"
  by (simp add: numeral_2_eq_2)

lemma buffer_cursor_test_passes: "test_in_memory_storage_matches_a_file"
  by (simp add: test_in_memory_storage_matches_a_file_def cur_write_def cur_read_def replicate_two buffer_eval)

end
