(* ===== verification/Test_Core.thy ===== *)
theory Test_Core
  imports Reconnect Size_Parse Device Hotplug Test_Buffer
begin

text \<open>
  The unit tests of \<open>size.rs\<close>, \<open>reconnect.rs\<close>, \<open>shutdown.rs\<close>, \<open>device.rs\<close> and of the
  pure parts of \<open>fs.rs\<close>, all under \<open>src/src/\<close>, as conditions on the model, and that they
  hold. What they take from the crate \<open>mtp_rs\<close> is an argument.
\<close>

section \<open>Sizes\<close>

text \<open>\<open>unwrap_err().contains(..)\<close>\<close>

definition error_contains :: "string + 'a \<Rightarrow> string \<Rightarrow> bool" where
  "error_contains r part = (case r of Inl message \<Rightarrow> sublist part message | Inr x \<Rightarrow> False)"

definition plain_numbers_are_bytes :: bool where
  "plain_numbers_are_bytes \<longleftrightarrow>
     parse_size ''0'' = Inr 0 \<and> parse_size ''1048576'' = Inr (1024 * 1024) \<and> parse_size ''  4096  '' = Inr 4096"

definition suffixes_are_binary_and_case_insensitive :: bool where
  "suffixes_are_binary_and_case_insensitive \<longleftrightarrow>
     parse_size ''1K'' = Inr 1024 \<and> parse_size ''1kib'' = Inr 1024 \<and> parse_size ''2M'' = Inr (2 * 1024 * 1024) \<and>
     parse_size ''4G'' = Inr (4 * 1024 * 1024 * 1024) \<and> parse_size ''4 gb'' = Inr (4 * 1024 * 1024 * 1024) \<and>
     parse_size ''1T'' = Inr (1024 * 1024 * 1024 * 1024)"

definition nonsense_says_what_to_type_instead :: bool where
  "nonsense_says_what_to_type_instead \<longleftrightarrow>
     error_contains (parse_size '''') ''4G'' \<and> error_contains (parse_size ''big'') ''doesn't start with'' \<and>
     error_contains (parse_size ''4X'') ''suffix''"

definition a_size_that_cannot_fit_is_rejected_rather_than_wrapped :: bool where
  "a_size_that_cannot_fit_is_rejected_rather_than_wrapped \<longleftrightarrow>
     error_contains (parse_size ''99999999999999999999'') ''too big'' \<and>
     error_contains (parse_size ''18446744073709551615T'') ''64-bit''"

definition formatting_round_trips_through_the_parser :: bool where
  "formatting_round_trips_through_the_parser \<longleftrightarrow>
     list_all (\<lambda>bytes. parse_size (format_size bytes) = Inr bytes) [0, 512, 4096, 4 * 1024 * 1024 * 1024] \<and>
     format_size (4 * 1024 * 1024 * 1024) = ''4 GiB'' \<and> format_size 1500 = ''1500 bytes''"

section \<open>The reconnect schedule\<close>

definition default_is_disabled :: bool where
  "default_is_disabled \<longleftrightarrow> rp_timeout policy_default = 0 \<and> policy_is_disabled policy_default"

definition zero_disables_reconnect :: bool where
  "zero_disables_reconnect =
     (let policy = policy_from_secs 0 in policy_is_disabled policy \<and> delays (schedule policy) = Some [])"

definition delays_grow_then_cap :: bool where
  "delays_grow_then_cap \<longleftrightarrow>
     map_option (take 6) (delays (schedule (policy_from_secs 30))) = Some [250, 500, 1000, 2000, 2000, 2000]"

definition total_wait_never_exceeds_the_window :: bool where
  "total_wait_never_exceeds_the_window \<longleftrightarrow>
     list_all (\<lambda>secs. map_option sum_list (delays (schedule (policy_from_secs secs))) = Some (1000 * unat secs))
       [1, 3, 30, 120]"

definition short_window_still_gets_an_attempt :: bool where
  "short_window_still_gets_an_attempt =
     (case delays (schedule (policy_from_secs 1)) of
        Some (first # rest) \<Rightarrow> first = 250 \<and> 3 \<le> length (first # rest) | _ \<Rightarrow> False)"

definition last_delay_is_clipped_to_the_window :: bool where
  "last_delay_is_clipped_to_the_window \<longleftrightarrow> map_option last (delays (schedule (policy_from_secs 3))) = Some 1250"

section \<open>The shutdown request\<close>

definition starts_quiet :: bool where
  "starts_quiet \<longleftrightarrow> \<not> is_requested shutdown_default \<and> sd_reason shutdown_default = None \<and>
     shutdown_wait [] shutdown_default = None"

definition keeps_the_first_reason :: bool where
  "keeps_the_first_reason =
     (let shutdown = request_shutdown ''something else'' (request_shutdown ''device gone'' shutdown_default) in
      is_requested shutdown \<and> sd_reason shutdown = Some ''device gone'')"

text \<open>The waiter finds the quiet state first, and is woken by the request.\<close>

definition wakes_a_waiter :: bool where
  "wakes_a_waiter \<longleftrightarrow>
     shutdown_wait [shutdown_default] (request_shutdown ''device gone'' shutdown_default) = Some ''device gone''"

section \<open>The cable and the link\<close>

definition switch_starts_plugged_in :: bool where
  "switch_starts_plugged_in \<longleftrightarrow> \<not> switch_is_unplugged plugged_in"

text \<open>The \<open>Arc\<close> of a switch is a place in a store of switches; a clone is the same place.\<close>

definition switch_is_shared_between_clones :: bool where
  "switch_is_shared_between_clones =
     (let switch = (0::nat); store = (\<lambda>_. plugged_in); remote = switch;
          yanked = store(remote := unplug (store remote));
          back = yanked(remote := replug (yanked remote))
      in switch_is_unplugged (yanked switch) \<and> \<not> switch_is_unplugged (back switch))"

definition session_loss_triggers_reconnect_but_plain_failures_do_not :: bool where
  "session_loss_triggers_reconnect_but_plain_failures_do_not \<longleftrightarrow>
     is_link_lost Disconnected \<and> is_link_lost DeviceReset \<and> \<not> is_link_lost NotFound \<and>
     \<not> is_link_lost (OtherMtp ''access denied'') \<and> \<not> is_link_lost Timeout"

text \<open>\<open>Error::is_disconnected\<close> is the crate's; its documentation says \<open>Disconnected\<close> alone.\<close>

definition link_loss_is_broader_than_mtp_rs_is_disconnected :: "(mtp_error \<Rightarrow> bool) \<Rightarrow> bool" where
  "link_loss_is_broader_than_mtp_rs_is_disconnected is_disconnected \<longleftrightarrow>
     is_disconnected Disconnected \<and> \<not> is_disconnected DeviceReset \<and> \<not> is_disconnected NoDevice \<and>
     is_link_lost DeviceReset \<and> is_link_lost NoDevice"

section \<open>Dates of objects\<close>

text \<open>
  \<open>mtp_rs::DateTime\<close>: a civil date with an optional offset in minutes. Its seconds since the
  epoch are the crate's (\<open>to_unix_seconds_with_fallback\<close>, with UTC for a date without a
  zone); the tests go through the clamping to the epoch.
\<close>

type_synonym device_date = "int \<times> int \<times> int \<times> int \<times> int \<times> int \<times> int option"

definition unix_secs :: "time \<Rightarrow> int" where
  "unix_secs t = t div 1000000000"

definition a_zoneless_device_date_reads_as_utc :: "(device_date \<Rightarrow> int option) \<Rightarrow> bool" where
  "a_zoneless_device_date_reads_as_utc seconds \<longleftrightarrow>
     unix_secs (mtp_datetime_to_system_time (seconds (2024, 3, 1, 12, 0, 0, None))) = 1709294400"

definition a_device_date_with_an_offset_is_shifted_by_it :: "(device_date \<Rightarrow> int option) \<Rightarrow> bool" where
  "a_device_date_with_an_offset_is_shifted_by_it seconds \<longleftrightarrow>
     unix_secs (mtp_datetime_to_system_time (seconds (2024, 3, 1, 12, 0, 0, Some 120))) = 1709287200"

section \<open>Streams and the read path\<close>

text \<open>A file whose reads fill the buffer.\<close>

definition whole_reads :: "nat \<Rightarrow> read_outcome" where
  "whole_reads i = ReadUpTo UPLOAD_CHUNK"

definition file_stream_yields_the_whole_file_then_ends :: bool where
  "file_stream_yields_the_whole_file_then_ends =
     (let content = repeated (UPLOAD_CHUNK * 2 + 17) 0xCD; chunks = file_stream whole_reads 0 content in
      map (map_sum id length) chunks = [Inr UPLOAD_CHUNK, Inr UPLOAD_CHUNK, Inr 17] \<and>
      stream_bytes chunks = Inr content)"

definition file_stream_reads_lazily :: bool where
  "file_stream_reads_lazily =
     (case file_stream whole_reads 0 (repeated (UPLOAD_CHUNK * 4) 0xAB) of
        Inr first # rest \<Rightarrow> length first = UPLOAD_CHUNK \<and> rest = file_stream whole_reads 1 (repeated (UPLOAD_CHUNK * 3) 0xAB)
      | _ \<Rightarrow> False)"

definition file_stream_ends_after_a_read_error :: bool where
  "file_stream_ends_after_a_read_error =
     (case file_stream (\<lambda>_. ReadErr (IoError OtherIo ''EBADF'')) 0 [] of [Inl e] \<Rightarrow> True | _ \<Rightarrow> False)"

definition partial_capability_always_keeps_the_ranged_path :: bool where
  "partial_capability_always_keeps_the_ranged_path \<longleftrightarrow>
     read_strategy True 1 DEFAULT_FULL_DOWNLOAD_LIMIT = Ranged \<and>
     read_strategy True (DEFAULT_FULL_DOWNLOAD_LIMIT + 1) DEFAULT_FULL_DOWNLOAD_LIMIT = Ranged"

definition no_partial_capability_uses_a_bounded_sequential_fill :: bool where
  "no_partial_capability_uses_a_bounded_sequential_fill \<longleftrightarrow>
     read_strategy False DEFAULT_FULL_DOWNLOAD_LIMIT DEFAULT_FULL_DOWNLOAD_LIMIT = SequentialFull \<and>
     read_strategy False (DEFAULT_FULL_DOWNLOAD_LIMIT + 1) DEFAULT_FULL_DOWNLOAD_LIMIT = TooLargeForSequentialFull"

definition a_zero_limit_lifts_the_ceiling_entirely :: bool where
  "a_zero_limit_lifts_the_ceiling_entirely \<longleftrightarrow>
     read_strategy False u64_max 0 = SequentialFull \<and> read_strategy False u64_max 1 = TooLargeForSequentialFull"

section \<open>The tests pass\<close>

lemma delays_step:
  "delays \<lparr>bo_remaining = r, bo_next = n\<rparr> =
     (if r = 0 then Some []
      else map_option ((#) (min n r)) (delays \<lparr>bo_remaining = r - min n r, bo_next = min (n * 2) 2000\<rparr>))"
  by (subst delays.simps) (simp add: backoff_next_def MAX_DELAY_def map_option_case Let_def split: option.split)

lemmas schedule_eval = policy_default_def policy_from_secs_def DEFAULT_TIMEOUT_SECS_def policy_is_disabled_def
  schedule_def FIRST_DELAY_def delays_step

lemma schedule_tests_pass:
  "default_is_disabled" "zero_disables_reconnect" "delays_grow_then_cap" "total_wait_never_exceeds_the_window"
  "short_window_still_gets_an_attempt" "last_delay_is_clipped_to_the_window"
  by (simp_all add: default_is_disabled_def zero_disables_reconnect_def delays_grow_then_cap_def
      total_wait_never_exceeds_the_window_def short_window_still_gets_an_attempt_def
      last_delay_is_clipped_to_the_window_def schedule_eval)

lemmas size_eval = parse_size_def trim_def is_whitespace_def is_ascii_digit_def ascii_lower_def digits_value_def
  parse_u64_def suffix_multiplier_def quoted_def checked_mul_def error_contains_def sublist_code
  format_size_def size_units_def show_u64_def show_nat.simps digit_char_def char_of_def bit_Suc_0_iff

lemma size_tests_pass:
  "plain_numbers_are_bytes" "suffixes_are_binary_and_case_insensitive" "nonsense_says_what_to_type_instead"
  "a_size_that_cannot_fit_is_rejected_rather_than_wrapped" "formatting_round_trips_through_the_parser"
  by (simp_all add: plain_numbers_are_bytes_def suffixes_are_binary_and_case_insensitive_def
      nonsense_says_what_to_type_instead_def a_size_that_cannot_fit_is_rejected_rather_than_wrapped_def
      formatting_round_trips_through_the_parser_def size_eval del: Let_def)

lemma shutdown_tests_pass: "starts_quiet" "keeps_the_first_reason" "wakes_a_waiter"
  by code_simp+

lemma link_tests_pass:
  "switch_starts_plugged_in" "switch_is_shared_between_clones"
  "session_loss_triggers_reconnect_but_plain_failures_do_not"
  "(\<And>e. disconnected e \<longleftrightarrow> e = Disconnected) \<Longrightarrow> link_loss_is_broader_than_mtp_rs_is_disconnected disconnected"
  by (simp_all add: switch_starts_plugged_in_def switch_is_shared_between_clones_def switch_is_unplugged_def plugged_in_def
      unplug_def replug_def session_loss_triggers_reconnect_but_plain_failures_do_not_def
      link_loss_is_broader_than_mtp_rs_is_disconnected_def is_link_lost_def)

lemma date_tests_pass:
  assumes "\<And>offset. seconds (2024, 3, 1, 12, 0, 0, offset) =
    Some (1709294400 - 60 * (case offset of None \<Rightarrow> 0 | Some minutes \<Rightarrow> minutes))"
  shows "a_zoneless_device_date_reads_as_utc seconds" "a_device_date_with_an_offset_is_shifted_by_it seconds"
  by (simp_all add: a_zoneless_device_date_reads_as_utc_def a_device_date_with_an_offset_is_shifted_by_it_def
      unix_secs_def mtp_datetime_to_system_time_def assms)

lemma strategy_tests_pass:
  "partial_capability_always_keeps_the_ranged_path" "no_partial_capability_uses_a_bounded_sequential_fill"
  "a_zero_limit_lifts_the_ceiling_entirely" "file_stream_ends_after_a_read_error"
  by code_simp+

lemma stream_step:
  "file_stream whole_reads i (repeated m b) =
     (if m = 0 then []
      else Inr (repeated (min UPLOAD_CHUNK m) b) # file_stream whole_reads (Suc i) (repeated (m - UPLOAD_CHUNK) b))"
proof -
  have "min UPLOAD_CHUNK (min UPLOAD_CHUNK m) = min UPLOAD_CHUNK m" by simp
  moreover have "drop (min UPLOAD_CHUNK m) (repeated m b) = repeated (m - UPLOAD_CHUNK) b"
    by (simp add: repeated_def min_def)
  moreover have "take (min UPLOAD_CHUNK m) (repeated m b) = repeated (min UPLOAD_CHUNK m) b"
    by (simp add: repeated_def)
  ultimately show ?thesis
    by (subst file_stream.simps) (simp add: whole_reads_def Let_def UPLOAD_CHUNK_def min_def)
qed

lemma repeated_append: "repeated m b @ repeated n b = repeated (m + n) b"
  by (simp add: repeated_def replicate_add)

lemma stream_tests_pass: "file_stream_yields_the_whole_file_then_ends" "file_stream_reads_lazily"
  by (simp_all add: file_stream_yields_the_whole_file_then_ends_def file_stream_reads_lazily_def stream_step
      UPLOAD_CHUNK_def repeated_append)

end
