(* ===== verification/Test_Daemon.thy ===== *)
theory Test_Daemon
  imports Paths Programs Test_Core
begin

text \<open>
  The unit tests of \<open>spool.rs\<close>, \<open>hints.rs\<close>, \<open>daemon/paths.rs\<close>, \<open>daemon/dryrun.rs\<close> and
  \<open>daemon/supervisor.rs\<close>, under \<open>src/src/\<close>, as conditions on the model, and that they hold.
  The tests that look at real directories are in \<open>Test_Programs\<close>; those of the supervisor here
  hold on every host, whatever its operating system does.
\<close>

section \<open>The spool directory\<close>

definition xdg_cache_home_wins_when_set :: bool where
  "xdg_cache_home_wins_when_set \<longleftrightarrow>
     resolve_spool_dir None (Some ''/cache'') (Some ''/home/dave'') Xdg = Inr ''/cache/mtp-mount/spool''"

definition xdg_unset_falls_back_to_home_cache :: bool where
  "xdg_unset_falls_back_to_home_cache \<longleftrightarrow>
     resolve_spool_dir None None (Some ''/home/dave'') Xdg = Inr ''/home/dave/.cache/mtp-mount/spool''"

definition empty_xdg_counts_as_unset :: bool where
  "empty_xdg_counts_as_unset \<longleftrightarrow>
     resolve_spool_dir None (Some '''') (Some ''/home/dave'') Xdg = Inr ''/home/dave/.cache/mtp-mount/spool''"

definition override_wins_over_env :: bool where
  "override_wins_over_env \<longleftrightarrow>
     resolve_spool_dir (Some ''/mnt/scratch'') (Some ''/cache'') (Some ''/home/dave'') Xdg = Inr ''/mnt/scratch''"

definition macos_uses_library_caches_and_ignores_xdg :: bool where
  "macos_uses_library_caches_and_ignores_xdg \<longleftrightarrow>
     resolve_spool_dir None (Some ''/cache'') (Some ''/Users/dave'') MacOs =
       Inr ''/Users/dave/Library/Caches/mtp-mount/spool''"

definition no_home_and_no_xdg_errors :: bool where
  "no_home_and_no_xdg_errors \<longleftrightarrow>
     error_contains (resolve_spool_dir None None None Xdg) ''--spool-dir'' \<and>
     error_contains (resolve_spool_dir None (Some ''/cache'') None MacOs) ''--spool-dir''"

section \<open>The mount root\<close>

definition runtime_dir_wins_when_set :: bool where
  "runtime_dir_wins_when_set \<longleftrightarrow>
     resolve_mount_root None (Some ''/run/user/1000'') (Some ''/cache'') (Some ''/home/dave'') Xdg =
       Inr ''/run/user/1000/mtp''"

definition override_wins_over_the_runtime_dir :: bool where
  "override_wins_over_the_runtime_dir \<longleftrightarrow>
     resolve_mount_root (Some ''/mnt/phones'') (Some ''/run/user/1000'') None None Xdg = Inr ''/mnt/phones''"

definition no_runtime_dir_falls_back_to_the_cache_dir_never_tmp :: bool where
  "no_runtime_dir_falls_back_to_the_cache_dir_never_tmp \<longleftrightarrow>
     resolve_mount_root None None (Some ''/cache'') (Some ''/home/dave'') Xdg = Inr ''/cache/mtp-mount/mounts'' \<and>
     resolve_mount_root None (Some '''') None (Some ''/home/dave'') Xdg = Inr ''/home/dave/.cache/mtp-mount/mounts'' \<and>
     resolve_mount_root None None (Some ''/cache'') (Some ''/Users/dave'') MacOs =
       Inr ''/Users/dave/Library/Caches/mtp-mount/mounts''"

definition nothing_to_go_on_names_the_flag :: bool where
  "nothing_to_go_on_names_the_flag \<longleftrightarrow>
     error_contains (resolve_mount_root None None None None Xdg) ''--mount-root''"

section \<open>A device's directory\<close>

definition serial_names_the_directory :: bool where
  "serial_names_the_directory \<longleftrightarrow>
     device_dir_name (Some ''2A31FDH200ABC'') 0x18d1 0x4ee1 3 = ''2A31FDH200ABC'' \<and>
     device_dir_name (Some ''  ABC123  '') 0x18d1 0x4ee1 3 = ''ABC123''"

definition no_serial_falls_back_to_the_usb_address :: bool where
  "no_serial_falls_back_to_the_usb_address \<longleftrightarrow>
     device_dir_name None 0x18d1 0x4ee1 3 = ''usb-18d1-4ee1-3'' \<and>
     device_dir_name (Some ''   '') 0x04e8 0x6860 42 = ''usb-04e8-6860-42''"

definition a_serial_can_never_escape_the_mount_root :: bool where
  "a_serial_can_never_escape_the_mount_root \<longleftrightarrow>
     device_dir_name (Some ''../../etc'') 1 2 3 = ''.._.._etc'' \<and> device_dir_name (Some ''a/b'') 1 2 3 = ''a_b'' \<and>
     device_dir_name (Some ''..'') 1 2 3 = ''usb-0001-0002-3'' \<and> device_dir_name (Some ''.'') 1 2 3 = ''usb-0001-0002-3''"

definition an_absurd_serial_is_truncated :: bool where
  "an_absurd_serial_is_truncated \<longleftrightarrow>
     length (device_dir_name (Some (replicate 500 (CHR ''x''))) 1 2 3) = MAX_DIR_NAME"

section \<open>The dry run\<close>

definition pixel :: device_facts where
  "pixel =
     \<lparr>df_serial = Some ''2A31FDH200ABC'', df_vendor_id = 0x18d1, df_product_id = 0x4ee1, df_location_id = 3,
      df_manufacturer = Some ''Google'', df_product = Some ''Pixel 9 Pro XL'', df_speed = Some ''SuperPlus'',
      df_match_reason = Some ''standard_class'',
      df_label = ''Google Pixel 9 Pro XL (serial: 2A31FDH200ABC, location: 00000003)''\<rparr>"

text \<open>\<open>..Default::default()\<close>\<close>

definition bare_facts :: "string option \<Rightarrow> u16 \<Rightarrow> u16 \<Rightarrow> u64 \<Rightarrow> device_facts" where
  "bare_facts serial vendor product location =
     \<lparr>df_serial = serial, df_vendor_id = vendor, df_product_id = product, df_location_id = location,
      df_manufacturer = None, df_product = None, df_speed = None, df_match_reason = None, df_label = ''''\<rparr>"

definition a_device_with_no_serial_falls_back_to_the_usb_address :: bool where
  "a_device_with_no_serial_falls_back_to_the_usb_address =
     (let facts = bare_facts None 0x04e8 0x6860 42 in
      facts_key facts = ''usb-04e8-6860-42'' \<and> di_serial (facts_ident facts) = None)"

definition a_blank_serial_is_no_serial :: bool where
  "a_blank_serial_is_no_serial \<longleftrightarrow> facts_key (bare_facts (Some ''   '') 1 2 3) = ''usb-0001-0002-3''"

definition the_ident_carries_the_key_the_supervisor_would_mount_under :: bool where
  "the_ident_carries_the_key_the_supervisor_would_mount_under =
     (let ident = facts_ident pixel in
      di_key ident = ''2A31FDH200ABC'' \<and> di_serial ident = Some ''2A31FDH200ABC'' \<and>
      sublist ''Pixel 9 Pro XL'' (di_label ident))"

definition a_second_arrival_of_the_same_key_is_called_out :: bool where
  "a_second_arrival_of_the_same_key_is_called_out =
     (let dry = arrived pixel (arrived pixel (dry_run_new ''/run/mtp'')) in
      open_keys dry = [''2A31FDH200ABC''] \<and> ta_arrivals (dr_tally dry) = 2)"

text \<open>The loop ends when the channel closes: the reporter after it has counted the arrival.\<close>

definition the_loop_stops_when_every_sender_is_gone :: bool where
  "the_loop_stops_when_every_sender_is_gone =
     (let dry = dry_run_run [DryArrived pixel] (dry_run_new ''/run/mtp'') in ta_arrivals (dr_tally dry) = 1)"

section \<open>The supervisor\<close>

text \<open>\<open>supervisor(root)\<close> of the tests, in a world of the host.\<close>

definition test_supervisor :: "path \<Rightarrow> path \<Rightarrow> 'w \<Rightarrow> ('sess, 'w) supervisor" where
  "test_supervisor root spool w = supervisor_new (config_new root spool False) w"

definition a_departure_for_a_device_that_was_never_mounted_is_ignored ::
  "('dev, 's, 'd, 'sess, 'w) host \<Rightarrow> path \<Rightarrow> path \<Rightarrow> 'w \<Rightarrow> bool" where
  "a_departure_for_a_device_that_was_never_mounted_is_ignored H root spool w =
     (case sup_unmount H ''ABC123'' ''test'' (test_supervisor root spool w) of
        None \<Rightarrow> False | Some s \<Rightarrow> mounted_keys s = [])"

definition stopping_with_nothing_mounted_returns ::
  "('dev, 's, 'd, 'sess, 'w) host \<Rightarrow> (string list \<Rightarrow> string list) \<Rightarrow> path \<Rightarrow> path \<Rightarrow> 'w \<Rightarrow> bool" where
  "stopping_with_nothing_mounted_returns H order root spool w \<longleftrightarrow>
     sup_run H order [Stop ''test''] (test_supervisor root spool w) \<noteq> None"

definition test_ident :: "string \<Rightarrow> device_ident" where
  "test_ident key = \<lparr>di_key = key, di_label = ''device '' @ key, di_serial = Some key\<rparr>"

text \<open>
  A host whose device will not open and whose world is the set of directories that exist:
  the directory made for the mount is gone again.
\<close>

definition a_device_that_cannot_be_opened_leaves_no_directory_behind ::
  "('dev, 's, 'd, 'sess, path set) host \<Rightarrow> path \<Rightarrow> path \<Rightarrow> bool" where
  "a_device_that_cannot_be_opened_leaves_no_directory_behind H root spool =
     (let refusing = H\<lparr>ho_open := (\<lambda>ident w. (Inl (OtherMtp ''exclusive access''), w)),
            ho_os := (ho_os H)\<lparr>os_create_dir_all := (\<lambda>p w. (None, insert p w)),
              os_remove_dir := (\<lambda>p w. (None, w - {p}))\<rparr>\<rparr>;
          s = sup_mount refusing (test_ident ''ABC123'') (test_supervisor root spool {root})
      in mounted_keys s = [] \<and> path_join root ''ABC123'' \<notin> sv_world s)"

definition indent_prefixes_content_lines_only :: bool where
  "indent_prefixes_content_lines_only \<longleftrightarrow>
     indent (''a'' @ newline @ newline @ ''b'') ''  '' = ''  a'' @ newline @ newline @ ''  b''"

section \<open>The tests pass\<close>

lemmas path_eval = resolve_spool_dir_def resolve_mount_root_def path_join_def non_empty_def RUNTIME_SUBDIR_def
  no_root_error_def error_contains_def sublist_code

lemma directory_tests_pass:
  "xdg_cache_home_wins_when_set" "xdg_unset_falls_back_to_home_cache" "empty_xdg_counts_as_unset"
  "override_wins_over_env" "macos_uses_library_caches_and_ignores_xdg" "no_home_and_no_xdg_errors"
  "runtime_dir_wins_when_set" "override_wins_over_the_runtime_dir"
  "no_runtime_dir_falls_back_to_the_cache_dir_never_tmp" "nothing_to_go_on_names_the_flag"
  by (simp_all add: xdg_cache_home_wins_when_set_def xdg_unset_falls_back_to_home_cache_def
      empty_xdg_counts_as_unset_def override_wins_over_env_def macos_uses_library_caches_and_ignores_xdg_def
      no_home_and_no_xdg_errors_def runtime_dir_wins_when_set_def override_wins_over_the_runtime_dir_def
      no_runtime_dir_falls_back_to_the_cache_dir_never_tmp_def nothing_to_go_on_names_the_flag_def path_eval)

lemmas key_eval = device_dir_name_def usable_def trim_def is_whitespace_def sanitize_def MAX_DIR_NAME_def
  safe_char_def is_ascii_alphanumeric_def usb_form_def show_hex4_def hex_digit_def show_u64_def show_nat.simps
  digit_char_def char_of_def bit_Suc_0_iff non_empty_def

lemma key_tests_pass:
  "serial_names_the_directory" "no_serial_falls_back_to_the_usb_address" "a_serial_can_never_escape_the_mount_root"
  by (simp_all add: serial_names_the_directory_def no_serial_falls_back_to_the_usb_address_def
      a_serial_can_never_escape_the_mount_root_def key_eval)

lemmas facts_eval = facts_key_def facts_ident_def usable_serial_def headline_def bare_facts_def pixel_def key_eval

lemma facts_tests_pass:
  "a_device_with_no_serial_falls_back_to_the_usb_address" "a_blank_serial_is_no_serial"
  "the_ident_carries_the_key_the_supervisor_would_mount_under"
  by (simp_all add: a_device_with_no_serial_falls_back_to_the_usb_address_def a_blank_serial_is_no_serial_def
      the_ident_carries_the_key_the_supervisor_would_mount_under_def facts_eval sublist_code)

lemma long_serial_test_passes: "an_absurd_serial_is_truncated"
proof -
  have "trim (replicate 500 (CHR ''x'')) = replicate 500 (CHR ''x'')"
    by (simp add: trim_def is_whitespace_def dropWhile_eq_self_iff)
  then have "usable (Some (replicate 500 (CHR ''x''))) = Some (replicate 500 (CHR ''x''))"
    by (simp add: usable_def non_empty_def split: list.split)
  moreover have "sanitize (replicate 500 (CHR ''x'')) = replicate 64 (CHR ''x'')"
    by (simp add: sanitize_def MAX_DIR_NAME_def safe_char_def is_ascii_alphanumeric_def)
  ultimately show ?thesis
    by (simp add: an_absurd_serial_is_truncated_def device_dir_name_def MAX_DIR_NAME_def list_all_iff)
qed

lemma pixel_key: "facts_key pixel = ''2A31FDH200ABC''"
  by (simp add: facts_eval)

lemma reporter_tests_pass:
  "a_second_arrival_of_the_same_key_is_called_out" "the_loop_stops_when_every_sender_is_gone"
  by (simp_all add: a_second_arrival_of_the_same_key_is_called_out_def the_loop_stops_when_every_sender_is_gone_def
      dry_run_run_def open_keys_def arrived_fields pixel_key dry_run_new_def tally_default_def)

lemma supervisor_tests_pass:
  "a_departure_for_a_device_that_was_never_mounted_is_ignored H root spool w"
  "order [] = [] \<Longrightarrow> stopping_with_nothing_mounted_returns H order root spool w"
  by (simp_all add: a_departure_for_a_device_that_was_never_mounted_is_ignored_def
      stopping_with_nothing_mounted_returns_def test_supervisor_def supervisor_new_def sup_unmount_def
      mounted_keys_def sup_run_def unmount_all_def)

lemma refused_device_test_passes: "a_device_that_cannot_be_opened_leaves_no_directory_behind H root spool"
  by (simp add: a_device_that_cannot_be_opened_leaves_no_directory_behind_def test_supervisor_def supervisor_new_def
      test_ident_def sup_mount_def mounted_keys_def config_new_def)

lemma indent_test_passes: "indent_prefixes_content_lines_only"
  by (simp add: indent_prefixes_content_lines_only_def indent_def strip_return_def)

end
