(* ===== verification/Command_Line.thy ===== *)
theory Command_Line
  imports Programs "HOL-Library.Sublist"
begin

text \<open>
  What the two programs say of themselves: the hand-written sections of \<open>--help\<close>
  (\<open>long_help\<close> of \<open>src/src/main.rs\<close> and of \<open>src/src/bin/mtp-mountd.rs\<close>), which quote the
  hints and the limit the code uses, and the flag for that limit. The rest of \<open>--help\<close> is
  \<open>clap\<close>'s.
\<close>

section \<open>The flag\<close>

definition daemon_limit_arg :: string where
  "daemon_limit_arg = ''4G''"

text \<open>A \<open>value_parser\<close> with a \<open>default_value\<close>: what is given, else the default, is parsed.\<close>

definition limit_flag :: "string \<Rightarrow> string option \<Rightarrow> string + u64" where
  "limit_flag standard given = parse_size (case given of None \<Rightarrow> standard | Some text \<Rightarrow> text)"

section \<open>The help\<close>

definition long_help :: string where
  "long_help =
     (let limit = format_size DEFAULT_FULL_DOWNLOAD_LIMIT in join newline
     [''EXAMPLES:'',
      ''    Mount the first available device:'',
      ''        mtp-mount /mnt/phone'',
      '''',
      ''    List connected devices (shows serial numbers for -d):'',
      ''        mtp-mount --list'',
      '''',
      ''    Mount a specific device:'',
      ''        mtp-mount -d ABC123 /mnt/phone'',
      '''',
      ''    Mount read-only (safer for browsing, no accidental deletes):'',
      ''        mtp-mount -r /mnt/phone'',
      '''',
      ''    Unmount:'',
      ''        umount /mnt/phone'',
      '''',
      ''    Give a worn-out cable a minute to recover (0 unmounts on the first drop):'',
      ''        mtp-mount --reconnect-timeout 60 /mnt/phone'',
      '''',
      ''    Copy a file bigger than '' @ limit @ '' off a device with no partial-read support'',
      ''    (0 removes the limit entirely):'',
      ''        mtp-mount --full-download-limit 32G /mnt/switch'',
      '''',
      ''    Show debug output (handy for troubleshooting):'',
      ''        RUST_LOG=debug mtp-mount /mnt/phone'',
      '''',
      ''TROUBLESHOOTING:'',
      ''    \"No MTP device found\"'',
      ''        Make sure the phone is unlocked, USB mode is set to \"File Transfer\"'',
      ''        (not \"Charging only\"), and the USB debugging prompt is accepted.'',
      '''',
      ''    \"interface is busy\"'',
      indent BUSY_HINT (replicate 8 (CHR '' '')),
      '''',
      ''    \"Permission denied\" on /dev/bus/usb'',
      indent PERMISSION_HINT (replicate 8 (CHR '' '')),
      '''',
      ''NOTES:'',
      ''    Files are uploaded to the device when you close them, not on each write.'',
      ''    While a file is open for writing it's spooled to disk under your cache'',
      ''    directory (--spool-dir overrides it), so uploads bigger than RAM work.'',
      ''    MTP doesn't support partial writes, hardlinks, symlinks, or chmod.'',
      '''',
      ''    Most devices can hand over a byte range, so reading a file fetches only the'',
      ''    part you touch. A few (some Nintendo Switch MTP apps, simple PTP responders)'',
      ''    can only send whole objects. There, the first read starts one whole-file'',
      ''    download and later reads wait for their bytes to arrive; nothing you do to'',
      ''    the file interrupts it. That download holds the device for its whole length'',
      ''    and everything else on the mount waits behind it, so files above'',
      ''    --full-download-limit (default '' @ limit @ '') are refused with \"File too large\"'',
      ''    instead. Raise it, or pass 0, when you mean to copy a big one.'',
      '''',
      ''    If the device disconnects, the mount is taken down. Pass'',
      ''    --reconnect-timeout SECONDS to wait for it to come back instead: the mount'',
      ''    then picks up where it left off, including files you have open. Useful with'',
      ''    a flaky cable that keeps dropping the link. It's off by default because'',
      ''    commands WAIT during that window rather than failing, so anything walking'',
      ''    the mount point (a file manager, a backup job) freezes until the device'',
      ''    returns or the window ends.''])"

definition daemon_long_help :: string where
  "daemon_long_help =
     (let limit = format_size DEFAULT_FULL_DOWNLOAD_LIMIT in join newline
     [''WHAT IT DOES:'',
      ''    Watches for MTP devices and mounts each one it finds under the mount root,'',
      ''    in a directory named after the device's serial number:'',
      '''',
      ''        $XDG_RUNTIME_DIR/'' @ RUNTIME_SUBDIR @ ''/<serial>/'',
      '''',
      ''    Devices that report no serial number get usb-<vendor>-<product>-<port>'',
      ''    instead, which lasts as long as the device stays in the same port.'',
      '''',
      ''    A device with more than one storage (internal memory plus an SD card, say)'',
      ''    gets ONE mount, with each storage as a subdirectory under it.'',
      '''',
      ''    Unplug a device and its mount goes away right then, so nothing is left for'',
      ''    a file manager to hang on. Plug it back in and it's mounted again.'',
      '''',
      ''RUNNING IT:'',
      ''    As a systemd --user service (the intended way):'',
      ''        systemctl --user enable --now mtp-mountd'',
      '''',
      ''    In a terminal, to watch what it's doing:'',
      ''        RUST_LOG=info mtp-mountd'',
      '''',
      ''CHECKING A DEVICE WITHOUT MOUNTING IT (--dry-run):'',
      ''        mtp-mountd --dry-run'',
      '''',
      ''    Watches for devices and prints what it WOULD do: the fields each device'',
      ''    reports, the mount key derived from them, and the path it would mount at.'',
      ''    Nothing is mounted, no directory is created, and the device is never'',
      ''    opened, so this works on a machine with no FUSE at all.'',
      '''',
      ''    Plug the device in, wait for the PLUGGED IN block, then unplug it. The'',
      ''    UNPLUGGED block says whether its key MATCHES the arrival. It has to: the'',
      ''    key is how a departure finds the mount to take down, so a device whose'',
      ''    two keys disagree would leave its mount behind. Do that a few times and'',
      ''    read the summary. --spool-dir and -r do nothing in this mode.'',
      '''',
      ''TROUBLESHOOTING:'',
      ''    Nothing gets mounted'',
      ''        Make sure the phone is unlocked, USB mode is set to \"File Transfer\"'',
      ''        (not \"Charging only\"), and the USB debugging prompt is accepted.'',
      ''        Run with RUST_LOG=debug to see what the daemon sees.'',
      '''',
      ''    \"interface is busy\" in the log'',
      indent BUSY_HINT (replicate 8 (CHR '' '')),
      '''',
      ''    \"Permission denied\" on /dev/bus/usb'',
      indent PERMISSION_HINT (replicate 8 (CHR '' '')),
      '''',
      ''NOTES:'',
      ''    Files are uploaded to the device when you close them, not on each write.'',
      ''    While a file is open for writing it's spooled to disk under your cache'',
      ''    directory (--spool-dir overrides it), so uploads bigger than RAM work.'',
      ''    MTP doesn't support partial writes, hardlinks, symlinks, or chmod.'',
      '''',
      ''    There's no reconnect window: a device that goes away is unmounted at once,'',
      ''    and hotplug mounts it again when it comes back. Waiting instead would'',
      ''    freeze every process touching the mount for the length of the window.'',
      '''',
      ''    A few devices (some Nintendo Switch MTP apps, simple PTP responders) can'',
      ''    only send whole objects rather than byte ranges. Reading a file there starts'',
      ''    one whole-file download that holds the device until it finishes, so files'',
      ''    above --full-download-limit (default '' @ limit @ '') are refused with \"File too'',
      ''    large\" instead. Raise it, or pass 0, when you mean to copy a big one.''])"

section \<open>The help says what the code does\<close>

lemma join_middle: "sublist x (join sep (xs @ x # ys))"
proof (induction xs)
  case Nil
  show ?case by (cases ys) (auto intro: sublist_appendI [of x "[]", simplified])
next
  case (Cons y xs)
  then obtain a b where "join sep (xs @ x # ys) = a @ x @ b" by (auto simp: sublist_def)
  then have "join sep ((y # xs) @ x # ys) = (y @ sep @ a) @ x @ b" by (cases "xs @ x # ys") simp_all
  then show ?case unfolding sublist_def by blast
qed

lemma join_has: "x \<in> set xs \<Longrightarrow> sublist x (join sep xs)"
  using join_middle by (metis in_set_conv_decomp)

text \<open>Whatever a failed open prints as the remedy, both helps print, indented.\<close>

lemma remedies_are_in_the_help:
  assumes "open_failure_hint exclusive denied e = Some hint"
  shows "sublist (indent hint (replicate 8 (CHR '' ''))) long_help"
    and "sublist (indent hint (replicate 8 (CHR '' ''))) daemon_long_help"
proof -
  have "hint = BUSY_HINT \<or> hint = PERMISSION_HINT"
    using assms by (auto simp: open_failure_hint_def split: if_splits)
  then show "sublist (indent hint (replicate 8 (CHR '' ''))) long_help"
    "sublist (indent hint (replicate 8 (CHR '' ''))) daemon_long_help"
    unfolding long_help_def daemon_long_help_def Let_def
    by (auto intro!: join_has simp del: join.simps)
qed

end
