(* ===== verification/Test_Programs.thy ===== *)
theory Test_Programs
  imports Command_Line Test_Daemon
begin

text \<open>
  The unit tests of \<open>main.rs\<close>, \<open>bin/mtp-mountd.rs\<close>, \<open>hints.rs\<close> and \<open>daemon/unmount.rs\<close>
  and the tests of \<open>spool.rs\<close> and \<open>daemon/supervisor.rs\<close> that look at real directories
  (all under \<open>src/src/\<close>), as conditions on the model, and that they hold. A temporary
  directory is a small tree of directories and files on one device, on which \<open>tree_os\<close> is
  the operating system. What tests \<open>clap\<close> alone is left out.
\<close>

section \<open>Hints\<close>

text \<open>The crate's predicates are arguments; each test first checks what it takes for granted of them.\<close>

definition busy_gets_the_release_the_device_remedy :: "('e \<Rightarrow> bool) \<Rightarrow> ('e \<Rightarrow> bool) \<Rightarrow> 'e \<Rightarrow> bool" where
  "busy_gets_the_release_the_device_remedy exclusive denied e \<longleftrightarrow> exclusive e \<and>
     (case open_failure_hint exclusive denied e of
        None \<Rightarrow> False
      | Some hint \<Rightarrow> sublist ''gio mount -l'' hint \<and> sublist ''gvfs-mtp-volume-monitor'' hint \<and> sublist ''ptpcamerad'' hint)"

definition permission_denied_points_at_udev :: "('e \<Rightarrow> bool) \<Rightarrow> ('e \<Rightarrow> bool) \<Rightarrow> 'e \<Rightarrow> bool" where
  "permission_denied_points_at_udev exclusive denied e \<longleftrightarrow> denied e \<and>
     (case open_failure_hint exclusive denied e of None \<Rightarrow> False | Some hint \<Rightarrow> sublist ''udev'' hint)"

definition other_failures_get_no_hint :: "('e \<Rightarrow> bool) \<Rightarrow> ('e \<Rightarrow> bool) \<Rightarrow> 'e \<Rightarrow> bool" where
  "other_failures_get_no_hint exclusive denied e \<longleftrightarrow>
     \<not> exclusive e \<and> \<not> denied e \<and> open_failure_hint exclusive denied e = None"

section \<open>The limit on the command line\<close>

definition default_value_parser_matches_the_constant :: bool where
  "default_value_parser_matches_the_constant \<longleftrightarrow>
     parse_size DEFAULT_FULL_DOWNLOAD_LIMIT_ARG = Inr DEFAULT_FULL_DOWNLOAD_LIMIT \<and>
     limit_flag DEFAULT_FULL_DOWNLOAD_LIMIT_ARG None = Inr DEFAULT_FULL_DOWNLOAD_LIMIT"

definition the_limit_accepts_a_size_and_a_zero :: bool where
  "the_limit_accepts_a_size_and_a_zero \<longleftrightarrow>
     limit_flag DEFAULT_FULL_DOWNLOAD_LIMIT_ARG (Some ''32G'') = Inr (32 * 1024 * 1024 * 1024) \<and>
     limit_flag DEFAULT_FULL_DOWNLOAD_LIMIT_ARG (Some ''0'') = Inr 0"

definition daemon_default_matches_the_constant :: bool where
  "daemon_default_matches_the_constant \<longleftrightarrow>
     parse_size daemon_limit_arg = Inr DEFAULT_FULL_DOWNLOAD_LIMIT \<and>
     limit_flag daemon_limit_arg None = Inr DEFAULT_FULL_DOWNLOAD_LIMIT"

section \<open>A tree of directories\<close>

text \<open>What exists, and whether it is a directory.\<close>

type_synonym tree = "(path \<times> bool) list"

fun ancestors :: "nat \<Rightarrow> path \<Rightarrow> path list" where
  "ancestors 0 p = []"
| "ancestors (Suc n) p = (case path_parent p of None \<Rightarrow> [] | Some q \<Rightarrow> q # ancestors n q)"

definition make_dirs :: "path \<Rightarrow> tree \<Rightarrow> os_error option \<times> tree" where
  "make_dirs p t =
     (let chain = rev (p # ancestors (length p) p) in
      if list_ex (\<lambda>q. map_of t q = Some False) chain then (Some (OtherOs ''EEXIST''), t)
      else (None, t @ map (\<lambda>q. (q, True)) (filter (\<lambda>q. map_of t q = None) chain)))"

definition inside :: "path \<Rightarrow> tree \<Rightarrow> tree" where
  "inside p t = filter (\<lambda>e. path_parent (fst e) = Some p) t"

definition remove_empty :: "path \<Rightarrow> tree \<Rightarrow> os_error option \<times> tree" where
  "remove_empty p t =
     (if map_of t p \<noteq> Some True then (Some NoEntry, t)
      else if inside p t \<noteq> [] then (Some (OtherOs ''ENOTEMPTY''), t)
      else (None, filter (\<lambda>e. fst e \<noteq> p) t))"

definition last_component :: "path \<Rightarrow> string" where
  "last_component p = rev (takeWhile (\<lambda>c. c \<noteq> CHR ''/'') (rev p))"

text \<open>Nothing is mounted in a tree, so detaching anything is refused.\<close>

definition tree_os :: "tree os_ops" where
  "tree_os =
     \<lparr>os_lstat = (\<lambda>p t. case map_of t p of None \<Rightarrow> Inl NoEntry | Some dir \<Rightarrow> Inr (dir, 1)),
      os_stat = (\<lambda>p t. case map_of t p of None \<Rightarrow> Inl NoEntry | Some dir \<Rightarrow> Inr 1),
      os_detach = (\<lambda>p t. (Some (OtherOs ''EINVAL''), t)), os_helper = (\<lambda>h p t. (None, t)),
      os_now = (\<lambda>t. 0), os_sleep = (\<lambda>d t. t),
      os_read_dir = (\<lambda>p t. if map_of t p = Some True
        then Inr (map (\<lambda>e. Some (last_component (fst e), Some (snd e))) (inside p t)) else Inl NoEntry),
      os_create_dir_all = make_dirs, os_remove_dir = remove_empty\<rparr>"

text \<open>\<open>tempfile::tempdir()\<close>\<close>

definition temp :: path where
  "temp = ''/tmp/t''"

definition temp_tree :: tree where
  "temp_tree = [(''/'', True), (''/tmp'', True), (temp, True)]"

section \<open>Unmounting\<close>

definition a_plain_directory_is_not_a_mountpoint :: bool where
  "a_plain_directory_is_not_a_mountpoint =
     (let child = path_join temp ''child''; t = snd (make_dirs child temp_tree) in \<not> is_mountpoint tree_os child t)"

definition a_missing_path_is_not_a_mountpoint :: bool where
  "a_missing_path_is_not_a_mountpoint \<longleftrightarrow> \<not> is_mountpoint tree_os (path_join temp ''nope'') temp_tree"

definition a_file_is_not_a_mountpoint :: bool where
  "a_file_is_not_a_mountpoint =
     (let file = path_join temp ''file'' in \<not> is_mountpoint tree_os file ((file, False) # temp_tree))"

definition a_missing_root_is_not_an_error :: bool where
  "a_missing_root_is_not_an_error \<longleftrightarrow>
     clean_stale_mounts tree_os (path_join temp ''never-created'') temp_tree = Some ([], temp_tree)"

definition sweeping_removes_empty_leftovers_but_keeps_directories_with_files :: bool where
  "sweeping_removes_empty_leftovers_but_keeps_directories_with_files =
     (let empty = path_join temp ''ABC123''; occupied = path_join temp ''not-ours'';
          t = snd (make_dirs occupied (snd (make_dirs empty temp_tree))) @ [(path_join occupied ''keep'', False)]
      in case clean_stale_mounts tree_os temp t of
           None \<Rightarrow> False
         | Some (cleaned, t) \<Rightarrow> cleaned = [] \<and> map_of t empty = None \<and> map_of t occupied \<noteq> None)"

definition waiting_on_a_path_that_was_never_mounted_returns_at_once :: bool where
  "waiting_on_a_path_that_was_never_mounted_returns_at_once \<longleftrightarrow>
     map_option fst (wait_until_unmounted tree_os temp 1 temp_tree) = Some True"

section \<open>Directories the programs make\<close>

text \<open>A machine and a host on the tree; a file can be made in any directory of it.\<close>

definition host_on_tree :: "('dev, 's, 'd, 'sess, tree) host \<Rightarrow> ('dev, 's, 'd, 'sess, tree) host" where
  "host_on_tree H = H\<lparr>ho_os := tree_os\<rparr>"

definition machine_on_tree ::
  "('dev, 's, 'd, 'sess, tree, 'i) machine \<Rightarrow> ('dev, 's, 'd, 'sess, tree, 'i) machine" where
  "machine_on_tree M = M\<lparr>mc_host := host_on_tree (mc_host M),
     mc_tempfile_in := (\<lambda>p t. (if map_of t p = Some True then None else Some NoEntry, t))\<rparr>"

definition prepare_creates_missing_directory :: "('dev, 's, 'd, 'sess, tree, 'i) machine \<Rightarrow> bool" where
  "prepare_creates_missing_directory M =
     (let dir = path_join (path_join temp ''mtp-mount'') ''spool'';
          (r, t) = prepare_spool_dir (machine_on_tree M) dir temp_tree
      in r = Inr () \<and> map_of t dir = Some True)"

definition prepare_reports_the_path_it_could_not_use :: "('dev, 's, 'd, 'sess, tree, 'i) machine \<Rightarrow> bool" where
  "prepare_reports_the_path_it_could_not_use M =
     (let blocked = path_join temp ''not-a-dir''
      in error_contains (fst (prepare_spool_dir (machine_on_tree M) blocked ((blocked, False) # temp_tree))) blocked)"

definition the_mount_root_is_created_when_the_loop_starts ::
  "('dev, 's, 'd, 'sess, tree) host \<Rightarrow> (string list \<Rightarrow> string list) \<Rightarrow> path \<Rightarrow> bool" where
  "the_mount_root_is_created_when_the_loop_starts H order spool =
     (let root = path_join (path_join temp ''runtime'') ''mtp'' in
      case sup_run (host_on_tree H) order [Stop ''test''] (test_supervisor root spool temp_tree) of
        None \<Rightarrow> False
      | Some s \<Rightarrow> (case path_parent root of None \<Rightarrow> False | Some q \<Rightarrow> map_of (sv_world s) q = Some True))"

section \<open>The tests pass\<close>

lemma hint_tests_pass:
  "exclusive e \<Longrightarrow> busy_gets_the_release_the_device_remedy exclusive denied e"
  "denied e \<Longrightarrow> \<not> exclusive e \<Longrightarrow> permission_denied_points_at_udev exclusive denied e"
  "\<not> exclusive e \<Longrightarrow> \<not> denied e \<Longrightarrow> other_failures_get_no_hint exclusive denied e"
  by (simp_all add: busy_gets_the_release_the_device_remedy_def permission_denied_points_at_udev_def
      other_failures_get_no_hint_def open_failure_hint_def BUSY_HINT_def PERMISSION_HINT_def sublist_code)

lemma limit_tests_pass:
  "default_value_parser_matches_the_constant" "the_limit_accepts_a_size_and_a_zero" "daemon_default_matches_the_constant"
  by (simp_all add: default_value_parser_matches_the_constant_def the_limit_accepts_a_size_and_a_zero_def
      daemon_default_matches_the_constant_def limit_flag_def daemon_limit_arg_def DEFAULT_FULL_DOWNLOAD_LIMIT_ARG_def
      DEFAULT_FULL_DOWNLOAD_LIMIT_def size_eval del: Let_def)

lemmas tree_eval = temp_def temp_tree_def path_join_def path_parent_def strip_slashes_def make_dirs_def remove_empty_def
  inside_def last_component_def

lemma mountpoint_tests_pass:
  "a_plain_directory_is_not_a_mountpoint" "a_missing_path_is_not_a_mountpoint" "a_file_is_not_a_mountpoint"
  by code_simp+

lemma sweep_tests_pass:
  "a_missing_root_is_not_an_error" "sweeping_removes_empty_leftovers_but_keeps_directories_with_files"
  "waiting_on_a_path_that_was_never_mounted_returns_at_once"
  by code_simp+

lemma directory_making_tests_pass:
  "prepare_creates_missing_directory M" "prepare_reports_the_path_it_could_not_use M"
  by (simp_all add: prepare_creates_missing_directory_def prepare_reports_the_path_it_could_not_use_def
      prepare_spool_dir_def machine_on_tree_def host_on_tree_def tree_os_def tree_eval spool_error_def error_contains_def
      sublist_code Let_def)

lemma mount_root_test_passes: "order [] = [] \<Longrightarrow> the_mount_root_is_created_when_the_loop_starts H order spool"
  by (simp add: the_mount_root_is_created_when_the_loop_starts_def test_supervisor_def supervisor_new_def config_new_def
      sup_run_def unmount_all_def host_on_tree_def tree_os_def tree_eval Let_def)

end
