(* ===== verification/Spec2Isabelle.thy ===== *)
theory Spec2Isabelle
  imports Ranges Spool_File Sparse_Cache Buffer Fill Inode Reconnect Size_Parse Session_Facts Fs_Changes
    Read_Facts Flush_Facts Write_Facts Mount_Facts Tree_Facts Handler_Facts Run_Facts Run_Reads Paths Hotplug Dry_Run Unmount Supervisor_Facts Programs
    Fuzz_Ranges Fuzz_Buffer Fuzz_Size Fuzz_Inodes Test_Inode Test_Fill Test_Daemon Test_Programs
begin

text \<open>
  A model of \<open>mtp-mount\<close>, a FUSE filesystem over an MTP device (a phone, a camera), and of
  its daemon \<open>mtp-mountd\<close>, with the properties that make it correct.

  \<^bold>\<open>The program.\<close> A mount (\<open>src/src/fs.rs\<close>) answers the kernel's callbacks
  from an inode table, write buffers and read caches, and talks to the device through the crate
  \<open>mtp_rs\<close>. A written file is spooled on disk and uploaded when it is closed; a read fetches
  the missing ranges, or on devices that send only whole objects waits for one background
  download. When the link drops, the mount reopens the device and re-resolves every handle by
  path, or gives up and asks to be taken down. The daemon (\<open>src/src/daemon/\<close>) turns USB
  hotplug events into mounts and unmounts; \<open>--dry-run\<close> reports what it would do.

  \<^bold>\<open>Theories and sources.\<close>
  \<^item> \<open>Prelude\<close>: machine integers (saturating and checked arithmetic, decimal digits),
    operations with errors as values (\<open>op\<close>, \<open>bind_op\<close>), pread and pwrite on byte lists.
  \<^item> \<open>Ranges\<close> (\<open>ranges.rs\<close>): the set of offsets present, as sorted disjoint ranges;
    the locale \<open>offset_tracker\<close> is what the sparse cache needs of it.
  \<^item> \<open>Spool_File\<close> (the standard library's \<open>File\<close>, and \<open>file_stream\<close>,
    \<open>bytes_stream\<close> of \<open>fs.rs\<close>); the locale \<open>byte_storage\<close> is what buffer and cache
    need of it.
  \<^item> \<open>Sparse_Cache\<close> (\<open>sparse_cache.rs\<close>): the cache, the cache shared with the
    filler, the filler, and \<open>cache_step\<close>, every thread's critical sections as steps.
  \<^item> \<open>Buffer\<close> (\<open>buffer.rs\<close>, \<open>error.rs\<close>), \<open>Fill\<close> (\<open>fill.rs\<close>),
    \<open>Inode\<close> (\<open>inode.rs\<close>, with \<open>tab_step\<close>, the table's operations as steps),
    \<open>Reconnect\<close> (\<open>reconnect.rs\<close>, \<open>shutdown.rs\<close>), \<open>Size_Parse\<close>
    (\<open>size.rs\<close>).
  \<^item> \<open>Device\<close> (\<open>device.rs\<close> and the pure helpers of \<open>fs.rs\<close>): \<open>mtp_ops\<close>,
    the interface of \<open>mtp_rs\<close> as a parameter.
  \<^item> \<open>Fs_Session\<close>, \<open>Fs_Flush\<close>, \<open>Fs_Handlers\<close>, \<open>Fs_Changes\<close>
    (\<open>fs.rs\<close>): the state \<open>mtp_fs\<close> (\<open>MtpFs\<close> and \<open>Inner\<close>), recovery and
    listing, uploads, the callbacks, the device's events. A callback is a function from the
    state to its reply and the next state.
  \<^item> \<open>Paths\<close> (\<open>spool.rs\<close>, \<open>daemon/paths.rs\<close>), \<open>Hotplug\<close>
    (\<open>daemon/usb.rs\<close>, the opener of \<open>device.rs\<close>), \<open>Dry_Run\<close>
    (\<open>daemon/dryrun.rs\<close>), \<open>Unmount\<close> (\<open>daemon/unmount.rs\<close>), \<open>Supervisor\<close>
    (\<open>daemon/supervisor.rs\<close>), \<open>Programs\<close> (\<open>main.rs\<close>,
    \<open>bin/mtp-mountd.rs\<close>, \<open>hints.rs\<close>, the spool directory and the signals): the two
    programs from the parsed command line to the exit code; \<open>Command_Line\<close>: their flag for
    the download limit and the hand-written part of their help.
  \<^item> \<open>Session_Facts\<close>, \<open>Read_Facts\<close>, \<open>Flush_Facts\<close>, \<open>Write_Facts\<close>,
    \<open>Mount_Facts\<close>, \<open>Tree_Facts\<close>, \<open>Handler_Facts\<close>, \<open>Descriptor_Facts\<close>, \<open>Run_Facts\<close>,
    \<open>Run_Reads\<close>, \<open>Supervisor_Facts\<close>: the properties of the layers above;
    \<open>Demo_Device\<close>: a small device for the witnesses.

  \<^item> \<open>Harness\<close>, \<open>Fuzz_Ranges\<close>, \<open>Fuzz_Buffer\<close>, \<open>Fuzz_Size\<close>,
    \<open>Fuzz_Inodes\<close> (\<open>src/fuzz/fuzz_targets/\<close>): the repository's own fuzz targets, each a
    program over its input in which a failed assertion is \<open>None\<close>; the locale \<open>harness\<close> is
    what a target's steps owe its run.
  \<^item> \<open>Test_Cache\<close>, \<open>Test_Fill\<close>, \<open>Test_Buffer\<close>, \<open>Test_Inode\<close>, \<open>Test_Core\<close>,
    \<open>Test_Daemon\<close>, \<open>Test_Programs\<close>: the repository's unit tests, each as the condition its assertions
    state of the model.

  \<^bold>\<open>How state and effects are modelled.\<close> Integers keep their width. Maps are partial
  functions; where the code iterates a hash map, the order is an argument. Everything outside
  the repository is an argument that may answer anything: the device and its clock, disk and
  cable (\<open>mtp_ops\<close>), the operating system (\<open>os_ops\<close>), \<open>fuser\<close> and the threads
  behind a session (\<open>host\<close>), the rest of what a program calls (\<open>machine\<close>). A mutex's
  critical section is one step; a condition variable is the list of states a waiter finds on waking; a spawned task is queued in the state and run by
  its own step. A loop without a bound is \<open>partial_function (option)\<close>, so that not
  returning is \<open>None\<close>: \<open>delays\<close>, \<open>storage_walk\<close>, \<open>chain_walk\<close>,
  \<open>fetch_range\<close>, \<open>wait_loop\<close>. Each has a theorem that it returns: in every reachable
  table, for every device, and whenever the clock advances. No fuel is used.

  \<^bold>\<open>What the lemmas show.\<close>
  \<^item> Data structures: ranges are the canonical form of the offsets inserted; a buffered
    write is pwrite; the cache never calls a wrong byte populated, whatever the stream, disk
    and teardown do.
  \<^item> The fuzz targets: on no input does any of their assertions fail, so the range set is
    equivalent to a bitmap, a file buffer to a vector, and both indexes of the inode table
    survive every program of calls. The unit tests modelled hold too, evaluated in the
    kernel: the model answers there what the authors of the code expect of it.
  \<^item> The tree: the name index, the entries and the listings agree, and walks end, in every
    table reached by \<open>tab_step\<close>, the table's own operations;
    \<open>requests_keep_the_tree_sound\<close> shows that serving a request only makes such steps, with
    one exception that it states exactly: a close whose delete or rename failed leaves the entry
    under its temporary name. While that does not happen no callback on names panics, paging
    through a directory lists every name once and a created file is found again; after it, an
    unlink leads to a panic (\<open>unlink_after_failed_delete_panics\<close>).
  \<^item> Whole mounts: \<open>mounted\<close> (\<open>Run_Facts\<close>) is the states a mount goes through from
    \<open>fs_init\<close>, one request at a time. In each of them, as long as no close left an upload
    under its temporary name, the tree is sound; in all of them every write
    buffer and read cache has the descriptor or download it is kept for
    (\<open>Descriptor_Facts\<close>, one lemma per callback and task), so none outlives them. In
    every state of a read-only mount each entry and cache of a name under which the device shows
    one object holds that object (\<open>Run_Reads\<close>), so every read of it is right.
  \<^item> Sessions: relations that hold across whatever recovery does are instances of the
    locales \<open>frame\<close>, \<open>env_frame\<close>, \<open>node_frame\<close>, \<open>session_frame\<close>, \<open>resolving_frame\<close>,
    \<open>fetching_frame\<close>, \<open>caching_frame\<close> and \<open>reading_frame\<close>, interpreted for what a
    session keeps, what it may forget, the mount's mode, the growth of the tree and the books on descriptors.
  \<^item> Reading and uploading: on a device that answers for its objects a read returns
    exactly the object's bytes; after a close that succeeds the device holds an object with
    the spooled bytes and the entry names it, through every retry and reconnection
    (\<open>same_session\<close>: what a flush leaves of the session's handles); what is uploaded is
    the answered writes applied to an empty file (an append loses the old content); no failure of a
    safe upload loses both copies; a read-only mount is equivalent to one on a device that
    cannot be written.
  \<^item> The daemon: its books are right in every state, an unmount never removes a live
    mount's directory, and a dry run predicts it. A run that is sent a \<open>Stop\<close> ends there with an
    empty table, and a mount point that is left was there before or is one where the forced
    unmount did not take the mount down; the sweep at the start clears what a crash left to the
    same extent. The end of a command list without a \<open>Stop\<close> is the state of a daemon that still
    waits. Both programs' exit codes tell how the run ended.

  \<^bold>\<open>Not modelled.\<close> The parsing of the command line (\<open>clap\<close>), log lines and the
  kernel's own caching. Strings are lists of characters of the first 256 code points.
\<close>

section \<open>A daemon's mount that loses its device\<close>





end
